(* ===== verification/Prelude.thy ===== *)
theory Prelude
  imports Main "HOL-Library.Word"
begin

unbundle bit_operations_syntax

text \<open>
  Shared vocabulary of the development: bytes and machine words, little-endian
  codecs, the error type of the crate and results, \<open>subtle::Choice\<close>, outcomes of
  code that may panic, and the list and word lemmas the component theories share.

  Conventions. A Rust \<open>[u8; N]\<close>, \<open>&[u8]\<close> or \<open>Vec<u8>\<close> is a \<open>bytes\<close> value;
  a \<open>usize\<close> is a \<open>nat\<close>; a \<open>u64\<close> is a \<open>64 word\<close> (its arithmetic wraps).
  A \<open>Result<T, VeilError>\<close> is \<open>veil_error + 'a\<close> with \<open>Inl\<close> the error.
\<close>

named_theorems tag_defs "the byte strings of the domain tags"
named_theorems len_simps "lengths of fixed-size arrays"
named_theorems hash_simps "hash operations reduced to the absorbed byte string"

section \<open>Bytes and words\<close>

type_synonym byte = "8 word"
type_synonym bytes = "8 word list"
type_synonym u16 = "16 word"
type_synonym u32 = "32 word"
type_synonym u64 = "64 word"

text \<open>A Rust byte-string literal \<open>b"..."\<close>.\<close>

definition ascii :: "string \<Rightarrow> bytes" where
  "ascii s = map of_char s"

lemma length_ascii [simp]: "length (ascii s) = length s"
  by (simp add: ascii_def)

text \<open>\<open>to_le_bytes\<close> of an integer of \<open>n\<close> bytes, and \<open>u64::from_le_bytes\<close>.\<close>

definition to_le_bytes :: "nat \<Rightarrow> 'a::len word \<Rightarrow> bytes" where
  "to_le_bytes n w = map (\<lambda>i. ucast (drop_bit (8 * i) w)) [0..<n]"

primrec from_le_bytes :: "bytes \<Rightarrow> 'a::len word" where
  "from_le_bytes [] = 0"
| "from_le_bytes (b # bs) = ucast b OR push_bit 8 (from_le_bytes bs)"

abbreviation u64_le :: "u64 \<Rightarrow> bytes" where
  "u64_le w \<equiv> to_le_bytes 8 w"

text \<open>The idiom \<open>(n as u64).to_le_bytes()\<close> for a \<open>usize\<close>.\<close>

definition usize_le :: "nat \<Rightarrow> bytes" where
  "usize_le n = u64_le (of_nat n)"

lemma length_to_le_bytes [simp, len_simps]: "length (to_le_bytes n w) = n"
  by (simp add: to_le_bytes_def)

lemma length_usize_le [simp, len_simps]: "length (usize_le n) = 8"
  by (simp add: usize_le_def)

lemma bit_from_le_bytes:
  "bit (from_le_bytes bs :: 'a::len word) n \<longleftrightarrow>
     n < LENGTH('a) \<and> n div 8 < length bs \<and> bit (bs ! (n div 8)) (n mod 8)"
proof (induction bs arbitrary: n)
  case Nil
  then show ?case by simp
next
  case (Cons b bs)
  show ?case
  proof (cases "n < 8")
    case True
    then show ?thesis
      by (auto simp: bit_simps)
  next
    case False
    then have "n div 8 = Suc ((n - 8) div 8)" and "n mod 8 = (n - 8) mod 8"
      by (auto simp: le_div_geq le_mod_geq)
    moreover have "\<not> bit b n"
      using False bit_imp_le_length [of b n] by auto
    ultimately show ?thesis
      using False Cons.IH [of "n - 8"] by (auto simp: bit_simps)
  qed
qed

lemma from_to_le_bytes:
  assumes "LENGTH('a) = 8 * n"
  shows "from_le_bytes (to_le_bytes n (w :: 'a::len word)) = w"
proof (rule bit_word_eqI)
  fix k assume "k < LENGTH('a)"
  then have "k div 8 < n" using assms by simp
  moreover have "8 * (k div 8) + k mod 8 = k" by simp
  ultimately show "bit (from_le_bytes (to_le_bytes n w) :: 'a word) k = bit w k"
    using \<open>k < LENGTH('a)\<close>
    by (auto simp: bit_from_le_bytes to_le_bytes_def bit_simps)
qed

lemma to_le_bytes_inj:
  "LENGTH('a) = 8 * n \<Longrightarrow> to_le_bytes n (v :: 'a::len word) = to_le_bytes n w \<longleftrightarrow> v = w"
  by (metis from_to_le_bytes)

lemma u64_le_inj [simp]: "u64_le v = u64_le w \<longleftrightarrow> v = w"
  by (rule to_le_bytes_inj) simp

lemma from_u64_le [simp]: "(from_le_bytes (u64_le w) :: u64) = w"
  by (rule from_to_le_bytes) simp

lemma to_from_le_bytes:
  assumes "LENGTH('a) = 8 * n" and "length bs = n"
  shows "to_le_bytes n (from_le_bytes bs :: 'a::len word) = bs"
proof (rule nth_equalityI)
  fix i assume "i < length (to_le_bytes n (from_le_bytes bs :: 'a word))"
  then have i: "i < n" by simp
  show "to_le_bytes n (from_le_bytes bs :: 'a word) ! i = bs ! i"
  proof (rule bit_word_eqI)
    fix k assume "k < LENGTH(8)"
    then have k: "k < 8" by simp
    then have "8 * i + k < 8 * n" using i by simp
    with i k assms show "bit (to_le_bytes n (from_le_bytes bs :: 'a word) ! i) k = bit (bs ! i) k"
      by (simp add: to_le_bytes_def bit_simps bit_from_le_bytes)
  qed
qed (use assms in simp)

lemma u64_le_from [simp]: "length bs = 8 \<Longrightarrow> u64_le (from_le_bytes bs :: u64) = bs"
  by (rule to_from_le_bytes) simp_all

lemma usize_le_inj:
  assumes "m < 2 ^ 64" and "n < 2 ^ 64"
  shows "usize_le m = usize_le n \<longleftrightarrow> m = n"
proof -
  have "unat (of_nat m :: u64) = m" and "unat (of_nat n :: u64) = n"
    using assms by (simp_all add: unat_of_nat)
  then show ?thesis
    unfolding usize_le_def by (metis u64_le_inj)
qed

lemma unat_byte_less: "unat (b :: byte) < 256"
proof -
  have "unat b < 2 ^ LENGTH(8)" by (rule unsigned_less)
  then show ?thesis by simp
qed

lemma xor_eq_0_iff: "(a :: 'a::len word) XOR b = 0 \<longleftrightarrow> a = b"
  by (metis xor.assoc xor.right_neutral xor_self_eq xor.left_neutral)

lemma xor_left_cancel: "p XOR a = p XOR b \<longleftrightarrow> a = (b :: 'a::len word)"
proof
  assume "p XOR a = p XOR b"
  then have "p XOR (p XOR a) = p XOR (p XOR b)" by simp
  then show "a = b" by (simp add: xor.assoc [symmetric] del: xor.left_commute)
qed simp

text \<open>Zeroing a buffer: \<open>zeroize_bytes\<close> writes 0 to every byte.\<close>

abbreviation zeros :: "nat \<Rightarrow> bytes" where
  "zeros n \<equiv> replicate n 0"

text \<open>Bytewise exclusive or of two buffers, \<open>p ^= b\<close> over \<open>zip\<close>.\<close>

definition xor_bytes :: "bytes \<Rightarrow> bytes \<Rightarrow> bytes" where
  "xor_bytes xs ys = map2 (XOR) xs ys"

lemma length_xor_bytes [simp, len_simps]:
  "length (xor_bytes xs ys) = min (length xs) (length ys)"
  by (simp add: xor_bytes_def)

lemma nth_xor_bytes:
  "i < length xs \<Longrightarrow> i < length ys \<Longrightarrow> xor_bytes xs ys ! i = xs ! i XOR ys ! i"
  by (simp add: xor_bytes_def)

lemma xor_bytes_cancel:
  "length xs \<le> length ys \<Longrightarrow> xor_bytes (xor_bytes xs ys) ys = xs"
  by (rule nth_equalityI) (auto simp: nth_xor_bytes xor.assoc)

lemma xor_bytes_Nil [simp]: "xor_bytes [] ys = []" "xor_bytes xs [] = []"
  by (simp_all add: xor_bytes_def)

lemma drop_xor_bytes: "drop n (xor_bytes a b) = xor_bytes (drop n a) (drop n b)"
  by (simp add: xor_bytes_def drop_map drop_zip)

lemma xor_bytes_zeros [simp]: "length a = n \<Longrightarrow> xor_bytes a (zeros n) = a"
  by (auto simp: xor_bytes_def intro!: nth_equalityI)

text \<open>Folding several buffers into a pool with exclusive or.\<close>

definition xor_fold :: "bytes list \<Rightarrow> bytes \<Rightarrow> bytes" where
  "xor_fold bufs pool = fold (\<lambda>b pool. xor_bytes pool b) bufs pool"

lemma xor_fold_simps [simp]:
  "xor_fold [] pool = pool"
  "xor_fold (b # bufs) pool = xor_fold bufs (xor_bytes pool b)"
  by (simp_all add: xor_fold_def)

lemma xor_fold_append: "xor_fold (as @ bs) pool = xor_fold bs (xor_fold as pool)"
  by (simp add: xor_fold_def)

lemma length_xor_fold:
  "list_all (\<lambda>b. length b = n) bufs \<Longrightarrow> length pool = n \<Longrightarrow> length (xor_fold bufs pool) = n"
  by (induction bufs arbitrary: pool) simp_all

lemma xor_bytes_swap: "xor_bytes (xor_bytes p a) b = xor_bytes (xor_bytes p b) a"
  by (rule nth_equalityI) (auto simp: nth_xor_bytes xor.assoc xor.commute xor.left_commute)

lemma xor_fold_xor: "xor_fold bufs (xor_bytes pool x) = xor_bytes (xor_fold bufs pool) x"
  by (induction bufs arbitrary: pool) (simp_all add: xor_bytes_swap [of _ x])

text \<open>Every buffer counts: with the others fixed, the pool determines it.\<close>

lemma xor_fold_sensitive:
  assumes "list_all (\<lambda>b. length b = n) (as @ bs)" and "length pool = n" and "length x = n" and "length y = n"
    and "xor_fold (as @ x # bs) pool = xor_fold (as @ y # bs) pool"
  shows "x = y"
proof -
  let ?p = "xor_fold (as @ bs) pool"
  have len: "length ?p = n" using assms(1,2) by (rule length_xor_fold)
  have "xor_bytes ?p x = xor_bytes ?p y"
    using assms(5) by (simp add: xor_fold_append xor_fold_xor)
  then have "?p ! i XOR x ! i = ?p ! i XOR y ! i" if "i < n" for i
    using that len assms(3,4) by (metis nth_xor_bytes)
  then have "x ! i = y ! i" if "i < n" for i
    using that xor_left_cancel by blast
  with assms(3,4) show ?thesis by (auto intro: nth_equalityI)
qed

section \<open>Errors, results and panics\<close>

text \<open>\<open>common::error::VeilError\<close>.\<close>

datatype veil_error = Entropy | Crypto

type_synonym 'a result = "veil_error + 'a"

text \<open>The \<open>?\<close> operator: an error returns at once, a value is passed on.\<close>

definition res_bind :: "'e + 'a \<Rightarrow> ('a \<Rightarrow> 'e + 'b) \<Rightarrow> 'e + 'b" where
  "res_bind r f = (case r of Inl e \<Rightarrow> Inl e | Inr x \<Rightarrow> f x)"

lemma res_bind_simps [simp]:
  "res_bind (Inl e) f = Inl e"
  "res_bind (Inr x) f = f x"
  by (simp_all add: res_bind_def)

lemma res_bind_Inr_iff:
  "res_bind r f = Inr y \<longleftrightarrow> (\<exists>x. r = Inr x \<and> f x = Inr y)"
  by (auto simp: res_bind_def split: sum.splits)

lemma res_bind_Inl_iff:
  "res_bind r f = Inl e \<longleftrightarrow> r = Inl e \<or> (\<exists>x. r = Inr x \<and> f x = Inl e)"
  by (auto simp: res_bind_def split: sum.splits)

text \<open>The outcome of code that may panic (index out of range, shift overflow).\<close>

datatype 'a outcome = Done (the_done: 'a) | Panic

section \<open>Constant-time booleans: \<open>subtle::Choice\<close>\<close>

datatype choice = Choice (unwrap_u8: byte)

definition choice_of :: "bool \<Rightarrow> choice" where
  "choice_of b = Choice (of_bool b)"

definition choice_and :: "choice \<Rightarrow> choice \<Rightarrow> choice" where
  "choice_and a b = Choice (unwrap_u8 a AND unwrap_u8 b)"

definition is_true :: "choice \<Rightarrow> bool" where
  "is_true c \<longleftrightarrow> unwrap_u8 c = 1"

definition choice_wf :: "choice \<Rightarrow> bool" where
  "choice_wf c \<longleftrightarrow> unwrap_u8 c = 0 \<or> unwrap_u8 c = 1"

text \<open>\<open>ct_eq\<close> on byte slices: 0 when the lengths or any byte differ.\<close>

definition ct_eq :: "bytes \<Rightarrow> bytes \<Rightarrow> choice" where
  "ct_eq xs ys = choice_of (xs = ys)"

lemma is_true_choice_of [simp]: "is_true (choice_of b) \<longleftrightarrow> b"
  by (simp add: is_true_def choice_of_def)

lemma is_true_Choice_0 [simp]: "\<not> is_true (Choice 0)"
  by (simp add: is_true_def)

lemma choice_of_eq_iff [simp]: "choice_of a = choice_of b \<longleftrightarrow> a = b"
  by (auto simp: choice_of_def)

lemma choice_wf_choice_of [simp]: "choice_wf (choice_of b)"
  by (simp add: choice_wf_def choice_of_def)

lemma choice_wf_iff: "choice_wf c \<longleftrightarrow> (\<exists>b. c = choice_of b)"
proof
  assume "choice_wf c"
  then have "c = choice_of (unwrap_u8 c = 1)"
    by (cases c) (auto simp: choice_wf_def choice_of_def)
  then show "\<exists>b. c = choice_of b" ..
qed auto

lemma choice_and_of [simp]:
  "choice_and (choice_of a) (choice_of b) = choice_of (a \<and> b)"
  by (simp add: choice_and_def choice_of_def)

lemma is_true_and_wf:
  "choice_wf a \<Longrightarrow> choice_wf b \<Longrightarrow> is_true (choice_and a b) \<longleftrightarrow> is_true a \<and> is_true b"
  by (auto simp: choice_wf_iff)

lemma choice_wf_and: "choice_wf a \<Longrightarrow> choice_wf b \<Longrightarrow> choice_wf (choice_and a b)"
  by (auto simp: choice_wf_iff)

lemma Choice_0: "Choice 0 = choice_of False"
  by (simp add: choice_of_def)

lemma Choice_1: "Choice 1 = choice_of True"
  by (simp add: choice_of_def)

text \<open>The loop \<open>ok &= \<dots>\<close> over a list: the conjunction of all checks, without early exit.\<close>

lemma fold_choice_and:
  "fold (\<lambda>x ok. choice_and ok (choice_of (P x))) xs (choice_of b) = choice_of (b \<and> list_all P xs)"
  by (induction xs arbitrary: b) (auto simp: conj_ac)

lemma is_true_ct_eq [simp]: "is_true (ct_eq xs ys) \<longleftrightarrow> xs = ys"
  by (simp add: ct_eq_def)

lemma choice_wf_ct_eq [simp]: "choice_wf (ct_eq xs ys)"
  by (simp add: ct_eq_def)

section \<open>Lists\<close>

lemma append_eq_len_iff:
  "length xs = length xs' \<Longrightarrow> xs @ ys = xs' @ ys' \<longleftrightarrow> xs = xs' \<and> ys = ys'"
  by simp

lemma concat_map_inj:
  assumes "\<And>x. length (f x) = n" and "0 < n" and "inj f"
  shows "concat (map f xs) = concat (map f ys) \<longleftrightarrow> xs = ys"
proof
  assume "concat (map f xs) = concat (map f ys)"
  then show "xs = ys"
  proof (induction xs arbitrary: ys)
    case Nil
    with assms(1,2) show ?case
      by (cases ys) (metis list.simps(8) concat.simps(1), force)
  next
    case (Cons x xs)
    then obtain y ys' where ys: "ys = y # ys'"
      using assms(1,2) by (cases ys) (metis append_is_Nil_conv concat.simps length_greater_0_conv list.simps(8,9))
    with Cons.prems have "f x @ concat (map f xs) = f y @ concat (map f ys')" by simp
    with assms(1) have "f x = f y" and "concat (map f xs) = concat (map f ys')"
      by (simp_all add: append_eq_len_iff)
    with Cons.IH assms(3) ys show ?case by (simp add: inj_eq)
  qed
qed simp

lemma list_update_map_nth:
  "xs[i := x] = map (\<lambda>j. if j = i then x else xs ! j) [0..<length xs]"
  by (rule nth_equalityI) (auto simp: nth_list_update)

text \<open>A loop that updates a list position by position is a map.\<close>

lemma fold_pointwise:
  assumes "n \<le> length xs"
  shows "fold (\<lambda>j xs. xs[j := f j (xs ! j)]) [0..<n] xs =
    map (\<lambda>j. if j < n then f j (xs ! j) else xs ! j) [0..<length xs]"
  using assms
proof (induction n)
  case 0
  show ?case by (simp add: map_nth)
next
  case (Suc n)
  then show ?case
    by (simp add: list_update_map_nth less_Suc_eq cong: map_cong)
qed

lemma fold_pointwise_all:
  assumes "length xs = n"
  shows "fold (\<lambda>j xs. xs[j := f j (xs ! j)]) [0..<n] xs = map (\<lambda>j. f j (xs ! j)) [0..<n]"
  using assms by (simp add: fold_pointwise)

section \<open>Prefix codes\<close>

text \<open>
  The interface of an encoding that can be read off the front of a byte string: no
  encoding of an admissible value is a prefix of the encoding of another one. Length
  framing, fixed-width encodings and the bytecode are such codes. Whatever is hashed as
  a sequence of them is uniquely decodable.
\<close>

locale prefix_code =
  fixes enc :: "'a \<Rightarrow> bytes" and ok :: "'a \<Rightarrow> bool"
  assumes enc_prefix: "ok a \<Longrightarrow> ok b \<Longrightarrow> enc a @ xs = enc b @ ys \<Longrightarrow> a = b"
    and enc_nonempty: "enc a \<noteq> []"
begin

lemma enc_inj: "ok a \<Longrightarrow> ok b \<Longrightarrow> enc a = enc b \<Longrightarrow> a = b"
  using enc_prefix [of a b "[]" "[]"] by simp

lemma enc_split: "ok a \<Longrightarrow> ok b \<Longrightarrow> enc a @ xs = enc b @ ys \<Longrightarrow> a = b \<and> xs = ys"
  using enc_prefix by blast

lemma enc_list_inj:
  assumes "list_all ok as" and "list_all ok bs" and "concat (map enc as) = concat (map enc bs)"
  shows "as = bs"
  using assms
proof (induction as arbitrary: bs)
  case Nil
  then show ?case by (cases bs) (simp_all add: enc_nonempty)
next
  case (Cons a as)
  from Cons.prems obtain b bs' where bs: "bs = b # bs'" by (cases bs) (simp_all add: enc_nonempty)
  with Cons.prems have "a = b \<and> concat (map enc as) = concat (map enc bs')"
    by (intro enc_split) simp_all
  with Cons.IH [of bs'] Cons.prems bs show ?case by simp
qed

lemma enc_list_split:
  assumes "list_all ok as" and "list_all ok bs" and "length as = length bs"
    and "concat (map enc as) @ xs = concat (map enc bs) @ ys"
  shows "as = bs \<and> xs = ys"
  using assms
proof (induction as arbitrary: bs)
  case (Cons a as)
  from Cons.prems obtain b bs' where bs: "bs = b # bs'" by (cases bs) simp_all
  with Cons.prems have "a = b \<and> concat (map enc as) @ xs = concat (map enc bs') @ ys"
    by (intro enc_split) simp_all
  with Cons.IH [of bs'] Cons.prems bs show ?case by simp
qed simp

end

end
