(* ===== verification/Gf256.thy ===== *)
theory Gf256
  imports Prelude
begin

unbundle bit_operations_syntax

text \<open>
  The byte field of \<^verbatim>\<open>src/src/shamir.rs\<close>: the constant-time multiplication
  \<open>gf_mul\<close> (eight masked shift-and-add rounds on 16-bit words), the inverse \<open>gf_inv\<close>
  (square-and-multiply to the power 254) and \<open>gf_eval\<close>. The lemmas show that the
  masked loop is carry-less multiplication modulo the polynomial 0x11B and that the
  256 bytes with exclusive or and \<open>gf_mul\<close> are a field; the type \<open>gf\<close> below is an
  instance of the library's class \<open>field\<close>, so its algebra applies to the code.
\<close>

section \<open>The operations\<close>

definition POLY :: u16 where
  "POLY = 0x11B"

text \<open>One round of the loop of \<open>gf_mul\<close>; the state is \<open>(result, a)\<close>.\<close>

definition gf_mul_round :: "u16 \<Rightarrow> nat \<Rightarrow> u16 \<times> u16 \<Rightarrow> u16 \<times> u16" where
  "gf_mul_round b i = (\<lambda>(result, a).
     let mask = 0 - (drop_bit i b AND 1);
         result' = result XOR (a AND mask);
         hi_bit = drop_bit 7 a AND 1;
         reduce_mask = 0 - hi_bit
     in (result', push_bit 1 a XOR (POLY AND reduce_mask)))"

definition gf_mul :: "byte \<Rightarrow> byte \<Rightarrow> byte" where
  "gf_mul a b = ucast (fst (fold (gf_mul_round (ucast b)) [0..<8] (0, ucast a)))"

text \<open>One round of the loop of \<open>gf_inv\<close>; the state is \<open>(acc, base)\<close>.\<close>

definition gf_inv_round :: "nat \<Rightarrow> byte \<times> byte \<Rightarrow> byte \<times> byte" where
  "gf_inv_round i = (\<lambda>(acc, base).
     let b = drop_bit i (254 :: byte) AND 1;
         product = gf_mul acc base;
         mask = 0 - b
     in ((acc AND NOT mask) OR (product AND mask), gf_mul base base))"

definition gf_inv :: "byte \<Rightarrow> byte" where
  "gf_inv a = fst (fold gf_inv_round [0..<8] (1, a))"

text \<open>The loop of \<open>gf_eval\<close>; the state is \<open>(result, x_pow)\<close>.\<close>

definition gf_eval :: "bytes \<Rightarrow> byte \<Rightarrow> byte" where
  "gf_eval coeffs x =
     fst (fold (\<lambda>c (result, x_pow). (result XOR gf_mul c x_pow, gf_mul x_pow x)) coeffs (0, 1))"

section \<open>Multiplication by \<open>x\<close> and the reference product\<close>

definition xtime :: "byte \<Rightarrow> byte" where
  "xtime a = push_bit 1 a XOR (if bit a 7 then 0x1B else 0)"

lemma bit_27_byte: "bit (27 :: byte) n \<longleftrightarrow> n \<in> {0, 1, 3, 4}"
proof (cases "n < 8")
  case True
  then have "n \<in> {0,1,2,3,4,5,6,7}" by auto
  then show ?thesis by auto
next
  case False
  then show ?thesis using bit_imp_le_length [of "27 :: byte" n] by auto
qed

lemma xtime_xor: "xtime (a XOR b) = xtime a XOR xtime b"
  by (rule bit_word_eqI) (auto simp: xtime_def bit_simps)

lemma xtime_0 [simp]: "xtime 0 = 0"
  by (simp add: xtime_def)

text \<open>The mask \<open>0u16.wrapping_sub(bit)\<close> selects all or nothing.\<close>

lemma and_bit_mask: "(a :: 'a::len word) AND (0 - (drop_bit i b AND 1)) = (if bit b i then a else 0)"
proof -
  have "drop_bit i b AND 1 = of_bool (bit b i)"
    by (simp add: and_one_eq mod_2_eq_odd bit_iff_odd_drop_bit)
  then show ?thesis by simp
qed

lemma gf_mul_round_alt:
  "gf_mul_round b i (r, a) =
     (r XOR (if bit b i then a else 0), push_bit 1 a XOR (if bit a 7 then POLY else 0))"
  by (simp only: gf_mul_round_def and_bit_mask Let_def prod.case)

lemma xtime_u16:
  "push_bit 1 (ucast a) XOR (if bit (ucast a :: u16) 7 then POLY else 0) = (ucast (xtime a) :: u16)"
proof (rule bit_word_eqI)
  fix n assume "n < LENGTH(16)"
  then have n: "n \<in> {0,1,2,3,4,5,6,7,8,9,10,11,12,13,14,15}"
    by (simp; presburger)
  have high: "\<not> bit a m" if "8 \<le> m" for m
    using that bit_imp_le_length [of a m] by auto
  show "bit (push_bit 1 (ucast a) XOR (if bit (ucast a :: u16) 7 then POLY else 0)) n =
      bit (ucast (xtime a) :: u16) n"
    using n by (elim insertE) (auto simp: xtime_def POLY_def bit_simps high simp del: push_bit_Suc)
qed

text \<open>The product as the exclusive or of shifted copies of \<open>a\<close>, one per bit of \<open>b\<close>.\<close>

primrec gf_ref :: "nat \<Rightarrow> byte \<Rightarrow> byte \<Rightarrow> byte" where
  "gf_ref 0 a b = 0"
| "gf_ref (Suc n) a b = gf_ref n a b XOR (if bit b n then (xtime ^^ n) a else 0)"

lemma gf_mul_fold:
  "n \<le> 8 \<Longrightarrow> fold (gf_mul_round (ucast b)) [0..<n] (0, ucast a) =
     (ucast (gf_ref n a b), ucast ((xtime ^^ n) a))"
proof (induction n)
  case 0
  then show ?case by simp
next
  case (Suc n)
  have "bit (ucast b :: u16) n = bit b n"
    using Suc.prems by (simp add: bit_simps)
  with Suc show ?case
    by (simp add: gf_mul_round_alt xtime_u16 [unfolded One_nat_def] unsigned_xor_eq
             del: push_bit_Suc)
qed

lemma gf_mul_eq_ref: "gf_mul a b = gf_ref 8 a b"
proof -
  have "ucast (ucast x :: u16) = x" for x :: byte
    by (rule bit_word_eqI) (simp add: bit_simps)
  then show ?thesis by (simp add: gf_mul_def gf_mul_fold)
qed

section \<open>Bilinearity, commutativity, associativity\<close>

lemma funpow_xtime_xor: "(xtime ^^ n) (a XOR b) = (xtime ^^ n) a XOR (xtime ^^ n) b"
  by (induction n) (simp_all add: xtime_xor)

lemma funpow_xtime_0 [simp]: "(xtime ^^ n) 0 = 0"
  by (induction n) simp_all

lemma gf_ref_xor_left: "gf_ref n (a XOR a') b = gf_ref n a b XOR gf_ref n a' b"
  by (induction n) (auto simp: funpow_xtime_xor ac_simps)

lemma gf_ref_xor_right: "gf_ref n a (b XOR b') = gf_ref n a b XOR gf_ref n a b'"
  by (induction n) (auto simp: bit_xor_iff ac_simps xor.left_commute)

lemma gf_ref_xtime: "gf_ref n (xtime a) b = xtime (gf_ref n a b)"
  by (induction n) (auto simp: xtime_xor funpow_swap1)

lemma gf_mul_xor_left: "gf_mul (a XOR a') b = gf_mul a b XOR gf_mul a' b"
  by (simp add: gf_mul_eq_ref gf_ref_xor_left)

lemma gf_mul_xor_right: "gf_mul a (b XOR b') = gf_mul a b XOR gf_mul a b'"
  by (simp add: gf_mul_eq_ref gf_ref_xor_right)

lemma gf_mul_xtime: "gf_mul ((xtime ^^ n) a) b = (xtime ^^ n) (gf_mul a b)"
  by (induction n arbitrary: a) (simp_all add: gf_mul_eq_ref gf_ref_xtime)

lemma gf_mul_zero [simp]: "gf_mul 0 b = 0" "gf_mul a 0 = 0"
  using gf_mul_xor_left [of 0 0 b] gf_mul_xor_right [of a 0 0] by simp_all

text \<open>Every byte is an exclusive or of powers of two.\<close>

lemma byte_xor_induct [case_names zero power xor]:
  fixes P :: "byte \<Rightarrow> bool"
  assumes "P 0" and "\<And>i. i < 8 \<Longrightarrow> P (2 ^ i)"
    and "\<And>a b. P a \<Longrightarrow> P b \<Longrightarrow> P (a XOR b)"
  shows "P a"
proof -
  have "P (take_bit n a)" if "n \<le> 8" for n
    using that
  proof (induction n)
    case 0
    with assms(1) show ?case by simp
  next
    case (Suc n)
    have "take_bit (Suc n) a = take_bit n a XOR (if bit a n then 2 ^ n else 0)"
      by (rule bit_word_eqI) (auto simp: bit_simps less_Suc_eq)
    with Suc assms show ?case by simp
  qed
  from this [of 8] show ?thesis
    using take_bit_word_eq_self [of 8 a] by simp
qed

lemma bit_power_of_two_byte: "i < 8 \<Longrightarrow> bit ((2 :: byte) ^ i) n \<longleftrightarrow> n = i"
  by (auto simp: bit_simps)

lemma gf_ref_power: "i < 8 \<Longrightarrow> gf_ref n a (2 ^ i) = (if i < n then (xtime ^^ i) a else 0)"
  by (induction n) (auto simp: bit_power_of_two_byte)

lemma gf_mul_power: "i < 8 \<Longrightarrow> gf_mul a (2 ^ i) = (xtime ^^ i) a"
  by (simp add: gf_mul_eq_ref gf_ref_power)

lemma xtime_power: "i < 8 \<Longrightarrow> (xtime ^^ i) 1 = (2 :: byte) ^ i"
proof (induction i)
  case (Suc i)
  then have "bit ((2 :: byte) ^ i) 7 \<longleftrightarrow> False"
    by (simp add: bit_power_of_two_byte)
  with Suc show ?case by (simp add: xtime_def)
qed simp

lemma gf_mul_1_right [simp]: "gf_mul a 1 = a"
  using gf_mul_power [of 0 a] by simp

lemma gf_mul_commute: "gf_mul a b = gf_mul b a"
proof (induction b rule: byte_xor_induct)
  case (power j)
  show ?case
  proof (induction a rule: byte_xor_induct)
    case (power i)
    have "gf_mul (2 ^ i) (2 ^ j) = (xtime ^^ j) ((xtime ^^ i) 1)"
      using \<open>i < 8\<close> \<open>j < 8\<close> by (simp add: gf_mul_power xtime_power)
    also have "\<dots> = (xtime ^^ i) ((xtime ^^ j) 1)"
      by (metis add.commute comp_apply funpow_add)
    also have "\<dots> = gf_mul (2 ^ j) (2 ^ i)"
      using \<open>i < 8\<close> \<open>j < 8\<close> by (simp add: gf_mul_power xtime_power)
    finally show ?case .
  qed (simp_all add: gf_mul_xor_left gf_mul_xor_right)
qed (simp_all add: gf_mul_xor_left gf_mul_xor_right)

lemma gf_mul_1_left [simp]: "gf_mul 1 a = a"
  by (simp add: gf_mul_commute [of 1])

lemma gf_mul_assoc: "gf_mul (gf_mul a b) c = gf_mul a (gf_mul b c)"
proof (induction c rule: byte_xor_induct)
  case (power i)
  then show ?case
    by (simp add: gf_mul_power gf_mul_commute [of a] gf_mul_xtime)
qed (simp_all add: gf_mul_xor_right)

section \<open>The inverse\<close>

primrec gf_pow :: "byte \<Rightarrow> nat \<Rightarrow> byte" where
  "gf_pow a 0 = 1"
| "gf_pow a (Suc n) = gf_mul a (gf_pow a n)"

lemma gf_pow_add: "gf_pow a (m + n) = gf_mul (gf_pow a m) (gf_pow a n)"
  by (induction m) (simp_all add: gf_mul_assoc)

lemma gf_pow_mult: "gf_pow a (m * n) = gf_pow (gf_pow a m) n"
  by (induction n) (simp_all add: gf_pow_add)

lemma gf_inv_round_alt:
  "gf_inv_round i (acc, base) =
     (if bit (254 :: byte) i then gf_mul acc base else acc, gf_mul base base)"
proof -
  have "drop_bit i (254 :: byte) AND 1 = of_bool (bit (254 :: byte) i)"
    by (simp add: and_one_eq mod_2_eq_odd bit_iff_odd_drop_bit)
  then show ?thesis by (simp add: gf_inv_round_def)
qed

lemma bit_254_byte: "n < 8 \<Longrightarrow> bit (254 :: byte) n \<longleftrightarrow> 0 < n"
proof -
  assume "n < 8"
  then have "n \<in> {0,1,2,3,4,5,6,7}" by auto
  then show ?thesis by auto
qed

lemma gf_inv_fold:
  "n \<le> 8 \<Longrightarrow> fold gf_inv_round [0..<n] (1, a) = (gf_pow a (2 ^ n - 2), gf_pow a (2 ^ n))"
proof (induction n)
  case (Suc n)
  have "gf_pow a (2 ^ Suc n) = gf_mul (gf_pow a (2 ^ n)) (gf_pow a (2 ^ n))"
    by (simp add: mult_2 gf_pow_add)
  moreover have "0 < n \<Longrightarrow> gf_pow a (2 ^ Suc n - 2) = gf_mul (gf_pow a (2 ^ n - 2)) (gf_pow a (2 ^ n))"
    by (cases n) (simp_all flip: gf_pow_add)
  moreover have "bit (254 :: byte) n \<longleftrightarrow> 0 < n"
    using Suc.prems by (intro bit_254_byte) simp
  ultimately show ?case
    using Suc by (cases "n = 0") (simp_all add: gf_inv_round_alt)
qed simp

lemma gf_inv_pow: "gf_inv a = gf_pow a 254"
  by (simp add: gf_inv_def gf_inv_fold)

text \<open>Squaring is linear, so \<open>a\<^sup>2\<^sup>5\<^sup>6 = a\<close> follows from the eight powers of two.\<close>

definition gf_sq :: "byte \<Rightarrow> byte" where
  "gf_sq a = gf_mul a a"

lemma gf_sq_xor: "gf_sq (a XOR b) = gf_sq a XOR gf_sq b"
proof -
  have "gf_sq (a XOR b) = gf_sq a XOR gf_sq b XOR (gf_mul a b XOR gf_mul b a)"
    by (simp add: gf_sq_def gf_mul_xor_left gf_mul_xor_right ac_simps)
  also have "gf_mul b a = gf_mul a b" by (rule gf_mul_commute)
  finally show ?thesis by simp
qed

definition gf_frob :: "byte \<Rightarrow> byte" where
  "gf_frob a = gf_sq (gf_sq (gf_sq (gf_sq (gf_sq (gf_sq (gf_sq (gf_sq a)))))))"

lemma gf_frob_pow: "gf_frob a = gf_pow a 256"
proof -
  have sq: "gf_sq (gf_pow a n) = gf_pow a (2 * n)" for n
    by (simp add: gf_sq_def mult_2 gf_pow_add)
  have "gf_frob (gf_pow a 1) = gf_pow a 256"
    by (simp add: gf_frob_def sq del: gf_pow.simps One_nat_def)
  then show ?thesis by simp
qed

lemma gf_frob_xor: "gf_frob (a XOR b) = gf_frob a XOR gf_frob b"
  by (simp add: gf_frob_def gf_sq_xor)

lemmas gf_mul_eval = gf_mul_def gf_mul_round_alt POLY_def upt_rec

definition frob_fixes :: "nat \<Rightarrow> bool" where
  "frob_fixes i \<longleftrightarrow> gf_frob (2 ^ i) = 2 ^ i"

lemma gf_frob_basis: "list_all frob_fixes [0,1,2,3,4,5,6,7]"
  by (simp add: frob_fixes_def gf_frob_def gf_sq_def gf_mul_eval)

lemma gf_frob_0 [simp]: "gf_frob 0 = 0"
  using gf_frob_xor [of 0 0] by simp

lemma gf_frob_id: "gf_frob a = a"
proof (induction a rule: byte_xor_induct)
  case (power i)
  then have "i \<in> set [0,1,2,3,4,5,6,7]" by auto
  with gf_frob_basis have "frob_fixes i" by (metis list_all_iff)
  then show ?case by (simp add: frob_fixes_def)
qed (simp_all add: gf_frob_xor)

text \<open>
  The only idempotents are 0 and 1: \<open>gf_sq e = e\<close> is a linear system over the bits of
  \<open>e\<close>, with the squares of the eight powers of two as its columns.
\<close>

lemma byte_bits:
  "e = (if bit e 0 then 1 else 0) XOR (if bit e 1 then 2 else 0) XOR (if bit e 2 then 4 else 0) XOR
       (if bit e 3 then 8 else 0) XOR (if bit e 4 then 16 else 0) XOR (if bit e 5 then 32 else 0) XOR
       (if bit e 6 then 64 else 0) XOR (if bit e 7 then 128 else (0 :: byte))"
proof (rule bit_word_eqI)
  fix n assume "n < LENGTH(8)"
  then have "n \<in> {0,1,2,3,4,5,6,7}" by auto
  then show "bit e n = bit ((if bit e 0 then 1 else 0) XOR (if bit e 1 then 2 else 0) XOR
       (if bit e 2 then 4 else 0) XOR (if bit e 3 then 8 else 0) XOR (if bit e 4 then 16 else 0) XOR
       (if bit e 5 then 32 else 0) XOR (if bit e 6 then 64 else 0) XOR
       (if bit e 7 then 128 else (0 :: byte))) n"
    by (elim insertE) (simp_all add: bit_xor_iff)
qed

lemma gf_sq_values:
  "gf_sq 0 = 0" "gf_sq 1 = 1" "gf_sq 2 = 4" "gf_sq 4 = 16" "gf_sq 8 = 64" "gf_sq 16 = 0x1B"
  "gf_sq 32 = 0x6C" "gf_sq 64 = 0xAB" "gf_sq 128 = 0x9A"
  by (simp_all add: gf_sq_def gf_mul_eval)

lemma gf_sq_bits:
  "gf_sq e = (if bit e 0 then 1 else 0) XOR (if bit e 1 then 4 else 0) XOR (if bit e 2 then 16 else 0) XOR
       (if bit e 3 then 64 else 0) XOR (if bit e 4 then 0x1B else 0) XOR (if bit e 5 then 0x6C else 0) XOR
       (if bit e 6 then 0xAB else 0) XOR (if bit e 7 then 0x9A else 0)"
  by (subst byte_bits [of e]) (simp only: gf_sq_xor if_distrib [of gf_sq] gf_sq_values)

lemma gf_idempotent: assumes "gf_mul e e = e" shows "e = 0 \<or> e = 1"
proof -
  have eq: "bit e n = bit (gf_sq e) n" for n
    using assms by (simp add: gf_sq_def)
  have "\<not> bit e 1 \<and> \<not> bit e 2 \<and> \<not> bit e 3 \<and> \<not> bit e 4 \<and> \<not> bit e 5 \<and> \<not> bit e 6 \<and> \<not> bit e 7"
    using eq [of 0] eq [of 1] eq [of 2] eq [of 3] eq [of 4] eq [of 5] eq [of 6] eq [of 7]
    unfolding gf_sq_bits
    by (simp add: bit_xor_iff split: if_splits)
  then have "e = (if bit e 0 then 1 else 0)"
    by (subst byte_bits) simp
  then show ?thesis by metis
qed

lemma gf_pow_255: assumes "a \<noteq> 0" shows "gf_pow a 255 = 1"
proof -
  have a: "gf_mul a (gf_pow a 255) = a"
  proof -
    have "gf_mul a (gf_pow a 255) = gf_pow a (Suc 255)" by (simp only: gf_pow.simps)
    then show ?thesis using gf_frob_id [of a] by (simp add: gf_frob_pow)
  qed
  have p: "gf_pow a 255 = gf_mul a (gf_pow a 254)"
    using gf_pow.simps(2) [of a 254] by simp
  have "gf_mul (gf_pow a 255) (gf_pow a 255) = gf_mul (gf_pow a 255) (gf_mul a (gf_pow a 254))"
    by (simp only: p)
  also have "\<dots> = gf_mul (gf_mul a (gf_pow a 255)) (gf_pow a 254)"
    by (simp only: gf_mul_assoc [symmetric] gf_mul_commute [of "gf_pow a 255" a])
  also have "\<dots> = gf_pow a 255"
    by (simp only: a) (simp only: p)
  finally have "gf_pow a 255 = 0 \<or> gf_pow a 255 = 1"
    by (rule gf_idempotent)
  with a assms show ?thesis by auto
qed

lemma gf_mul_inv: "a \<noteq> 0 \<Longrightarrow> gf_mul a (gf_inv a) = 1"
  using gf_pow_255 [of a] gf_pow.simps(2) [of a 254] by (simp add: gf_inv_pow)

lemma gf_inv_0 [simp]: "gf_inv 0 = 0"
  using gf_pow.simps(2) [of 0 253] by (simp add: gf_inv_pow)

section \<open>The field\<close>

typedef gf = "UNIV :: byte set"
  morphisms gf_byte GF ..

setup_lifting type_definition_gf

instantiation gf :: field
begin

lift_definition zero_gf :: gf is 0 .
lift_definition one_gf :: gf is 1 .
lift_definition plus_gf :: "gf \<Rightarrow> gf \<Rightarrow> gf" is "(XOR)" .
lift_definition minus_gf :: "gf \<Rightarrow> gf \<Rightarrow> gf" is "(XOR)" .
lift_definition uminus_gf :: "gf \<Rightarrow> gf" is "\<lambda>a. a" .
lift_definition times_gf :: "gf \<Rightarrow> gf \<Rightarrow> gf" is gf_mul .
lift_definition inverse_gf :: "gf \<Rightarrow> gf" is gf_inv .
lift_definition divide_gf :: "gf \<Rightarrow> gf \<Rightarrow> gf" is "\<lambda>a b. gf_mul a (gf_inv b)" .

instance
proof
  fix a b c :: gf
  show "a + b + c = a + (b + c)" by transfer (simp add: xor.assoc)
  show "a + b = b + a" by transfer (simp add: xor.commute)
  show "0 + a = a" by transfer simp
  show "- a + a = 0" by transfer simp
  show "a - b = a + - b" by transfer simp
  show "a * b * c = a * (b * c)" by transfer (rule gf_mul_assoc)
  show "a * b = b * a" by transfer (rule gf_mul_commute)
  show "1 * a = a" by transfer simp
  show "(a + b) * c = a * c + b * c" by transfer (rule gf_mul_xor_left)
  show "(0 :: gf) \<noteq> 1" by transfer simp
  show "a \<noteq> 0 \<Longrightarrow> inverse a * a = 1" by transfer (simp add: gf_mul_inv gf_mul_commute)
  show "a div b = a * inverse b" by transfer simp
  show "inverse (0 :: gf) = 0" by transfer simp
qed

end

lemmas gf_byte_simps =
  zero_gf.rep_eq one_gf.rep_eq plus_gf.rep_eq minus_gf.rep_eq times_gf.rep_eq inverse_gf.rep_eq

lemma gf_byte_GF [simp]: "gf_byte (GF b) = b"
  by (simp add: GF_inverse)

lemma GF_gf_byte [simp]: "GF (gf_byte x) = x"
  by (simp add: gf_byte_inverse)

lemma GF_ops:
  "GF 0 = 0" "GF 1 = 1" "GF (a XOR b) = GF a + GF b" "GF (gf_mul a b) = GF a * GF b"
  "GF (gf_inv a) = inverse (GF a)"
  by (simp_all flip: gf_byte_inject add: gf_byte_simps)

lemma GF_eq_iff [simp]: "GF a = GF b \<longleftrightarrow> a = b"
  by (simp add: GF_inject)

lemma gf_minus_plus: "(a :: gf) - b = a + b"
  by transfer simp

lemma GF_gf_eval:
  "GF (gf_eval coeffs x) = (\<Sum>i<length coeffs. GF (coeffs ! i) * GF x ^ i)"
proof -
  have "GF (fst (fold (\<lambda>c (result, x_pow). (result XOR gf_mul c x_pow, gf_mul x_pow x)) cs (r, p))) =
      GF r + (\<Sum>i<length cs. GF (cs ! i) * (GF p * GF x ^ i))" for cs r p
  proof (induction cs arbitrary: r p)
    case (Cons c cs)
    show ?case
      by (simp add: Cons GF_ops sum.lessThan_Suc_shift algebra_simps del: sum.lessThan_Suc)
  qed simp
  from this [of coeffs 0 1] show ?thesis
    by (simp add: gf_eval_def GF_ops)
qed

end
