(* ===== verification/Lagrange.thy ===== *)
theory Lagrange
  imports Main
begin

text \<open>
  Lagrange interpolation at zero over an arbitrary field, on a finite set of nodes:
  the weights \<open>\<Prod>y. y / (y - x)\<close> of \<open>reconstruct\<close> in \<^verbatim>\<open>src/src/shamir.rs\<close> recover
  the constant term of every polynomial with fewer coefficients than nodes.
\<close>

definition basis0 :: "'a::field set \<Rightarrow> 'a \<Rightarrow> 'a" where
  "basis0 X x = (\<Prod>y\<in>X - {x}. y / (y - x))"

definition peval :: "'a::comm_ring_1 list \<Rightarrow> 'a \<Rightarrow> 'a" where
  "peval cs x = (\<Sum>i<length cs. cs ! i * x ^ i)"

lemma peval_Nil [simp]: "peval [] x = 0"
  by (simp add: peval_def)

lemma peval_Cons: "peval (c # cs) x = c + x * peval cs x"
  by (simp add: peval_def sum.lessThan_Suc_shift sum_distrib_left ac_simps del: sum.lessThan_Suc)

text \<open>Synthetic division: the quotient has one coefficient fewer.\<close>

lemma peval_factor:
  "\<exists>qs. length qs = length cs - 1 \<and> (\<forall>x. peval cs x = peval cs z + (x - z) * peval qs x)"
proof (induction cs)
  case Nil
  then show ?case by simp
next
  case (Cons c cs)
  show ?case
  proof (cases cs)
    case Nil
    then show ?thesis by (simp add: peval_Cons)
  next
    case (Cons d ds)
    from Cons.IH obtain qs where qs: "length qs = length cs - 1"
      "\<And>x. peval cs x = peval cs z + (x - z) * peval qs x" by blast
    have "peval (c # cs) x = peval (c # cs) z + (x - z) * peval (peval cs z # qs) x" for x
      unfolding peval_Cons qs(2) [of x] by (simp add: algebra_simps)
    moreover have "length (peval cs z # qs) = length (c # cs) - 1"
      using qs(1) Cons by simp
    ultimately show ?thesis by blast
  qed
qed

lemma basis0_insert:
  assumes "finite X" and "z \<notin> X" and "x \<in> X"
  shows "basis0 (insert z X) x = z / (z - x) * basis0 X x"
proof -
  have "insert z X - {x} = insert z (X - {x})" using assms by auto
  with assms show ?thesis by (simp add: basis0_def)
qed

lemma neville_step:
  fixes p q :: "'a::field"
  shows "p \<noteq> 0 \<Longrightarrow> q \<noteq> 0 \<Longrightarrow>
     (q - p) * (z / p * (w / q * B)) = w * (z / p * B) - z * (w / q * B)"
  by (simp add: field_simps)

text \<open>Neville's recurrence: the weights of a set from those of the set without one of two points.\<close>

lemma neville_weights:
  assumes "X = insert z (insert w Y)" and "z \<noteq> w" and "z \<notin> Y" and "w \<notin> Y" and "finite Y"
  shows "(w - z) * basis0 X z = w * basis0 (insert z Y) z"
    and "(w - z) * basis0 X w = - z * basis0 (insert w Y) w"
    and "x \<in> Y \<Longrightarrow> (w - z) * basis0 X x = w * basis0 (insert z Y) x - z * basis0 (insert w Y) (x :: 'a::field)"
proof -
  have "X - {z} = insert w Y" "insert z Y - {z} = Y" "X - {w} = insert z Y" "insert w Y - {w} = Y"
    using assms by auto
  then show "(w - z) * basis0 X z = w * basis0 (insert z Y) z"
    and "(w - z) * basis0 X w = - z * basis0 (insert w Y) w"
    using assms by (simp_all add: basis0_def field_simps)
  assume x: "x \<in> Y"
  then have ne: "z - x \<noteq> 0" "w - x \<noteq> 0" using assms by auto
  have "basis0 X x = z / (z - x) * (w / (w - x) * basis0 Y x)"
    and "basis0 (insert z Y) x = z / (z - x) * basis0 Y x"
    and "basis0 (insert w Y) x = w / (w - x) * basis0 Y x"
    using x assms by (simp_all add: basis0_insert)
  moreover have "w - z = (w - x) - (z - x)" by simp
  ultimately show "(w - z) * basis0 X x = w * basis0 (insert z Y) x - z * basis0 (insert w Y) x"
    using neville_step [OF ne, of z w "basis0 Y x"] by (simp only:)
qed

text \<open>The weights sum to one.\<close>

lemma basis0_sum_one:
  assumes "finite X" and "X \<noteq> {}"
  shows "(\<Sum>x\<in>X. basis0 X x) = (1 :: 'a::field)"
  using assms
proof (induction "card X" arbitrary: X rule: less_induct)
  case less
  show ?case
  proof (cases "\<exists>z. X = {z}")
    case True
    then show ?thesis by (auto simp: basis0_def)
  next
    case False
    from less.prems obtain z where z: "z \<in> X" by blast
    with False obtain w where w: "w \<in> X" "w \<noteq> z" by blast
    define Y where "Y = X - {z, w}"
    have X: "X = insert z (insert w Y)" "z \<noteq> w" "z \<notin> Y" "w \<notin> Y" "finite Y"
      using z w less.prems by (auto simp: Y_def)
    have IHz: "(\<Sum>x\<in>insert z Y. basis0 (insert z Y) x) = 1"
      and IHw: "(\<Sum>x\<in>insert w Y. basis0 (insert w Y) x) = 1"
      by (rule less.hyps; use X in simp)+
    have "(w - z) * (\<Sum>x\<in>X. basis0 X x) =
        (w - z) * basis0 X z + (w - z) * basis0 X w + (\<Sum>x\<in>Y. (w - z) * basis0 X x)"
      using X by (simp add: algebra_simps sum_distrib_left)
    also have "\<dots> = w * basis0 (insert z Y) z + - z * basis0 (insert w Y) w +
        (\<Sum>x\<in>Y. w * basis0 (insert z Y) x - z * basis0 (insert w Y) x)"
      by (simp add: neville_weights [OF X] cong: sum.cong)
    also have "\<dots> = w * (\<Sum>x\<in>insert z Y. basis0 (insert z Y) x) -
        z * (\<Sum>x\<in>insert w Y. basis0 (insert w Y) x)"
      using X(3-5) by (simp add: sum_subtractf sum_distrib_left algebra_simps)
    also have "\<dots> = w - z" by (simp only: IHz IHw mult_1_right)
    finally show ?thesis using X(2) by simp
  qed
qed

theorem interpolation_at_zero:
  assumes "finite X" and "length cs \<le> card X" and "X \<noteq> {}"
  shows "(\<Sum>x\<in>X. peval cs x * basis0 X x) = peval cs (0 :: 'a::field)"
  using assms
proof (induction "card X" arbitrary: X cs)
  case 0
  then show ?case by simp
next
  case (Suc n)
  from Suc.prems obtain z where z: "z \<in> X" by blast
  define Y where "Y = X - {z}"
  have X: "X = insert z Y" "z \<notin> Y" "finite Y" using z Suc.prems by (auto simp: Y_def)
  obtain qs where qs: "length qs = length cs - 1"
      "\<And>x. peval cs x = peval cs z + (x - z) * peval qs x"
    using peval_factor [of cs z] by blast
  have IH: "(\<Sum>x\<in>Y. peval qs x * basis0 Y x) = peval qs 0"
  proof (cases "Y = {}")
    case True
    with Suc.prems qs X show ?thesis by simp
  next
    case False
    then show ?thesis
      using Suc X qs by (intro Suc.hyps) auto
  qed
  have step: "(x - z) * basis0 X x = - z * basis0 Y x" if "x \<in> Y" for x
  proof -
    have "z - x \<noteq> 0" using that X by auto
    then show ?thesis using that X by (simp add: basis0_insert field_simps)
  qed
  have "peval cs x * basis0 X x =
      peval cs z * basis0 X x + peval qs x * ((x - z) * basis0 X x)" for x
    by (subst qs(2)) (simp add: algebra_simps)
  then have "(\<Sum>x\<in>X. peval cs x * basis0 X x) =
      peval cs z * (\<Sum>x\<in>X. basis0 X x) + (\<Sum>x\<in>X. peval qs x * ((x - z) * basis0 X x))"
    by (simp add: sum.distrib sum_distrib_left)
  also have "(\<Sum>x\<in>X. peval qs x * ((x - z) * basis0 X x)) = (\<Sum>x\<in>Y. peval qs x * (- z * basis0 Y x))"
  proof -
    have "(\<Sum>x\<in>X. peval qs x * ((x - z) * basis0 X x)) = (\<Sum>x\<in>Y. peval qs x * ((x - z) * basis0 X x))"
      using X(2,3) by (subst X(1)) simp
    then show ?thesis by (simp add: step cong: sum.cong)
  qed
  also have "\<dots> = - z * peval qs 0"
    unfolding IH [symmetric] by (simp add: sum_distrib_left algebra_simps)
  finally show ?case
    using basis0_sum_one [of X] Suc.prems qs(2) [of 0] by simp
qed

end
