(* ===== verification/Shamir.thy ===== *)
theory Shamir
  imports Gf256 Lagrange
begin

unbundle bit_operations_syntax

text \<open>
  Secret sharing of \<^verbatim>\<open>src/src/shamir.rs\<close>: \<open>split\<close> and \<open>reconstruct\<close> over the byte
  field of theory \<open>Gf256\<close>. The operating system's random generator is a parameter:
  \<open>None\<close> when \<open>getrandom\<close> fails, otherwise the bytes it fills the buffer with,
  addressed by position. Indexing and slicing the fixed arrays panics out of range, so
  the outcome of \<open>split\<close> may be a panic.
\<close>

record share =
  share_index :: byte
  share_data :: bytes

text \<open>\<open>Drop for Share\<close>: the data is wiped, the index is not.\<close>

definition share_drop :: "share \<Rightarrow> share" where
  "share_drop s = s\<lparr>share_data := zeros (length (share_data s))\<rparr>"

text \<open>
  The coefficients for one byte: \<open>coeffs\<close> is an array of 32 bytes; its first entry is the
  secret byte, the loop over \<open>1..t\<close> copies random bytes from an array of \<open>64 * 32\<close>, and
  \<open>&coeffs[..t]\<close> is the slice that is evaluated.
\<close>

fun fill_coeffs :: "(nat \<Rightarrow> byte) \<Rightarrow> nat \<Rightarrow> nat list \<Rightarrow> bytes \<Rightarrow> bytes outcome" where
  "fill_coeffs rng byte_pos [] coeffs = Done coeffs"
| "fill_coeffs rng byte_pos (j # js) coeffs =
     (if byte_pos * 32 + j < 64 * 32 \<and> j < length coeffs
      then fill_coeffs rng byte_pos js (coeffs[j := rng (byte_pos * 32 + j)])
      else Panic)"

definition split_coeffs :: "(nat \<Rightarrow> byte) \<Rightarrow> nat \<Rightarrow> nat \<Rightarrow> byte \<Rightarrow> bytes outcome" where
  "split_coeffs rng t byte_pos secret_byte =
     (case fill_coeffs rng byte_pos [1..<t] ((zeros 32)[0 := secret_byte]) of
        Panic \<Rightarrow> Panic
      | Done coeffs \<Rightarrow> if t \<le> length coeffs then Done (take t coeffs) else Panic)"

text \<open>The loop over the bytes of the secret, which fills that byte of every share.\<close>

fun split_loop :: "(nat \<Rightarrow> byte) \<Rightarrow> nat \<Rightarrow> bytes \<Rightarrow> nat list \<Rightarrow> share list \<Rightarrow> share list outcome" where
  "split_loop rng t secret [] shares = Done shares"
| "split_loop rng t secret (p # ps) shares =
     (case split_coeffs rng t p (secret ! p) of
        Panic \<Rightarrow> Panic
      | Done coeffs \<Rightarrow>
          split_loop rng t secret ps
            (map (\<lambda>s. s\<lparr>share_data := (share_data s)[p := gf_eval coeffs (share_index s)]\<rparr>) shares))"

definition split :: "(nat \<Rightarrow> byte) option \<Rightarrow> bytes \<Rightarrow> byte \<Rightarrow> byte \<Rightarrow> share list option outcome" where
  "split rng secret n t =
     (if n < 1 \<or> t < 2 \<or> n < t then Done None
      else case rng of
        None \<Rightarrow> Done None
      | Some rng_bytes \<Rightarrow>
          (let shares = map (\<lambda>i. \<lparr>share_index = word_of_nat i, share_data = zeros 64\<rparr>) [1..<Suc (unat n)]
           in case split_loop rng_bytes (unat t) secret [0..<64] shares of
                Panic \<Rightarrow> Panic
              | Done shares \<Rightarrow> Done (Some shares)))"

text \<open>The Lagrange weight of share \<open>i\<close>: the inner loop's \<open>(num, den)\<close>.\<close>

definition num_den :: "share list \<Rightarrow> nat \<Rightarrow> byte \<times> byte" where
  "num_den shares i =
     fold (\<lambda>j (num, den).
             if i = j then (num, den)
             else (gf_mul num (share_index (shares ! j)),
                   gf_mul den (share_index (shares ! i) XOR share_index (shares ! j))))
          [0..<length shares] (1, 1)"

text \<open>The loop over the shares for one byte position; \<open>None\<close> is the early return.\<close>

definition reconstruct_byte :: "share list \<Rightarrow> nat \<Rightarrow> byte option" where
  "reconstruct_byte shares byte_pos =
     fold (\<lambda>i acc. case acc of None \<Rightarrow> None | Some value \<Rightarrow>
             (let (num, den) = num_den shares i; den_inv = gf_inv den
              in if den_inv = 0 then None
                 else Some (value XOR gf_mul (share_data (shares ! i) ! byte_pos) (gf_mul num den_inv))))
          [0..<length shares] (Some 0)"

definition has_duplicate_index :: "share list \<Rightarrow> bool" where
  "has_duplicate_index shares \<longleftrightarrow>
     (\<exists>i<length shares. \<exists>j<length shares. i < j \<and> share_index (shares ! i) = share_index (shares ! j))"

definition reconstruct :: "share list \<Rightarrow> bytes option" where
  "reconstruct shares =
     (if shares = [] then None
      else if has_duplicate_index shares then None
      else those (map (reconstruct_byte shares) [0..<64]))"

section \<open>The reconstruction loop computes Lagrange interpolation\<close>

lemma has_duplicate_index_distinct:
  "\<not> has_duplicate_index shares \<longleftrightarrow> distinct (map share_index shares)"
proof -
  have "distinct (map share_index shares) \<longleftrightarrow>
      (\<forall>i<length shares. \<forall>j<length shares. i \<noteq> j \<longrightarrow> share_index (shares ! i) \<noteq> share_index (shares ! j))"
    by (simp add: distinct_conv_nth)
  also have "\<dots> \<longleftrightarrow> \<not> has_duplicate_index shares"
    unfolding has_duplicate_index_def by (metis linorder_neq_iff)
  finally show ?thesis by blast
qed

lemma num_den_fold:
  "fold (\<lambda>j (num, den). if i = j then (num, den) else (gf_mul num (f j), gf_mul den (g j))) js (a, b) =
     (fold (\<lambda>j num. if i = j then num else gf_mul num (f j)) js a,
      fold (\<lambda>j den. if i = j then den else gf_mul den (g j)) js b)"
  by (induction js arbitrary: a b) auto

lemma GF_fold_mul:
  "distinct js \<Longrightarrow> GF (fold (\<lambda>j acc. if i = j then acc else gf_mul acc (f j)) js a) =
     GF a * (\<Prod>j\<in>set js - {i}. GF (f j))"
proof (induction js arbitrary: a)
  case (Cons j js)
  show ?case
  proof (cases "i = j")
    case True
    with Cons.prems have "set (j # js) - {i} = set js - {i}" by auto
    with Cons True show ?thesis by simp
  next
    case False
    then have "set (j # js) - {i} = insert j (set js - {i})" by auto
    with Cons False show ?thesis by (simp add: GF_ops ac_simps)
  qed
qed simp

lemma GF_num_den:
  assumes "distinct (map share_index shares)" and "i < length shares"
  defines "X \<equiv> (\<lambda>s. GF (share_index s)) ` set shares"
    and "x \<equiv> GF (share_index (shares ! i))"
  shows "GF (fst (num_den shares i)) = \<Prod>(X - {x})"
    and "GF (snd (num_den shares i)) = (\<Prod>y\<in>X - {x}. y - x)"
proof -
  let ?n = "\<lambda>j. GF (share_index (shares ! j))"
  have inj: "inj_on ?n {..<length shares}"
    using assms(1) by (auto simp: inj_on_def distinct_conv_nth)
  have "?n ` ({..<length shares} - {i}) = ?n ` {..<length shares} - {?n i}"
    using inj assms(2) by (subst inj_on_image_set_diff [OF inj]) auto
  moreover have "?n ` {..<length shares} = X"
    unfolding X_def by (auto simp: set_conv_nth image_iff)
  ultimately have X: "?n ` ({..<length shares} - {i}) = X - {x}"
    by (simp add: x_def)
  have inj': "inj_on ?n ({..<length shares} - {i})"
    using inj by (rule inj_on_subset) auto
  show "GF (fst (num_den shares i)) = \<Prod>(X - {x})"
    by (simp add: num_den_def num_den_fold GF_fold_mul GF_ops atLeast0LessThan
          prod.reindex [OF inj', of "\<lambda>y. y", simplified comp_def] flip: X)
  show "GF (snd (num_den shares i)) = (\<Prod>y\<in>X - {x}. y - x)"
    by (simp add: num_den_def num_den_fold GF_fold_mul GF_ops atLeast0LessThan flip: X)
       (simp add: prod.reindex [OF inj'] x_def gf_minus_plus add.commute)
qed

lemma GF_weight:
  assumes "distinct (map share_index shares)" and "i < length shares"
  shows "GF (fst (num_den shares i)) * inverse (GF (snd (num_den shares i))) =
      basis0 ((\<lambda>s. GF (share_index s)) ` set shares) (GF (share_index (shares ! i)))"
  unfolding GF_num_den [OF assms] basis0_def
  by (simp add: divide_inverse prod.distrib flip: prod_inversef)

lemma den_inv_nonzero:
  assumes "distinct (map share_index shares)" and "i < length shares"
  shows "gf_inv (snd (num_den shares i)) \<noteq> 0"
proof -
  have "GF (snd (num_den shares i)) \<noteq> 0"
    unfolding GF_num_den [OF assms] by (auto simp: prod_zero_iff)
  then have "GF (gf_inv (snd (num_den shares i))) \<noteq> 0"
    by (simp add: GF_ops)
  then show ?thesis using GF_ops(1) by fastforce
qed

text \<open>With distinct indices the loop never returns early, and its value is the weighted sum.\<close>

lemma GF_reconstruct_byte:
  assumes "distinct (map share_index shares)"
  obtains v where "reconstruct_byte shares p = Some v"
    and "GF v = (\<Sum>i<length shares. GF (share_data (shares ! i) ! p) *
        basis0 ((\<lambda>s. GF (share_index s)) ` set shares) (GF (share_index (shares ! i))))"
proof -
  let ?w = "\<lambda>i. gf_mul (fst (num_den shares i)) (gf_inv (snd (num_den shares i)))"
  have "fold (\<lambda>i acc. case acc of None \<Rightarrow> None | Some value \<Rightarrow>
             (let (num, den) = num_den shares i; den_inv = gf_inv den
              in if den_inv = 0 then None
                 else Some (value XOR gf_mul (share_data (shares ! i) ! p) (gf_mul num den_inv))))
          is (Some a) =
        Some (fold (\<lambda>i value. value XOR gf_mul (share_data (shares ! i) ! p) (?w i)) is a)"
    if "set is \<subseteq> {..<length shares}" for "is" a
    using that
    by (induction "is" arbitrary: a) (auto simp: Let_def split_beta den_inv_nonzero [OF assms])
  then have r: "reconstruct_byte shares p = Some (fold (\<lambda>i value. value XOR
      gf_mul (share_data (shares ! i) ! p) (?w i)) [0..<length shares] 0)"
    by (simp add: reconstruct_byte_def atLeast0LessThan)
  have "GF (fold (\<lambda>i value. value XOR gf_mul (share_data (shares ! i) ! p) (?w i)) [0..<n] 0) =
      (\<Sum>i<n. GF (share_data (shares ! i) ! p) * GF (?w i))" for n
    by (induction n) (simp_all add: GF_ops)
  moreover have "GF (?w i) = basis0 ((\<lambda>s. GF (share_index s)) ` set shares)
      (GF (share_index (shares ! i)))" if "i < length shares" for i
    using GF_weight [OF assms that] by (simp add: GF_ops)
  ultimately show thesis using r that by simp
qed

text \<open>
  The sum over share positions is the sum over the nodes, so shares that lie on a
  polynomial with at most as many coefficients give back its constant term.
\<close>

lemma reconstruct_byte_interpolates:
  assumes dist: "distinct (map share_index shares)" and "shares \<noteq> []"
    and on_poly: "\<And>s. s \<in> set shares \<Longrightarrow> share_data s ! p = gf_eval coeffs (share_index s)"
    and "length coeffs \<le> length shares" and "coeffs \<noteq> []"
  shows "reconstruct_byte shares p = Some (coeffs ! 0)"
proof -
  let ?x = "\<lambda>s. GF (share_index s)" and ?cs = "map GF coeffs"
  let ?X = "?x ` set shares"
  obtain v where v: "reconstruct_byte shares p = Some v"
    and sum: "GF v = (\<Sum>i<length shares. GF (share_data (shares ! i) ! p) * basis0 ?X (?x (shares ! i)))"
    using GF_reconstruct_byte [OF dist] .
  have inj: "inj_on ?x (set shares)"
    using dist by (auto simp: inj_on_def distinct_map)
  have eval: "GF (gf_eval coeffs y) = peval ?cs (GF y)" for y
    by (simp add: GF_gf_eval peval_def)
  have d: "distinct shares" using dist by (simp add: distinct_map)
  have "GF v = (\<Sum>s\<in>set shares. GF (share_data s ! p) * basis0 ?X (?x s))"
    unfolding sum using d
    by (simp add: sum_list_distinct_conv_sum_set [symmetric] sum_list_sum_nth atLeast0LessThan)
  also have "\<dots> = (\<Sum>x\<in>?X. peval ?cs x * basis0 ?X x)"
    by (simp add: sum.reindex [OF inj] on_poly eval)
  also have "\<dots> = peval ?cs 0"
  proof (rule interpolation_at_zero)
    have "card ?X = length shares"
      by (simp add: card_image [OF inj] distinct_card [OF d])
    with assms show "length ?cs \<le> card ?X" by simp
  qed (use assms in auto)
  also have "\<dots> = GF (coeffs ! 0)"
    using assms(5) by (cases coeffs) (simp_all add: peval_Cons)
  finally show ?thesis using v by simp
qed

section \<open>Round trip\<close>

definition shares_of :: "share list \<Rightarrow> nat list \<Rightarrow> share list" where
  "shares_of shares picks = map (\<lambda>k. shares ! k) picks"

text \<open>The coefficients as a list, and the shares they give.\<close>

definition coeff_list :: "(nat \<Rightarrow> byte) \<Rightarrow> nat \<Rightarrow> nat \<Rightarrow> byte \<Rightarrow> bytes" where
  "coeff_list rng t byte_pos secret_byte = secret_byte # map (\<lambda>j. rng (byte_pos * 32 + j)) [1..<t]"

definition split_shares :: "(nat \<Rightarrow> byte) \<Rightarrow> bytes \<Rightarrow> nat \<Rightarrow> nat \<Rightarrow> share list" where
  "split_shares r secret n t =
     map (\<lambda>i. \<lparr>share_index = word_of_nat i,
                share_data = map (\<lambda>p. gf_eval (coeff_list r t p (secret ! p)) (word_of_nat i)) [0..<64]\<rparr>)
         [1..<Suc n]"

text \<open>The loops compute them for thresholds up to 32, and index out of range above.\<close>

lemma fill_coeffs_append:
  "fill_coeffs r p (is @ js) c = (case fill_coeffs r p is c of Panic \<Rightarrow> Panic | Done c \<Rightarrow> fill_coeffs r p js c)"
  by (induction r p "is" c rule: fill_coeffs.induct) simp_all

lemma fill_coeffs_in_range:
  assumes "p < 64" and "length c = 32"
  shows "list_all (\<lambda>j. j < 32) js \<Longrightarrow> fill_coeffs r p js c = Done (fold (\<lambda>j c. c[j := r (p * 32 + j)]) js c)"
  using assms(2)
proof (induction js arbitrary: c)
  case (Cons j js)
  moreover have "p * 32 + j < 64 * 32" using assms(1) Cons.prems(1) by simp
  ultimately show ?case by simp
qed simp

lemma fold_update_tail:
  "1 \<le> m \<Longrightarrow> m \<le> length c \<Longrightarrow> take m (fold (\<lambda>j c. c[j := f j]) [1..<m] c) = c ! 0 # map f [1..<m]"
proof (induction m rule: dec_induct)
  case base
  then show ?case by (cases c) simp_all
next
  case (step m)
  have "length (fold (\<lambda>j c. c[j := f j]) js c) = length c" for js
    by (induction js arbitrary: c) simp_all
  with step show ?case by (simp add: take_Suc_conv_app_nth)
qed

lemma split_coeffs_eq:
  assumes "1 \<le> t" and "p < 64"
  shows "split_coeffs r t p s = (if t \<le> 32 then Done (coeff_list r t p s) else Panic)"
proof (cases "t \<le> 32")
  case True
  have "length (fold (\<lambda>j c. c[j := r (p * 32 + j)]) js c) = length c" for js c
    by (induction js arbitrary: c) simp_all
  moreover have "list_all (\<lambda>j. j < 32) [1..<t]" using True by (simp add: list_all_iff)
  ultimately show ?thesis
    using True assms fold_update_tail [of t "(zeros 32)[0 := s]" "\<lambda>j. r (p * 32 + j)"]
    by (simp add: split_coeffs_def fill_coeffs_in_range coeff_list_def)
next
  case False
  have "[1..<t] = [1..<32] @ [32..<t]"
    using False upt_add_eq_append [of 1 32 "t - 32"] by simp
  then have "[1..<t] = [1..<32] @ 32 # [33..<t]"
    using False by (simp add: upt_conv_Cons [of 32])
  moreover have "length (fold (\<lambda>j c. c[j := r (p * 32 + j)]) js c) = length c" for js c
    by (induction js arbitrary: c) simp_all
  moreover have "list_all (\<lambda>j. j < 32) [1..<32]" by (simp add: list_all_iff)
  ultimately have "fill_coeffs r p [1..<t] ((zeros 32)[0 := s]) = Panic"
    using assms(2) by (simp add: fill_coeffs_append fill_coeffs_in_range)
  with False show ?thesis by (simp add: split_coeffs_def)
qed

lemma split_loop_eq:
  assumes "1 \<le> t" and "t \<le> 32"
  shows "list_all (\<lambda>p. p < 64) ps \<Longrightarrow> split_loop r t secret ps shares =
    Done (map (\<lambda>s. s\<lparr>share_data := fold (\<lambda>p d. d[p := gf_eval (coeff_list r t p (secret ! p)) (share_index s)]) ps
                                       (share_data s)\<rparr>) shares)"
  using assms by (induction ps arbitrary: shares) (simp_all add: split_coeffs_eq comp_def)

lemma split_alt:
  "split rng secret n t =
     (if unat n < 1 \<or> unat t < 2 \<or> unat n < unat t then Done None
      else case rng of None \<Rightarrow> Done None
      | Some r \<Rightarrow> if 32 < unat t then Panic else Done (Some (split_shares r secret (unat n) (unat t))))"
proof -
  let ?init = "map (\<lambda>i. \<lparr>share_index = word_of_nat i, share_data = zeros 64\<rparr>) [1..<Suc (unat n)]"
  have "split_loop r (unat t) secret [0..<64] ?init =
      (if 32 < unat t then Panic else Done (split_shares r secret (unat n) (unat t)))" if "2 \<le> unat t" for r
  proof (cases "32 < unat t")
    case True
    then show ?thesis using that by (simp add: upt_conv_Cons split_coeffs_eq del: upt_Suc)
  next
    case False
    have "list_all (\<lambda>p. p < 64) [0..<64]" by (simp add: list_all_iff)
    with False that show ?thesis
      by (simp add: split_loop_eq split_shares_def comp_def fold_pointwise_all [where f = "\<lambda>p _. F p" for F] del: upt_Suc)
  qed
  then show ?thesis
    by (auto simp: split_def word_less_nat_alt Let_def simp del: upt_Suc split: option.split)
qed

lemma length_split_shares [simp]: "length (split_shares r secret n t) = n"
  by (simp add: split_shares_def)

lemma nth_split_shares:
  "k < n \<Longrightarrow> split_shares r secret n t ! k =
     \<lparr>share_index = word_of_nat (Suc k),
      share_data = map (\<lambda>p. gf_eval (coeff_list r t p (secret ! p)) (word_of_nat (Suc k))) [0..<64]\<rparr>"
  by (simp add: split_shares_def del: upt_Suc)

lemma word_of_nat_byte_inj:
  "i < 256 \<Longrightarrow> j < 256 \<Longrightarrow> (word_of_nat i :: byte) = word_of_nat j \<longleftrightarrow> i = j"
proof
  assume "i < 256" "j < 256" and "(word_of_nat i :: byte) = word_of_nat j"
  then have "unat (word_of_nat i :: byte) = unat (word_of_nat j :: byte)" by simp
  with \<open>i < 256\<close> \<open>j < 256\<close> show "i = j" by (simp add: unat_of_nat)
qed simp

lemma reconstruct_split_shares:
  assumes "length secret = 64" and "2 \<le> t" and "n < 256"
    and picks: "distinct picks" "set picks \<subseteq> {..<n}" "t \<le> length picks"
  shows "reconstruct (shares_of (split_shares r secret n t) picks) = Some secret"
proof -
  let ?S = "shares_of (split_shares r secret n t) picks"
  have idx: "map share_index ?S = map (\<lambda>k. word_of_nat (Suc k)) picks"
    using picks(2) by (auto simp: shares_of_def nth_split_shares)
  have dist: "distinct (map share_index ?S)"
  proof -
    have "x = y" if "x \<in> set picks" "y \<in> set picks"
      "(word_of_nat (Suc x) :: byte) = word_of_nat (Suc y)" for x y
    proof -
      have "Suc x < 256" "Suc y < 256" using that(1,2) picks(2) assms(3) by auto
      then show ?thesis using that(3) word_of_nat_byte_inj [of "Suc x" "Suc y"] by blast
    qed
    then show ?thesis
      unfolding idx distinct_map using picks(1) by (simp only: inj_on_def) blast
  qed
  have ne: "?S \<noteq> []" using assms by (auto simp: shares_of_def)
  have "reconstruct_byte ?S p = Some (secret ! p)" if "p < 64" for p
  proof -
    have "reconstruct_byte ?S p = Some (coeff_list r t p (secret ! p) ! 0)"
      using that picks assms(2)
      by (intro reconstruct_byte_interpolates [OF dist ne])
         (auto simp: shares_of_def nth_split_shares coeff_list_def)
    then show ?thesis by (simp add: coeff_list_def)
  qed
  then have "map (reconstruct_byte ?S) [0..<64] = map Some (map ((!) secret) [0..<64])"
    by simp
  moreover have "map ((!) secret) [0..<64] = secret"
    using map_nth [of secret] assms(1) by simp
  moreover have "those (map Some xs) = Some xs" for xs :: bytes
    by (induction xs) simp_all
  ultimately show ?thesis
    using dist ne by (simp add: reconstruct_def has_duplicate_index_distinct [symmetric])
qed

section \<open>Secrecy below the threshold\<close>

text \<open>
  A polynomial that vanishes on fewer than \<open>t\<close> nonzero nodes and takes any wanted value
  at zero: the product of \<open>1 - x / y\<close>, scaled, as a list of \<open>t\<close> coefficients.
\<close>

lemma vanishing_poly:
  assumes "finite Y" and "card Y < t" and "0 \<notin> Y"
  shows "\<exists>cs. length cs = t \<and> peval cs 0 = (d :: 'a::field) \<and> (\<forall>y\<in>Y. peval cs y = 0)"
  using assms
proof (induction Y arbitrary: t rule: finite_induct)
  case empty
  then obtain m where "t = Suc m" by (cases t) auto
  then show ?case
    by (intro exI [of _ "d # replicate m 0"]) (simp add: peval_Cons)
next
  case (insert y Y)
  then obtain m where m: "t = Suc m" "card Y < m" by (cases t) auto
  with insert obtain cs where cs: "length cs = m" "peval cs 0 = d" "\<forall>y\<in>Y. peval cs y = 0"
    by auto
  let ?f = "\<lambda>x. (1 - x / y) * peval cs x"
  have shift: "peval (map2 (\<lambda>a b. a - b / y) (as @ [0]) (0 # bs)) x = peval as x - x * peval bs x / y"
    if "length as = length bs" for as bs x
  proof -
    have "peval (map2 (\<lambda>a b. a - b / y) as' bs') x = peval as' x - peval bs' x / y"
      if "length as' = length bs'" for as' bs'
      using that
    proof (induction as' bs' rule: list_induct2)
      case (Cons a as b bs)
      have "peval (map2 (\<lambda>a b. a - b / y) (a # as) (b # bs)) x =
          (a - b / y) + x * (peval as x - peval bs x / y)"
        by (simp add: peval_Cons Cons.IH)
      then show ?case by (simp add: peval_Cons algebra_simps add_divide_distrib)
    qed simp
    moreover have "peval (as @ [0]) x = peval as x"
      by (induction as) (simp_all add: peval_Cons)
    ultimately show ?thesis using that by (simp add: peval_Cons)
  qed
  let ?cs = "map2 (\<lambda>a b. a - b / y) (cs @ [0]) (0 # cs)"
  have "peval ?cs x = ?f x" for x
    by (simp add: shift field_simps)
  moreover have "length ?cs = t" using cs m by simp
  moreover have "y \<noteq> 0" using insert by auto
  ultimately show ?case using cs by (intro exI [of _ ?cs]) auto
qed

text \<open>Adding a polynomial to the coefficients of one byte adds its values.\<close>

lemma gf_eval_add:
  assumes "length cs = length ds"
  shows "gf_eval (map2 (XOR) cs ds) x = gf_eval cs x XOR gf_eval ds x"
proof -
  have "GF (gf_eval (map2 (XOR) cs ds) x) = GF (gf_eval cs x XOR gf_eval ds x)"
    using assms by (simp add: GF_gf_eval GF_ops sum.distrib distrib_right)
  then show ?thesis by simp
qed

lemma shares_hide_byte:
  assumes "2 \<le> t" and "finite I" and "card I < t" and "0 \<notin> I"
  shows "\<exists>r'. \<forall>x\<in>I. gf_eval (coeff_list r' t p s') x = gf_eval (coeff_list r t p s) x"
proof -
  let ?Y = "GF ` I"
  have "card ?Y < t" using card_image_le [OF assms(2), of GF] assms(3) by simp
  moreover have "finite ?Y" using assms(2) by simp
  moreover have "0 \<notin> ?Y" using assms(4) by (auto simp flip: GF_ops(1))
  ultimately obtain cs where cs: "length cs = t" "peval cs 0 = GF (s XOR s')" "\<forall>y\<in>?Y. peval cs y = 0"
    using vanishing_poly [of ?Y t "GF (s XOR s')"] by blast
  define ds where "ds = map gf_byte cs"
  have ev: "GF (gf_eval ds x) = peval cs (GF x)" for x
    by (simp add: ds_def GF_gf_eval peval_def)
  have ds0: "ds ! 0 = s XOR s'"
  proof -
    obtain c cs' where "cs = c # cs'" using cs(1) assms(1) by (cases cs) auto
    then show ?thesis using cs(2) by (simp add: ds_def peval_Cons)
  qed
  define r' where "r' = (\<lambda>k. r k XOR ds ! (k - p * 32))"
  have "coeff_list r' t p s' = map2 (XOR) (coeff_list r t p s) ds"
    (is "?l = ?r")
  proof (rule nth_equalityI)
    show "length ?l = length ?r" using cs(1) assms(1) by (simp add: coeff_list_def ds_def)
    fix j assume "j < length ?l"
    then have j: "j < t" using assms(1) by (simp add: coeff_list_def)
    show "?l ! j = ?r ! j"
      using j cs(1) assms(1) ds0
      by (cases j) (auto simp: coeff_list_def ds_def r'_def nth_Cons' xor.assoc)
  qed
  moreover have "gf_eval ds x = 0" if "x \<in> I" for x
    using cs(3) that ev [of x] GF_ops(1) by (metis GF_eq_iff imageI)
  moreover have "length (coeff_list r t p s) = length ds"
    using cs(1) assms(1) by (simp add: coeff_list_def ds_def)
  ultimately show ?thesis by (intro exI [of _ r']) (simp add: gf_eval_add)
qed

lemma coeff_list_local:
  assumes "t \<le> 32"
  shows "coeff_list (\<lambda>k. R (k div 32) k) t p s = coeff_list (R p) t p s"
  using assms by (auto simp: coeff_list_def)

lemma split_shares_hide:
  assumes "2 \<le> t" and "t \<le> 32" and "n < 256" and "K \<subseteq> {..<n}" and "card K < t"
  shows "\<exists>r'. \<forall>k\<in>K. split_shares r' secret' n t ! k = split_shares r secret n t ! k"
proof -
  let ?I = "(\<lambda>k. word_of_nat (Suc k) :: byte) ` K"
  have fin: "finite K" using assms(4) finite_subset by blast
  then have "finite ?I" and "card ?I < t"
    using card_image_le [OF fin] assms(5) by (auto intro: le_less_trans)
  moreover have "0 \<notin> ?I"
    using assms(3,4) word_of_nat_byte_inj [of 0] by (auto simp del: of_nat_Suc)
  ultimately have "\<exists>r'. \<forall>x\<in>?I. gf_eval (coeff_list r' t p (secret' ! p)) x =
      gf_eval (coeff_list r t p (secret ! p)) x" for p
    by (rule shares_hide_byte [OF assms(1)])
  then obtain R where R: "\<And>p x. x \<in> ?I \<Longrightarrow> gf_eval (coeff_list (R p) t p (secret' ! p)) x =
      gf_eval (coeff_list r t p (secret ! p)) x"
    by metis
  have "split_shares (\<lambda>k. R (k div 32) k) secret' n t ! k = split_shares r secret n t ! k"
    if "k \<in> K" for k
    using that assms(4) by (auto simp: nth_split_shares coeff_list_local [OF assms(2)] R simp del: of_nat_Suc)
  then show ?thesis by blast
qed

section \<open>Properties\<close>

lemma those_Some: "\<forall>x\<in>set xs. x \<noteq> None \<Longrightarrow> \<exists>ys. those xs = Some ys \<and> length ys = length xs"
  by (induction xs) auto

text \<open>C1. For a 64-byte secret, \<open>split\<close> with parameters it accepts (\<open>2 \<le> t \<le> n\<close>, \<open>t \<le> 32\<close>)
  returns \<open>n\<close> shares, and \<open>reconstruct\<close> on any \<open>t\<close> or more of them, in any order,
  returns the secret.
\<close>

theorem split_reconstruct:
  assumes "length secret = 64" and "2 \<le> unat t" and "unat t \<le> unat n" and "unat t \<le> 32"
  shows "\<exists>shares. split (Some r) secret n t = Done (Some shares) \<and> length shares = unat n \<and>
     (\<forall>picks. distinct picks \<and> set picks \<subseteq> {..<unat n} \<and> unat t \<le> length picks \<longrightarrow>
        reconstruct (shares_of shares picks) = Some secret)"
proof -
  have "unat n < 256" using unsigned_less [of n] by simp
  then have "reconstruct (shares_of (split_shares r secret (unat n) (unat t)) picks) = Some secret"
    if "distinct picks" "set picks \<subseteq> {..<unat n}" "unat t \<le> length picks" for picks
    using reconstruct_split_shares assms that by blast
  with assms show ?thesis by (intro exI [of _ "split_shares r secret (unat n) (unat t)"]) (auto simp: split_alt)
qed

theorem split_reconstruct_witness:
  "\<exists>shares. split (Some (\<lambda>k. word_of_nat k)) (replicate 64 0xAB) 3 2 = Done (Some shares) \<and>
     reconstruct (shares_of shares [2, 0]) = Some (replicate 64 0xAB)"
proof -
  have "\<exists>shares. split (Some (\<lambda>k. word_of_nat k)) (replicate 64 0xAB) 3 2 = Done (Some shares) \<and>
     length shares = unat (3 :: byte) \<and>
     (\<forall>picks. distinct picks \<and> set picks \<subseteq> {..<unat (3 :: byte)} \<and> unat (2 :: byte) \<le> length picks \<longrightarrow>
        reconstruct (shares_of shares picks) = Some (replicate 64 0xAB))"
    by (rule split_reconstruct) simp_all
  moreover have "distinct [2, 0 :: nat] \<and> set [2, 0 :: nat] \<subseteq> {..<unat (3 :: byte)} \<and>
      unat (2 :: byte) \<le> length [2, 0 :: nat]"
    by simp
  ultimately show ?thesis by blast
qed

text \<open>C11. Fewer than \<open>t\<close> shares say nothing about the secret: whatever shares \<open>split\<close> hands out
  at fewer than \<open>t\<close> positions, every other secret produces exactly the same shares there
  for some choice of the random coefficients.
\<close>

theorem split_hides_secret:
  assumes "2 \<le> unat t" and "unat t \<le> unat n" and "unat t \<le> 32"
    and "K \<subseteq> {..<unat n}" and "card K < unat t"
  shows "\<exists>shares shares' r'. split (Some r) secret n t = Done (Some shares) \<and>
     split (Some r') secret' n t = Done (Some shares') \<and> (\<forall>k\<in>K. shares' ! k = shares ! k)"
proof -
  have "unat n < 256" using unsigned_less [of n] by simp
  with assms obtain r' where
    "\<forall>k\<in>K. split_shares r' secret' (unat n) (unat t) ! k = split_shares r secret (unat n) (unat t) ! k"
    using split_shares_hide by blast
  with assms show ?thesis by (simp add: split_alt) blast
qed

theorem split_hides_secret_witness:
  "\<exists>shares shares' r'. split (Some (\<lambda>_. 7)) (replicate 64 1) 3 2 = Done (Some shares) \<and>
     split (Some r') (replicate 64 2) 3 2 = Done (Some shares') \<and> (\<forall>k\<in>{1}. shares' ! k = shares ! k)"
  by (rule split_hides_secret) simp_all

text \<open>C36. Every outcome of \<open>split\<close>, whose loops index fixed arrays: \<open>None\<close> exactly for rejected
  parameters or a failed random generator; a panic exactly for the accepted thresholds
  above 32, where the coefficient array of 32 entries is indexed out of range; and otherwise
  one share for each index from 1 to \<open>n\<close>, so with distinct nonzero indices, of 64 bytes.
\<close>

theorem split_outcomes:
  "(split rng secret n t = Done None \<longleftrightarrow> unat n < 1 \<or> unat t < 2 \<or> unat n < unat t \<or> rng = None) \<and>
   (split rng secret n t = Panic \<longleftrightarrow> 32 < unat t \<and> unat t \<le> unat n \<and> rng \<noteq> None) \<and>
   (case split rng secret n t of
      Done (Some shares) \<Rightarrow> 2 \<le> unat t \<and> unat t \<le> min 32 (unat n) \<and> length shares = unat n \<and>
        map (unat \<circ> share_index) shares = [1..<Suc (unat n)] \<and>
        distinct (map share_index shares) \<and> list_all (\<lambda>s. length (share_data s) = 64) shares
    | _ \<Rightarrow> True)"
proof -
  have n: "unat n < 256" using unsigned_less [of n] by simp
  have "map (unat \<circ> share_index) (split_shares r secret (unat n) (unat t)) = [1..<Suc (unat n)]" for r
  proof -
    have "unat (word_of_nat i :: byte) = i" if "i < Suc (unat n)" for i
      using that n by (simp add: unat_of_nat)
    then have "map (\<lambda>i. unat (word_of_nat i :: byte)) [1..<Suc (unat n)] = [1..<Suc (unat n)]"
      by (intro map_idI) (simp del: upt_Suc)
    then show ?thesis by (simp add: split_shares_def comp_def del: upt_Suc)
  qed
  moreover have "distinct (map share_index shares)" if "map (unat \<circ> share_index) shares = [1..<Suc (unat n)]" for shares
  proof -
    have "distinct (map unat (map share_index shares))" using that by simp
    then show ?thesis using distinct_map [of unat "map share_index shares"] by blast
  qed
  moreover have "list_all (\<lambda>s. length (share_data s) = 64) (split_shares r secret (unat n) (unat t))" for r
    by (simp add: split_shares_def list_all_iff)
  ultimately show ?thesis by (auto simp: split_alt split: option.splits)
qed

theorem split_outcomes_witness:
  "split (Some (\<lambda>i. 7)) (zeros 64) 40 33 = Panic \<and> split (Some (\<lambda>i. 7)) (zeros 64) 40 32 \<noteq> Panic"
  by (simp add: split_outcomes)

text \<open>C37. \<open>reconstruct\<close> rejects exactly the empty list and repeated indices: its division
  check never fires on distinct indices, and any number of distinct shares, also fewer
  than the threshold, is accepted and gives 64 bytes.
\<close>

theorem reconstruct_accepts:
  "(reconstruct shares = None \<longleftrightarrow> \<not> (shares \<noteq> [] \<and> distinct (map share_index shares))) \<and>
   ((\<exists>secret. reconstruct shares = Some secret \<and> length secret = 64) \<longleftrightarrow>
      shares \<noteq> [] \<and> distinct (map share_index shares))"
proof -
  have some: "\<exists>ys. reconstruct shares = Some ys \<and> length ys = 64"
    if "shares \<noteq> []" "distinct (map share_index shares)"
  proof -
    have "\<forall>x\<in>set (map (reconstruct_byte shares) [0..<64]). x \<noteq> None"
      using GF_reconstruct_byte [OF that(2)] by (metis (no_types, lifting) ex_map_conv option.distinct(1))
    from those_Some [OF this] show ?thesis
      using that by (simp add: reconstruct_def flip: has_duplicate_index_distinct)
  qed
  have none: "reconstruct shares = None" if "shares = [] \<or> \<not> distinct (map share_index shares)"
    using that by (auto simp: reconstruct_def simp flip: has_duplicate_index_distinct)
  from some none show ?thesis by (metis option.distinct(1))
qed

end
