(* ===== verification/Shake.thy ===== *)
theory Shake
  imports Prelude
begin

text \<open>
  The SHAKE256 wrapper of \<^verbatim>\<open>src/src/shake256.rs\<close>. The sponge itself is the
  third-party crate libcrux-sha3. An extendable-output function maps a message to an
  unbounded stream of output bytes of which the caller takes a prefix, so the
  library is a parameter of type \<open>xof\<close>: message to stream. Every operation that
  hashes takes that parameter first.
\<close>

type_synonym xof = "bytes \<Rightarrow> nat \<Rightarrow> byte"

text \<open>\<open>libcrux_sha3::shake256_ema(&mut out, data)\<close> with \<open>out.len() = n\<close>.\<close>

definition shake256_ema :: "xof \<Rightarrow> nat \<Rightarrow> bytes \<Rightarrow> bytes" where
  "shake256_ema xof n data = map (xof data) [0..<n]"

lemma length_shake256_ema [simp, len_simps]: "length (shake256_ema xof n data) = n"
  by (simp add: shake256_ema_def)

lemma take_shake256_ema: "m \<le> n \<Longrightarrow> take m (shake256_ema xof n data) = shake256_ema xof m data"
  by (simp add: shake256_ema_def take_map)

section \<open>The hasher\<close>

record shake256 =
  buf :: bytes

definition shake_new :: shake256 where
  "shake_new = \<lparr>buf = []\<rparr>"

definition update :: "shake256 \<Rightarrow> bytes \<Rightarrow> shake256" where
  "update h data = h\<lparr>buf := buf h @ data\<rparr>"

record shake256_reader =
  rd_out :: bytes
  rd_pos :: nat

definition finalize_xof :: "xof \<Rightarrow> shake256 \<Rightarrow> shake256_reader" where
  "finalize_xof xof h = \<lparr>rd_out = shake256_ema xof 256 (buf h), rd_pos = 0\<rparr>"

text \<open>
  \<open>read(&mut out)\<close> with \<open>out.len() = n\<close>: the new contents of \<open>out\<close> and the
  advanced reader. Past the 256 precomputed bytes the output is zero-filled.
\<close>

definition reader_read :: "shake256_reader \<Rightarrow> nat \<Rightarrow> bytes \<times> shake256_reader" where
  "reader_read r n =
     (let available = length (rd_out r) - rd_pos r;
          to_copy = min n available
      in (take to_copy (drop (rd_pos r) (rd_out r)) @ zeros (n - to_copy),
          r\<lparr>rd_pos := rd_pos r + to_copy\<rparr>))"

text \<open>\<open>Drop\<close> of the hasher and of the reader.\<close>

definition shake256_drop :: "shake256 \<Rightarrow> shake256" where
  "shake256_drop h = h\<lparr>buf := zeros (length (buf h))\<rparr>"

definition reader_drop :: "shake256_reader \<Rightarrow> shake256_reader" where
  "reader_drop r = r\<lparr>rd_out := zeros (length (rd_out r))\<rparr>"

definition shake256_array :: "xof \<Rightarrow> nat \<Rightarrow> bytes \<Rightarrow> bytes" where
  "shake256_array xof n data = shake256_ema xof n data"

definition shake256_xof :: "xof \<Rightarrow> nat \<Rightarrow> bytes \<Rightarrow> bytes" where
  "shake256_xof xof n data = shake256_ema xof n data"

section \<open>The idiom \<open>finalize_xof().read(&mut out)\<close>\<close>

definition squeeze :: "xof \<Rightarrow> shake256 \<Rightarrow> nat \<Rightarrow> bytes" where
  "squeeze xof h n = fst (reader_read (finalize_xof xof h) n)"

definition updates :: "shake256 \<Rightarrow> bytes list \<Rightarrow> shake256" where
  "updates h parts = fold (\<lambda>p h. update h p) parts h"

lemma buf_shake_new [simp]: "buf shake_new = []"
  by (simp add: shake_new_def)

lemma buf_update [simp]: "buf (update h d) = buf h @ d"
  by (simp add: update_def)

lemma update_update: "update (update h a) b = update h (a @ b)"
  by (simp add: update_def)

lemma update_Nil [simp]: "update h [] = h"
  by (simp add: update_def)

lemma buf_updates [simp]: "buf (updates h ps) = buf h @ concat ps"
  unfolding updates_def by (induction ps arbitrary: h) simp_all

lemma length_squeeze [simp, len_simps]: "length (squeeze xof h n) = n"
  by (simp add: squeeze_def reader_read_def finalize_xof_def Let_def)

lemma squeeze_eq [hash_simps]:
  "n \<le> 256 \<Longrightarrow> squeeze xof h n = shake256_ema xof n (buf h)"
  by (simp add: squeeze_def reader_read_def finalize_xof_def take_shake256_ema min_def)

lemma squeeze_long:
  "256 \<le> n \<Longrightarrow> squeeze xof h n = shake256_ema xof 256 (buf h) @ zeros (n - 256)"
  by (simp add: squeeze_def reader_read_def finalize_xof_def Let_def min_def)

text \<open>
  Collision resistance enters as a hypothesis on the messages that a statement is
  about: no two different ones among them have the same \<open>n\<close>-byte digest.
\<close>

definition collision_free :: "xof \<Rightarrow> nat \<Rightarrow> bytes set \<Rightarrow> bool" where
  "collision_free xof n M \<longleftrightarrow> inj_on (shake256_ema xof n) M"

lemma collision_freeD:
  "collision_free xof n M \<Longrightarrow> a \<in> M \<Longrightarrow> b \<in> M \<Longrightarrow>
     shake256_ema xof n a = shake256_ema xof n b \<longleftrightarrow> a = b"
  by (auto simp: collision_free_def inj_on_eq_iff)

lemma collision_free_mono:
  "collision_free xof n M \<Longrightarrow> N \<subseteq> M \<Longrightarrow> collision_free xof n N"
  unfolding collision_free_def by (rule inj_on_subset)

lemma collision_free_pairI:
  assumes "i < n" and "xof a i \<noteq> xof b i"
  shows "collision_free xof n {a, b}"
proof -
  from assms have "shake256_ema xof n a ! i \<noteq> shake256_ema xof n b ! i"
    by (simp add: shake256_ema_def)
  then show ?thesis by (auto simp: collision_free_def)
qed

lemma collision_freeI:
  assumes "0 < n" and "inj_on (\<lambda>m. xof m 0) M"
  shows "collision_free xof n M"
proof -
  have "shake256_ema xof n m ! 0 = xof m 0" for m
    using assms(1) by (simp add: shake256_ema_def)
  then show ?thesis
    using assms(2) unfolding collision_free_def inj_on_def by metis
qed

end
