(* ===== verification/Domain.thy ===== *)
theory Domain
  imports Prelude "HOL-Library.Sublist"
begin

text \<open>
  The domain-separation tags of \<^verbatim>\<open>src/src/common/domain.rs\<close>, one constant per
  tag, with the bytes the source gives it. What the other theories need of them is that
  tags absorbed at the start of a hash cannot be confused: no tag of a group is a
  prefix of another.
\<close>

definition ENTROPY_MIX :: bytes where [tag_defs]: "ENTROPY_MIX = ascii ''veil7:L1:entropy-mix:v1''"
definition ENTROPY_FOLD :: bytes where [tag_defs]: "ENTROPY_FOLD = ascii ''veil7:L1:entropy-fold:v1''"
definition ENTROPY_FINALIZE :: bytes where [tag_defs]: "ENTROPY_FINALIZE = ascii ''veil7:L1:entropy-finalize:v1''"
definition KEM_SEED :: bytes where [tag_defs]: "KEM_SEED = ascii ''veil7:L2:kem-seed:v1''"
definition SIG_SEED :: bytes where [tag_defs]: "SIG_SEED = ascii ''veil7:L2:sig-seed:v1''"
definition KEM_ENCAP_COINS :: bytes where [tag_defs]: "KEM_ENCAP_COINS = ascii ''veil7:L2:kem-encap-coins:v1''"
definition COMMITMENT :: bytes where [tag_defs]: "COMMITMENT = ascii ''veil7:L3:commitment:v1''"
definition TRANSCRIPT :: bytes where [tag_defs]: "TRANSCRIPT = ascii ''veil7:L7:transcript:v1''"
definition FS_PROTOCOL :: bytes where [tag_defs]: "FS_PROTOCOL = ascii ''veil7:fs:protocol:v1''"
definition FS_ABSORB :: bytes where [tag_defs]: "FS_ABSORB = ascii ''veil7:fs:absorb:v1''"
definition FS_CHALLENGE :: bytes where [tag_defs]: "FS_CHALLENGE = ascii ''veil7:fs:challenge:v1''"
definition FS_SQUEEZE :: bytes where [tag_defs]: "FS_SQUEEZE = ascii ''veil7:fs:squeeze:v1''"
definition FS_POST_CHALLENGE :: bytes where [tag_defs]: "FS_POST_CHALLENGE = ascii ''veil7:fs:post-challenge:v1''"
definition ENTROPY_SOURCE_OS_PRIMARY :: bytes where [tag_defs]: "ENTROPY_SOURCE_OS_PRIMARY = ascii ''veil7:L1:src:os-primary:v1''"
definition ENTROPY_SOURCE_OS_SECONDARY :: bytes where [tag_defs]: "ENTROPY_SOURCE_OS_SECONDARY = ascii ''veil7:L1:src:os-secondary:v1''"
definition ENTROPY_SOURCE_WALL_CLOCK :: bytes where [tag_defs]: "ENTROPY_SOURCE_WALL_CLOCK = ascii ''veil7:L1:src:wall-clock:v1''"
definition ENTROPY_SOURCE_STACK_ADDR :: bytes where [tag_defs]: "ENTROPY_SOURCE_STACK_ADDR = ascii ''veil7:L1:src:stack-addr:v1''"
definition ENTROPY_SOURCE_THREAD_ID :: bytes where [tag_defs]: "ENTROPY_SOURCE_THREAD_ID = ascii ''veil7:L1:src:thread-id:v1''"
definition ENTROPY_SOURCE_HW_COUNTER :: bytes where [tag_defs]: "ENTROPY_SOURCE_HW_COUNTER = ascii ''veil7:L1:src:hw-counter:v1''"
definition ENTROPY_SOURCE_PROCESS_ID :: bytes where [tag_defs]: "ENTROPY_SOURCE_PROCESS_ID = ascii ''veil7:L1:src:process-id:v1''"
definition ENTROPY_SOURCE_MEMORY_ALLOC :: bytes where [tag_defs]: "ENTROPY_SOURCE_MEMORY_ALLOC = ascii ''veil7:L1:src:memory-alloc:v1''"
definition ENTROPY_SOURCE_CPU_CACHE :: bytes where [tag_defs]: "ENTROPY_SOURCE_CPU_CACHE = ascii ''veil7:L1:src:cpu-cache:v1''"
definition ENTROPY_SOURCE_PAGE_FAULT :: bytes where [tag_defs]: "ENTROPY_SOURCE_PAGE_FAULT = ascii ''veil7:L1:src:page-fault:v1''"
definition ENTROPY_SOURCE_INTERRUPT :: bytes where [tag_defs]: "ENTROPY_SOURCE_INTERRUPT = ascii ''veil7:L1:src:interrupt:v1''"
definition ENTROPY_SOURCE_MEMORY_CONTENTION :: bytes where [tag_defs]: "ENTROPY_SOURCE_MEMORY_CONTENTION = ascii ''veil7:L1:src:memory-contention:v1''"
definition CHAIN_HEAD :: bytes where [tag_defs]: "CHAIN_HEAD = ascii ''veil7:chain:head:v1''"
definition CHAIN_STEP :: bytes where [tag_defs]: "CHAIN_STEP = ascii ''veil7:chain:step:v1''"
definition LAMPORT_SECRET :: bytes where [tag_defs]: "LAMPORT_SECRET = ascii ''veil7:rel:lamport:secret:v1''"
definition LAMPORT_PUBNODE :: bytes where [tag_defs]: "LAMPORT_PUBNODE = ascii ''veil7:rel:lamport:pubnode:v1''"
definition MERKLE_LEAF :: bytes where [tag_defs]: "MERKLE_LEAF = ascii ''veil7:rel:merkle:leaf:v1''"
definition MERKLE_NODE :: bytes where [tag_defs]: "MERKLE_NODE = ascii ''veil7:rel:merkle:node:v1''"
definition PEDERSEN_OPEN :: bytes where [tag_defs]: "PEDERSEN_OPEN = ascii ''veil7:rel:pedersen:open:v1''"
definition RANGE_BIT :: bytes where [tag_defs]: "RANGE_BIT = ascii ''veil7:rel:range:bit:v1''"
definition BATCH_HEAD :: bytes where [tag_defs]: "BATCH_HEAD = ascii ''veil7:batch:head:v1''"
definition BATCH_STEP :: bytes where [tag_defs]: "BATCH_STEP = ascii ''veil7:batch:step:v1''"

text \<open>All tags of the module, in its order, and the strings they spell.\<close>

definition all_tags :: "bytes list" where
  "all_tags =
    [ENTROPY_MIX, ENTROPY_FOLD, ENTROPY_FINALIZE, KEM_SEED, SIG_SEED, KEM_ENCAP_COINS, COMMITMENT,
     TRANSCRIPT, FS_PROTOCOL, FS_ABSORB, FS_CHALLENGE, FS_SQUEEZE, FS_POST_CHALLENGE,
     ENTROPY_SOURCE_OS_PRIMARY, ENTROPY_SOURCE_OS_SECONDARY, ENTROPY_SOURCE_WALL_CLOCK,
     ENTROPY_SOURCE_STACK_ADDR, ENTROPY_SOURCE_THREAD_ID, ENTROPY_SOURCE_HW_COUNTER,
     ENTROPY_SOURCE_PROCESS_ID, ENTROPY_SOURCE_MEMORY_ALLOC, ENTROPY_SOURCE_CPU_CACHE,
     ENTROPY_SOURCE_PAGE_FAULT, ENTROPY_SOURCE_INTERRUPT, ENTROPY_SOURCE_MEMORY_CONTENTION, CHAIN_HEAD,
     CHAIN_STEP, LAMPORT_SECRET, LAMPORT_PUBNODE, MERKLE_LEAF, MERKLE_NODE, PEDERSEN_OPEN, RANGE_BIT,
     BATCH_HEAD, BATCH_STEP]"

definition tag_strings :: "string list" where
  "tag_strings =
    [''veil7:L1:entropy-mix:v1'',
     ''veil7:L1:entropy-fold:v1'',
     ''veil7:L1:entropy-finalize:v1'',
     ''veil7:L2:kem-seed:v1'',
     ''veil7:L2:sig-seed:v1'',
     ''veil7:L2:kem-encap-coins:v1'',
     ''veil7:L3:commitment:v1'',
     ''veil7:L7:transcript:v1'',
     ''veil7:fs:protocol:v1'',
     ''veil7:fs:absorb:v1'',
     ''veil7:fs:challenge:v1'',
     ''veil7:fs:squeeze:v1'',
     ''veil7:fs:post-challenge:v1'',
     ''veil7:L1:src:os-primary:v1'',
     ''veil7:L1:src:os-secondary:v1'',
     ''veil7:L1:src:wall-clock:v1'',
     ''veil7:L1:src:stack-addr:v1'',
     ''veil7:L1:src:thread-id:v1'',
     ''veil7:L1:src:hw-counter:v1'',
     ''veil7:L1:src:process-id:v1'',
     ''veil7:L1:src:memory-alloc:v1'',
     ''veil7:L1:src:cpu-cache:v1'',
     ''veil7:L1:src:page-fault:v1'',
     ''veil7:L1:src:interrupt:v1'',
     ''veil7:L1:src:memory-contention:v1'',
     ''veil7:chain:head:v1'',
     ''veil7:chain:step:v1'',
     ''veil7:rel:lamport:secret:v1'',
     ''veil7:rel:lamport:pubnode:v1'',
     ''veil7:rel:merkle:leaf:v1'',
     ''veil7:rel:merkle:node:v1'',
     ''veil7:rel:pedersen:open:v1'',
     ''veil7:rel:range:bit:v1'',
     ''veil7:batch:head:v1'',
     ''veil7:batch:step:v1'']"

text \<open>The tags under which transcript states are derived are told apart by their first bytes.\<close>

lemma fs_tags_separate [simp]:
  "FS_PROTOCOL @ x \<noteq> FS_ABSORB @ y" "FS_ABSORB @ x \<noteq> FS_PROTOCOL @ y"
  "FS_PROTOCOL @ x \<noteq> FS_POST_CHALLENGE @ y" "FS_POST_CHALLENGE @ x \<noteq> FS_PROTOCOL @ y"
  "FS_ABSORB @ x \<noteq> FS_POST_CHALLENGE @ y" "FS_POST_CHALLENGE @ x \<noteq> FS_ABSORB @ y"
  by (simp_all add: tag_defs ascii_def)

lemma merkle_tags_separate [simp]:
  "MERKLE_LEAF @ x \<noteq> MERKLE_NODE @ y" "MERKLE_NODE @ x \<noteq> MERKLE_LEAF @ y"
  by (simp_all add: tag_defs ascii_def)

lemma all_tags_ascii: "all_tags = map ascii tag_strings"
  by (simp add: all_tags_def tag_strings_def tag_defs)

lemma of_char_byte_eq [simp]: "(of_char c :: byte) = of_char d \<longleftrightarrow> c = d"
proof
  assume "(of_char c :: byte) = of_char d"
  then have "(of_nat (of_char c) :: byte) = of_nat (of_char d)"
    by (simp add: of_nat_of_char)
  then have "(of_char c :: nat) mod 256 = of_char d mod 256"
    by (simp add: word_of_nat_eq_iff take_bit_eq_mod)
  then show "c = d"
    by simp
qed simp

lemma prefix_ascii: "prefix (ascii s) (ascii t) \<longleftrightarrow> prefix s t"
proof (induction s arbitrary: t)
  case (Cons c s)
  then show ?case
    by (cases t) (simp_all add: ascii_def)
qed (simp add: ascii_def)

lemma tag_strings_prefix_free:
  assumes "i < length tag_strings" and "j < length tag_strings" and "i \<noteq> j"
  shows "\<not> prefix (tag_strings ! i) (tag_strings ! j)"
proof -
  have "\<forall>i \<in> set [0..<length tag_strings]. \<forall>j \<in> set [0..<length tag_strings].
      i = j \<or> \<not> prefix (tag_strings ! i) (tag_strings ! j)"
    by code_simp
  then have "i = j \<or> \<not> prefix (tag_strings ! i) (tag_strings ! j)"
    using assms(1,2) by (metis atLeast_upt lessThan_iff)
  then show ?thesis
    using assms(3) by simp
qed

lemma all_tags_append_neq:
  assumes "i < length all_tags" and "j < length all_tags" and "i \<noteq> j"
  shows "all_tags ! i @ x \<noteq> all_tags ! j @ y"
proof -
  from assms have "\<not> prefix (all_tags ! i) (all_tags ! j)" "\<not> prefix (all_tags ! j) (all_tags ! i)"
    using tag_strings_prefix_free by (auto simp: all_tags_ascii prefix_ascii)
  then show ?thesis
    using prefix_same_cases [of "all_tags ! i" _ "all_tags ! j"] by (metis prefixI)
qed

text \<open>Domain separation: no tag of the module is a prefix of another one, so two hash inputs
  that start with different tags differ, whatever bytes follow the tags.\<close>

theorem tags_prefix_free:
  "\<forall>i < length all_tags. \<forall>j < length all_tags. i \<noteq> j \<longrightarrow> all_tags ! i @ x \<noteq> all_tags ! j @ y"
  using all_tags_append_neq by blast

theorem tags_prefix_free_witness: "CHAIN_HEAD @ [1] \<noteq> CHAIN_STEP @ [2]"
proof -
  have "length all_tags = 35" and "all_tags ! 25 = CHAIN_HEAD" and "all_tags ! 26 = CHAIN_STEP"
    by (simp_all add: all_tags_def)
  then show ?thesis
    using tags_prefix_free [of "[1]" "[2]"] by force
qed

end
