(* ===== verification/Chain.thy ===== *)
theory Chain
  imports Shake Domain "HOL-Library.Sublist"
begin

text \<open>
  The tamper-evident event chain of \<^verbatim>\<open>src/src/chain.rs\<close>: the one-shot root, its
  verification, and the incremental builder. The framing puts the tag \<open>CHAIN_STEP\<close> in
  front of each event and no length, so what the root binds depends on the events not
  containing that tag; both sides of that line are stated.
\<close>

section \<open>One-shot root and verification\<close>

definition chain_root :: "xof \<Rightarrow> bytes list \<Rightarrow> bytes result" where
  "chain_root xof events =
     (if events = [] then Inl Crypto
      else (let h = update shake_new CHAIN_HEAD;
                h = fold (\<lambda>ev h. update (update h CHAIN_STEP) ev) events h
            in Inr (squeeze xof h 32)))"

definition chain_verify :: "xof \<Rightarrow> bytes list \<Rightarrow> bytes \<Rightarrow> choice" where
  "chain_verify xof events expected_root =
     (case chain_root xof events of
        Inr root \<Rightarrow> ct_eq root expected_root
      | Inl _ \<Rightarrow> Choice 0)"

section \<open>The incremental builder\<close>

record chain_state =
  cs_xof :: shake256
  cs_count :: nat

definition chain_new :: chain_state where
  "chain_new = \<lparr>cs_xof = update shake_new CHAIN_HEAD, cs_count = 0\<rparr>"

definition chain_absorb :: "chain_state \<Rightarrow> bytes \<Rightarrow> chain_state" where
  "chain_absorb s event =
     s\<lparr>cs_xof := update (update (cs_xof s) CHAIN_STEP) event, cs_count := cs_count s + 1\<rparr>"

definition chain_finalize :: "xof \<Rightarrow> chain_state \<Rightarrow> bytes result" where
  "chain_finalize xof s =
     (if cs_count s = 0 then Inl Crypto else Inr (squeeze xof (cs_xof s) 32))"

definition chain_len :: "chain_state \<Rightarrow> nat" where
  "chain_len s = cs_count s"

definition chain_is_empty :: "chain_state \<Rightarrow> bool" where
  "chain_is_empty s \<longleftrightarrow> cs_count s = 0"

definition chain_default :: chain_state where
  "chain_default = chain_new"

section \<open>The absorbed message\<close>

definition chain_message :: "bytes list \<Rightarrow> bytes" where
  "chain_message events = CHAIN_HEAD @ concat (map (\<lambda>e. CHAIN_STEP @ e) events)"

lemma buf_chain_fold:
  "buf (fold (\<lambda>ev h. update (update h CHAIN_STEP) ev) events h) =
     buf h @ concat (map (\<lambda>e. CHAIN_STEP @ e) events)"
  by (induction events arbitrary: h) simp_all

lemma chain_root_eq:
  "chain_root xof events =
     (if events = [] then Inl Crypto else Inr (shake256_ema xof 32 (chain_message events)))"
  by (simp add: chain_root_def squeeze_eq buf_chain_fold chain_message_def)

lemma chain_fold_absorb:
  "cs_count (fold (\<lambda>e s. chain_absorb s e) events s) = cs_count s + length events"
  "buf (cs_xof (fold (\<lambda>e s. chain_absorb s e) events s)) =
     buf (cs_xof s) @ concat (map (\<lambda>e. CHAIN_STEP @ e) events)"
  by (induction events arbitrary: s) (simp_all add: chain_absorb_def)

lemma cs_count_chain_new [simp]: "cs_count chain_new = 0"
  by (simp add: chain_new_def)

lemma chain_finalize_fold:
  "chain_finalize xof (fold (\<lambda>e s. chain_absorb s e) events chain_new) = chain_root xof events"
  by (simp add: chain_finalize_def chain_fold_absorb chain_root_eq squeeze_eq chain_new_def chain_message_def)

section \<open>Unique decoding of events without the tag\<close>

text \<open>\<open>CHAIN_STEP\<close> has no proper border: no proper suffix of it is also a prefix.\<close>

lemma CHAIN_STEP_unbordered:
  assumes "0 < k" and "k < length CHAIN_STEP"
  shows "drop k CHAIN_STEP \<noteq> take (length CHAIN_STEP - k) CHAIN_STEP"
proof -
  have "k \<in> set [1..<length CHAIN_STEP]" using assms by simp
  moreover have "list_all (\<lambda>k. drop k CHAIN_STEP \<noteq> take (length CHAIN_STEP - k) CHAIN_STEP)
      [1..<length CHAIN_STEP]"
    by (simp add: CHAIN_STEP_def ascii_def upt_rec_numeral)
  ultimately show ?thesis by (simp only: list_all_iff) blast
qed

text \<open>A string without the tag, followed by the tag, is determined by what it starts.\<close>

lemma tag_free_split:
  assumes "a @ CHAIN_STEP @ x = b @ CHAIN_STEP @ y"
    and "\<not> sublist CHAIN_STEP a" and "\<not> sublist CHAIN_STEP b"
  shows "a = b"
proof -
  have False if eq: "a @ CHAIN_STEP @ x = b @ CHAIN_STEP @ y" and lt: "length a < length b"
    and free: "\<not> sublist CHAIN_STEP b" for a b x y :: bytes
  proof -
    have "take (length a) (a @ CHAIN_STEP @ x) = take (length a) (b @ CHAIN_STEP @ y)" using eq by simp
    with lt have "a = take (length a) b" by simp
    then obtain d where b: "b = a @ d" by (metis append_take_drop_id)
    with eq lt have d: "CHAIN_STEP @ x = d @ CHAIN_STEP @ y" "d \<noteq> []" by auto
    show False
    proof (cases "length CHAIN_STEP \<le> length d")
      case True
      have "take (length CHAIN_STEP) (d @ CHAIN_STEP @ y) = CHAIN_STEP" using d(1) by (metis append_eq_conv_conj)
      with True obtain e where "d = CHAIN_STEP @ e" by simp (metis append_take_drop_id)
      with b free show False by (auto simp: sublist_def)
    next
      case False
      with d(1) have pre: "d = take (length d) CHAIN_STEP"
        by (metis append_eq_append_conv_if append_take_drop_id less_or_eq_imp_le linorder_not_less)
      with d(1) False have "drop (length d) CHAIN_STEP @ x = CHAIN_STEP @ y"
        by (metis append.assoc append_take_drop_id same_append_eq)
      then have "drop (length d) CHAIN_STEP = take (length CHAIN_STEP - length d) CHAIN_STEP"
        by (metis append_eq_conv_conj length_drop take_append diff_is_0_eq' diff_le_self append_Nil2 take0)
      with False d(2) CHAIN_STEP_unbordered [of "length d"] show False by simp
    qed
  qed
  from this [OF assms(1) _ assms(3)] this [OF assms(1) [symmetric] _ assms(2)] assms(1)
  show ?thesis by (metis append_eq_append_conv linorder_neqE_nat)
qed

definition tag_free :: "bytes \<Rightarrow> bool" where
  "tag_free e \<longleftrightarrow> \<not> sublist CHAIN_STEP e"

lemma steps_inj:
  assumes "list_all tag_free es" and "list_all tag_free fs"
    and "concat (map (\<lambda>e. CHAIN_STEP @ e) es) = concat (map (\<lambda>e. CHAIN_STEP @ e) fs)"
  shows "es = fs"
  using assms
proof (induction es arbitrary: fs)
  case Nil
  then show ?case by (cases fs) (simp_all add: CHAIN_STEP_def ascii_def)
next
  case (Cons e es)
  from Cons.prems(3) obtain f fs' where fs: "fs = f # fs'"
    by (cases fs) (simp_all add: CHAIN_STEP_def ascii_def)
  let ?c = "\<lambda>es. concat (map (\<lambda>e. CHAIN_STEP @ e) es)"
  from Cons.prems fs have eq: "e @ ?c es = f @ ?c fs'" and free: "tag_free e" "tag_free f" by simp_all
  have "e = f"
  proof (cases es; cases fs')
    fix g gs g' gs' assume "es = g # gs" and "fs' = g' # gs'"
    with eq free show ?thesis by (auto simp: tag_free_def dest: tag_free_split)
  next
    fix g gs assume "es = g # gs" and "fs' = []"
    with eq have "f = e @ CHAIN_STEP @ g @ ?c gs" by simp
    with free show ?thesis by (auto simp: tag_free_def sublist_def)
  next
    fix g gs assume "es = []" and "fs' = g # gs"
    with eq have "e = f @ CHAIN_STEP @ g @ ?c gs" by simp
    with free show ?thesis by (auto simp: tag_free_def sublist_def)
  qed (use eq in simp)
  with Cons.IH [of fs'] Cons.prems fs eq show ?case by simp
qed

section \<open>Properties\<close>

text \<open>The incremental builder computes the one-shot root: absorbing the events one
  by one and finalising gives what \<open>chain_root\<close> gives on the whole slice, the error on no
  events included, and \<open>len\<close> counts the events.\<close>

theorem chain_state_equiv:
  "chain_finalize xof (fold (\<lambda>e s. chain_absorb s e) events chain_new) = chain_root xof events \<and>
   chain_len (fold (\<lambda>e s. chain_absorb s e) events chain_new) = length events"
  by (simp add: chain_finalize_fold chain_fold_absorb(1) chain_len_def)

text \<open>C21. Tamper evidence: for logs whose events do not contain the step tag, a root
  published for one log verifies for another one only if the two logs are identical in
  content, number and order of events (no hash collision among the two absorbed strings).\<close>

theorem chain_tamper_evident:
  assumes "list_all tag_free events" and "list_all tag_free events'"
    and "collision_free xof 32 {chain_message events, chain_message events'}"
    and "chain_root xof events = Inr root" and "is_true (chain_verify xof events' root)"
  shows "events' = events"
proof -
  from assms(4,5) have "shake256_ema xof 32 (chain_message events') = shake256_ema xof 32 (chain_message events)"
    by (auto simp: chain_verify_def chain_root_eq is_true_Choice_0 split: if_splits)
  with assms(3) have "chain_message events' = chain_message events"
    by (auto dest: collision_freeD)
  with assms(1,2) show ?thesis by (auto simp: chain_message_def dest: steps_inj)
qed

theorem chain_tamper_evident_witness:
  "\<not> is_true (chain_verify (\<lambda>m i. of_nat (length m)) [[1], [2, 3]]
       (shake256_ema (\<lambda>m i. of_nat (length m)) 32 (chain_message [[1], [2]])))"
proof -
  let ?xof = "(\<lambda>m i. of_nat (length m)) :: xof"
  have "collision_free ?xof 32 {chain_message [[1], [2]], chain_message [[1], [2, 3]]}"
    by (rule collision_free_pairI [of 0]) (simp_all add: chain_message_def CHAIN_HEAD_def CHAIN_STEP_def)
  moreover have "tag_free e" if "length e < 19" for e
    using that by (auto simp: tag_free_def CHAIN_STEP_def dest: sublist_length_le)
  ultimately show ?thesis
    using chain_tamper_evident [of "[[1], [2]]" "[[1], [2, 3]]" ?xof]
    by (auto simp: chain_root_eq)
qed

text \<open>The framing is not injective on arbitrary events: merging two neighbouring
  events around a literal step tag leaves the root unchanged, for every hash function.\<close>

theorem chain_root_merge:
  "chain_root xof (pre @ [a, b] @ post) = chain_root xof (pre @ [a @ CHAIN_STEP @ b] @ post)"
  by (simp add: chain_root_eq chain_message_def)

end
