(* ===== verification/Transcript.thy ===== *)
theory Transcript
  imports Shake Domain
begin

text \<open>
  The Fiat-Shamir transcript of \<^verbatim>\<open>src/src/common/transcript.rs\<close>: a 64-byte state,
  \<open>new\<close>, \<open>absorb\<close>, \<open>challenge\<close> and the length framing. The interface the framing
  provides to every hash input built from it is the locale \<open>prefix_code\<close> of the
  prelude; the history binding of the transcript is proved from its lemmas.
\<close>

definition STATE_LEN :: nat where "STATE_LEN = 64"

text \<open>\<open>framed\<close>: eight bytes of length, then the bytes.\<close>

definition framed :: "shake256 \<Rightarrow> bytes \<Rightarrow> shake256" where
  "framed xf bs = update (update xf (usize_le (length bs))) bs"

record transcript =
  ts_state :: bytes

definition transcript_new :: "xof \<Rightarrow> bytes \<Rightarrow> transcript" where
  "transcript_new xof protocol_label =
     (let h = update shake_new FS_PROTOCOL;
          h = framed h protocol_label
      in \<lparr>ts_state = squeeze xof h STATE_LEN\<rparr>)"

definition absorb :: "xof \<Rightarrow> transcript \<Rightarrow> bytes \<Rightarrow> bytes \<Rightarrow> transcript" where
  "absorb xof t label data =
     (let h = update shake_new FS_ABSORB;
          h = update h (ts_state t);
          h = framed h label;
          h = framed h data
      in t\<lparr>ts_state := squeeze xof h STATE_LEN\<rparr>)"

text \<open>\<open>challenge(label, out)\<close> with \<open>out.len() = n\<close>: the bytes written and the new state.\<close>

definition challenge :: "xof \<Rightarrow> transcript \<Rightarrow> bytes \<Rightarrow> nat \<Rightarrow> bytes \<times> transcript" where
  "challenge xof t label n =
     (let h = update shake_new FS_SQUEEZE;
          h = update h (ts_state t);
          h = framed h label;
          h = update h (usize_le n);
          out = squeeze xof h n;
          h2 = update shake_new FS_POST_CHALLENGE;
          h2 = update h2 (ts_state t);
          h2 = framed h2 label;
          h2 = framed h2 out
      in (out, t\<lparr>ts_state := squeeze xof h2 STATE_LEN\<rparr>))"

definition challenge_array :: "xof \<Rightarrow> transcript \<Rightarrow> nat \<Rightarrow> bytes \<Rightarrow> bytes \<times> transcript" where
  "challenge_array xof t n label = challenge xof t label n"

section \<open>Framing is a prefix code\<close>

definition frame :: "bytes \<Rightarrow> bytes" where
  "frame bs = usize_le (length bs) @ bs"

definition framable :: "bytes \<Rightarrow> bool" where
  "framable bs \<longleftrightarrow> length bs < 2 ^ 64"

lemma buf_framed [simp]: "buf (framed h bs) = buf h @ frame bs"
  by (simp add: framed_def frame_def)

interpretation framing: prefix_code frame framable
proof unfold_locales
  fix a b xs ys
  assume ok: "framable a" "framable b" and eq: "frame a @ xs = frame b @ ys"
  from eq have "usize_le (length a) = usize_le (length b)" and rest: "a @ xs = b @ ys"
    by (simp_all add: frame_def append_eq_append_conv)
  with ok have "length a = length b" by (simp add: usize_le_inj framable_def)
  with rest show "a = b" by simp
next
  fix a show "frame a \<noteq> []" by (simp add: frame_def flip: length_greater_0_conv)
qed

section \<open>Histories\<close>

text \<open>A use of a transcript: the calls made on it, in order.\<close>

datatype fs_op = Absorb bytes bytes | Challenge bytes nat

fun fs_step :: "xof \<Rightarrow> fs_op \<Rightarrow> transcript \<Rightarrow> transcript" where
  "fs_step xof (Absorb l d) t = absorb xof t l d"
| "fs_step xof (Challenge l n) t = snd (challenge xof t l n)"

definition fs_run :: "xof \<Rightarrow> bytes \<Rightarrow> fs_op list \<Rightarrow> transcript" where
  "fs_run xof label ops = fold (fs_step xof) ops (transcript_new xof label)"

fun fs_op_ok :: "fs_op \<Rightarrow> bool" where
  "fs_op_ok (Absorb l d) \<longleftrightarrow> framable l \<and> framable d"
| "fs_op_ok (Challenge l n) \<longleftrightarrow> framable l \<and> n < 2 ^ 64"

text \<open>The byte strings hashed into the state, and the one a challenge is squeezed from.\<close>

definition squeeze_message :: "bytes \<Rightarrow> bytes \<Rightarrow> nat \<Rightarrow> bytes" where
  "squeeze_message st l n = FS_SQUEEZE @ st @ frame l @ usize_le n"

fun fs_message :: "xof \<Rightarrow> bytes \<Rightarrow> fs_op \<Rightarrow> bytes" where
  "fs_message xof st (Absorb l d) = FS_ABSORB @ st @ frame l @ frame d"
| "fs_message xof st (Challenge l n) =
     FS_POST_CHALLENGE @ st @ frame l @
       frame (squeeze xof \<lparr>buf = squeeze_message st l n\<rparr> n)"

definition init_message :: "bytes \<Rightarrow> bytes" where
  "init_message label = FS_PROTOCOL @ frame label"

fun fs_messages :: "xof \<Rightarrow> transcript \<Rightarrow> fs_op list \<Rightarrow> bytes list" where
  "fs_messages xof t [] = []"
| "fs_messages xof t (p # ps) = fs_message xof (ts_state t) p # fs_messages xof (fs_step xof p t) ps"

definition history_messages :: "xof \<Rightarrow> bytes \<Rightarrow> fs_op list \<Rightarrow> bytes set" where
  "history_messages xof label ops =
     insert (init_message label) (set (fs_messages xof (transcript_new xof label) ops))"

lemma state_new: "ts_state (transcript_new xof label) = shake256_ema xof 64 (init_message label)"
  by (simp add: transcript_new_def STATE_LEN_def squeeze_eq init_message_def)

lemma squeeze_cong: "buf g = buf h \<Longrightarrow> squeeze xof g n = squeeze xof h n"
  by (simp add: squeeze_def finalize_xof_def)

lemma state_step: "ts_state (fs_step xof p t) = shake256_ema xof 64 (fs_message xof (ts_state t) p)"
  by (cases p)
     (simp_all add: absorb_def challenge_def Let_def STATE_LEN_def squeeze_eq squeeze_message_def
       update_def shake_new_def framed_def frame_def)

lemma fs_messages_snoc:
  "fs_messages xof t (ps @ [p]) =
     fs_messages xof t ps @ [fs_message xof (ts_state (fold (fs_step xof) ps t)) p]"
  by (induction ps arbitrary: t) simp_all

lemma fs_run_Nil: "ts_state (fs_run xof label []) = shake256_ema xof 64 (init_message label)"
  by (simp add: fs_run_def state_new)

lemma fs_run_snoc:
  "ts_state (fs_run xof label (ps @ [p])) =
     shake256_ema xof 64 (fs_message xof (ts_state (fs_run xof label ps)) p)"
  by (simp add: fs_run_def state_step)

lemma history_snoc:
  "history_messages xof label (ps @ [p]) =
     insert (fs_message xof (ts_state (fs_run xof label ps)) p) (history_messages xof label ps)"
  by (auto simp: history_messages_def fs_messages_snoc fs_run_def)

lemma init_in_history [simp]: "init_message label \<in> history_messages xof label ps"
  by (simp add: history_messages_def)

lemma length_fs_run [simp]: "length (ts_state (fs_run xof label ps)) = 64"
  by (cases ps rule: rev_cases) (simp_all add: fs_run_Nil fs_run_snoc)

lemma fs_message_inj:
  assumes "fs_message xof st p = fs_message xof st' p'" and "fs_op_ok p" and "fs_op_ok p'"
    and "length st = length st'"
  shows "st = st' \<and> p = p'"
proof (cases p)
  case (Absorb l d)
  with assms obtain l' d' where "p' = Absorb l' d'" by (cases p') auto
  with Absorb assms show ?thesis
    by (auto dest: framing.enc_split framing.enc_inj)
next
  case (Challenge l n)
  with assms obtain l' n' where p': "p' = Challenge l' n'" by (cases p') auto
  with Challenge assms have st: "st = st'" and
    eq: "frame l @ frame (squeeze xof \<lparr>buf = squeeze_message st l n\<rparr> n) =
         frame l' @ frame (squeeze xof \<lparr>buf = squeeze_message st' l' n'\<rparr> n')" by auto
  from eq Challenge p' assms have "l = l'" by (auto dest: framing.enc_prefix)
  with eq have "frame (squeeze xof \<lparr>buf = squeeze_message st l n\<rparr> n) =
         frame (squeeze xof \<lparr>buf = squeeze_message st' l' n'\<rparr> n')" by simp
  then have "length (frame (squeeze xof \<lparr>buf = squeeze_message st l n\<rparr> n)) =
         length (frame (squeeze xof \<lparr>buf = squeeze_message st' l' n'\<rparr> n'))" by simp
  then have "n = n'" by (simp add: frame_def)
  with st \<open>l = l'\<close> Challenge p' show ?thesis by simp
qed

lemma fs_message_tag:
  "fs_message xof st p \<noteq> init_message label" "init_message label \<noteq> fs_message xof st p"
  by (cases p; simp add: init_message_def)+

lemma state_binds_history:
  assumes "list_all fs_op_ok ps" and "list_all fs_op_ok ps'" and "framable l" and "framable l'"
    and "collision_free xof 64 (history_messages xof l ps \<union> history_messages xof l' ps')"
    and "ts_state (fs_run xof l ps) = ts_state (fs_run xof l' ps')"
  shows "l = l' \<and> ps = ps'"
  using assms
proof (induction ps arbitrary: ps' rule: rev_induct)
  case Nil
  show ?case
  proof (cases ps' rule: rev_cases)
    case snoc: (snoc qs q)
    with Nil.prems(6) show ?thesis
      using collision_freeD [OF Nil.prems(5), of "init_message l"
          "fs_message xof (ts_state (fs_run xof l' qs)) q"]
      by (simp add: fs_run_Nil fs_run_snoc history_snoc fs_message_tag)
  next
    case empty: Nil
    with Nil.prems(6) have "init_message l = init_message l'"
      using collision_freeD [OF Nil.prems(5), of "init_message l" "init_message l'"]
      by (simp add: fs_run_Nil)
    with Nil.prems empty show ?thesis
      by (simp add: init_message_def framing.enc_inj)
  qed
next
  case (snoc p ps)
  let ?m = "fs_message xof (ts_state (fs_run xof l ps)) p"
  show ?case
  proof (cases ps' rule: rev_cases)
    case Nil
    with snoc.prems(6) collision_freeD [OF snoc.prems(5), of ?m "init_message l'"]
    have "?m = init_message l'"
      by (simp add: fs_run_Nil fs_run_snoc history_snoc)
    then show ?thesis by (simp add: fs_message_tag)
  next
    case snoc': (snoc qs q)
    let ?m' = "fs_message xof (ts_state (fs_run xof l' qs)) q"
    have "?m = ?m'"
      using collision_freeD [OF snoc.prems(5), of ?m ?m'] snoc.prems(6) snoc'
      by (simp add: fs_run_snoc history_snoc)
    then have "ts_state (fs_run xof l ps) = ts_state (fs_run xof l' qs) \<and> p = q"
      using snoc.prems snoc' by (intro fs_message_inj) simp_all
    moreover have "collision_free xof 64 (history_messages xof l ps \<union> history_messages xof l' qs)"
      using snoc.prems(5) snoc' by (auto simp: history_snoc elim: collision_free_mono)
    ultimately show ?thesis using snoc.IH [of qs] snoc.prems snoc' by simp
  qed
qed

section \<open>Properties\<close>

text \<open>C5. A challenge is bound to the whole history: if two transcripts, whatever was
  absorbed into and squeezed from them, give the same challenge bytes, then they were
  started under the same protocol label and went through the same calls with the same
  arguments in the same order, as long as the hash does not collide on the strings the two
  histories hash. Length framing rules out concatenation ambiguity.\<close>

theorem challenge_binds_history:
  assumes "list_all fs_op_ok ps" and "list_all fs_op_ok ps'" and "framable l" and "framable l'"
    and "framable c" and "framable c'" and "n \<le> 256"
    and "collision_free xof 64 (history_messages xof l ps \<union> history_messages xof l' ps')"
    and "collision_free xof n {squeeze_message (ts_state (fs_run xof l ps)) c n,
                               squeeze_message (ts_state (fs_run xof l' ps')) c' n}"
    and "fst (challenge xof (fs_run xof l ps) c n) = fst (challenge xof (fs_run xof l' ps') c' n)"
  shows "l = l' \<and> ps = ps' \<and> c = c'"
proof -
  have "fst (challenge xof t d n) = shake256_ema xof n (squeeze_message (ts_state t) d n)" for t d
    using assms(7) by (simp add: challenge_def Let_def squeeze_eq squeeze_message_def)
  with assms(9,10) have "squeeze_message (ts_state (fs_run xof l ps)) c n =
      squeeze_message (ts_state (fs_run xof l' ps')) c' n"
    by (auto dest: collision_freeD)
  then have "ts_state (fs_run xof l ps) = ts_state (fs_run xof l' ps')" and
    "frame c @ usize_le n = frame c' @ usize_le n"
    by (simp_all add: squeeze_message_def append_eq_append_conv)
  with state_binds_history assms show ?thesis by simp (metis framing.enc_prefix)
qed

text \<open>Two histories that differ in what they absorbed, under a hash that reads its message at one
  place and its length.\<close>

theorem challenge_binds_history_witness:
  "let xof = (\<lambda>m i. m ! length FS_SQUEEZE + of_nat (length m))
   in fst (challenge xof (fs_run xof [7] [Absorb [1] [2]]) [] 4) \<noteq>
      fst (challenge xof (fs_run xof [7] [Absorb [1] [2, 3]]) [] 4)"
proof -
  define xof :: xof where "xof = (\<lambda>m i. m ! length FS_SQUEEZE + of_nat (length m))"
  have e: "shake256_ema xof n m = replicate n (m ! length FS_SQUEEZE + of_nat (length m))" for n m
    by (simp add: shake256_ema_def xof_def map_replicate_const)
  let ?st = "shake256_ema xof 64 (init_message [7])"
  let ?m = "\<lambda>d. FS_ABSORB @ ?st @ frame [1] @ frame d"
  have st: "ts_state (fs_run xof [7] [Absorb [1] d]) = shake256_ema xof 64 (?m d)" for d
    by (simp add: fs_run_def absorb_def state_new squeeze_eq frame_def framed_def STATE_LEN_def Let_def)
  have hist: "history_messages xof [7] [Absorb [1] d] = {init_message [7], ?m d}" for d
    by (simp add: history_messages_def state_new)
  have len: "length (init_message [7]) = 29" "length (?m [2]) = 100" "length (?m [2, 3]) = 101"
    by (simp_all add: init_message_def frame_def e FS_PROTOCOL_def FS_ABSORB_def)
  have i7: "init_message [7] ! length FS_SQUEEZE = 49"
    by (simp add: init_message_def frame_def nth_append FS_PROTOCOL_def FS_SQUEEZE_def ascii_def)
  have st78: "?st = replicate 64 78" by (simp add: e i7 len)
  have m78: "?m d ! length FS_SQUEEZE = 78" for d
    by (simp add: nth_append FS_SQUEEZE_def FS_ABSORB_def st78)
  have v: "shake256_ema xof 64 m = replicate 64 (x + of_nat n)" if "m ! length FS_SQUEEZE = x" "length m = n" for m x n
    using that by (simp add: e)
  have vals: "shake256_ema xof 64 (init_message [7]) = replicate 64 78"
    "shake256_ema xof 64 (?m [2]) = replicate 64 178" "shake256_ema xof 64 (?m [2, 3]) = replicate 64 179"
    using v [OF i7 len(1)] v [OF m78 len(2)] v [OF m78 len(3)] by simp_all
  have three: "inj_on f {a, b, c}" if "f a \<noteq> f b" "f a \<noteq> f c" "f b \<noteq> f c" for f :: "bytes \<Rightarrow> bytes" and a b c
    using that by (auto simp: inj_on_def)
  have "inj_on (shake256_ema xof 64) {x, y, z}"
    if "shake256_ema xof 64 x = replicate 64 78" "shake256_ema xof 64 y = replicate 64 178"
      "shake256_ema xof 64 z = replicate 64 179" for x y z
    using that by (intro three) simp_all
  from this [OF vals]
  have h: "collision_free xof 64 ({init_message [7], ?m [2]} \<union> {init_message [7], ?m [2, 3]})"
    unfolding collision_free_def by (rule inj_on_subset) blast
  have s: "collision_free xof 4 {squeeze_message (shake256_ema xof 64 (?m [2])) [] 4, squeeze_message (shake256_ema xof 64 (?m [2, 3])) [] 4}"
    unfolding vals(2,3) by (rule collision_free_pairI [of 0]) (simp_all add: squeeze_message_def nth_append xof_def)
  have "fst (challenge xof (fs_run xof [7] [Absorb [1] [2]]) [] 4) \<noteq> fst (challenge xof (fs_run xof [7] [Absorb [1] [2, 3]]) [] 4)"
    using challenge_binds_history [of "[Absorb [1] [2]]" "[Absorb [1] [2, 3]]" "[7]" "[7]" "[]" "[]" 4 xof] h s
    by (auto simp: framable_def hist st)
  then show ?thesis unfolding Let_def xof_def .
qed

end
