(* ===== verification/Relations.thy ===== *)
theory Relations
  imports Transcript
begin

text \<open>
  The trait \<open>Relation\<close> of \<^verbatim>\<open>src/src/relations/mod.rs\<close>, as a record of its
  operations over the types of witnesses, statements and proofs, and the contract the
  relations promise to the generic pipeline as the locale \<open>relation_scheme\<close>. The
  verifier of one relation can panic on a malformed statement, so verification has an
  \<open>outcome\<close>.
\<close>

record ('w, 's, 'p) relation =
  protocol_label :: bytes
  statement_from_witness :: "'w \<Rightarrow> 's"
  bind_statement :: "'s \<Rightarrow> transcript \<Rightarrow> transcript"
  prove :: "'w \<Rightarrow> bytes \<Rightarrow> ('s \<times> 'p) result"
  verify :: "'s \<Rightarrow> 'p \<Rightarrow> choice result outcome"

text \<open>
  The contract. \<open>holds\<close> says for which witnesses the relation is satisfied. An honest
  proof is for the statement derived from the witness, does not depend on the entropy
  passed in, is accepted exactly when the relation holds of the witness, and a verifier
  that answers gives a proper bit.
\<close>

locale relation_scheme =
  fixes R :: "('w, 's, 'p) relation" and holds :: "'w \<Rightarrow> bool"
  assumes prove_statement: "prove R w e = Inr (s, p) \<Longrightarrow> s = statement_from_witness R w"
    and prove_entropy: "prove R w e = prove R w e'"
    and prove_holds: "holds w \<Longrightarrow> \<exists>p. prove R w e = Inr (statement_from_witness R w, p)"
    and complete: "holds w \<Longrightarrow> prove R w e = Inr (s, p) \<Longrightarrow> verify R s p = Done (Inr (choice_of True))"
    and verify_bit: "verify R s p = Done (Inr c) \<Longrightarrow> choice_wf c"
begin

lemma honest_run:
  assumes "holds w"
  obtains p where "\<And>e. prove R w e = Inr (statement_from_witness R w, p)"
    and "verify R (statement_from_witness R w) p = Done (Inr (choice_of True))"
proof -
  from prove_holds [OF assms] obtain p where p: "prove R w [] = Inr (statement_from_witness R w, p)"
    by blast
  then have "prove R w e = Inr (statement_from_witness R w, p)" for e
    using prove_entropy [of w e "[]"] by simp
  then show thesis using complete [OF assms p] by (rule that)
qed

end

end
