(* ===== verification/Merkle.thy ===== *)
theory Merkle
  imports Relations
begin

text \<open>
  The Merkle inclusion relation of \<^verbatim>\<open>src/src/relations/merkle.rs\<close>: tagged leaf and
  node hashes, the level reduction that promotes a lone trailing node, the authentication
  path, the two verifiers and the root helper. Paths are shown complete, and sound both
  for the claimed position (when the leaf count is right) and for membership (whatever
  index and leaf count the proof claims).
\<close>

section \<open>Data\<close>

record merkle_statement =
  ms_root :: bytes
  ms_leaf :: bytes

record merkle_witness =
  mw_leaves :: "bytes list"
  mw_index :: nat

record merkle_proof =
  mp_siblings :: "bytes list"
  mp_index :: nat
  mp_leaf_count :: nat

definition merkle_witness_drop :: "merkle_witness \<Rightarrow> merkle_witness" where
  "merkle_witness_drop w = w\<lparr>mw_leaves := map (\<lambda>l. zeros (length l)) (mw_leaves w)\<rparr>"

definition merkle_proof_drop :: "merkle_proof \<Rightarrow> merkle_proof" where
  "merkle_proof_drop p = p\<lparr>mp_siblings := map (\<lambda>l. zeros (length l)) (mp_siblings p)\<rparr>"

section \<open>Hashing\<close>

definition merkle_h32 :: "xof \<Rightarrow> bytes list \<Rightarrow> bytes" where
  "merkle_h32 xof parts = squeeze xof (updates shake_new parts) 32"

definition leaf_hash :: "xof \<Rightarrow> bytes \<Rightarrow> bytes" where
  "leaf_hash xof data = merkle_h32 xof [MERKLE_LEAF, data]"

definition node_hash :: "xof \<Rightarrow> bytes \<Rightarrow> bytes \<Rightarrow> bytes" where
  "node_hash xof l r = merkle_h32 xof [MERKLE_NODE, l, r]"

definition base_level :: "xof \<Rightarrow> bytes list \<Rightarrow> bytes list" where
  "base_level xof leaves = map (leaf_hash xof) leaves"

section \<open>Root and path\<close>

text \<open>The inner \<open>while i < n\<close> loop: pair up neighbours, promote a lone trailing node.\<close>

fun next_level :: "xof \<Rightarrow> bytes list \<Rightarrow> bytes list" where
  "next_level xof (a # b # rest) = node_hash xof a b # next_level xof rest"
| "next_level xof [a] = [a]"
| "next_level xof [] = []"

lemma length_next_level [simp]: "length (next_level xof level) = (length level + 1) div 2"
  by (induction level rule: next_level.induct) simp_all

text \<open>The sibling recorded at one level.\<close>

definition level_sibling :: "bytes list \<Rightarrow> nat \<Rightarrow> bytes list" where
  "level_sibling level idx =
     (let n = length level in
      if idx = n - 1 \<and> n mod 2 = 1 then []
      else if idx mod 2 = 0 then [level ! (idx + 1)]
      else [level ! (idx - 1)])"

function root_and_path :: "xof \<Rightarrow> bytes list \<Rightarrow> nat \<Rightarrow> bytes \<times> bytes list" where
  "root_and_path xof level idx =
     (if 1 < length level then
        (let (root, path) = root_and_path xof (next_level xof level) (idx div 2)
         in (root, level_sibling level idx @ path))
      else (if level = [] then zeros 32 else level ! 0, []))"
  by pat_completeness auto
termination by (relation "measure (\<lambda>(x, level, i). length level)") auto

declare root_and_path.simps [simp del]

section \<open>The relation\<close>

definition merkle_label :: bytes where
  "merkle_label = ascii ''veil7:relation:merkle-inclusion:v1''"

definition merkle_statement_from_witness :: "xof \<Rightarrow> merkle_witness \<Rightarrow> merkle_statement" where
  "merkle_statement_from_witness xof w =
     (let base = base_level xof (mw_leaves w) in
      if base = [] \<or> length base \<le> mw_index w then \<lparr>ms_root = zeros 32, ms_leaf = zeros 32\<rparr>
      else \<lparr>ms_root = fst (root_and_path xof base (mw_index w)), ms_leaf = base ! mw_index w\<rparr>)"

definition merkle_bind_statement :: "xof \<Rightarrow> merkle_statement \<Rightarrow> transcript \<Rightarrow> transcript" where
  "merkle_bind_statement xof stmt t =
     (let t = absorb xof t (ascii ''merkle:root'') (ms_root stmt)
      in absorb xof t (ascii ''merkle:leaf'') (ms_leaf stmt))"

definition merkle_prove :: "xof \<Rightarrow> merkle_witness \<Rightarrow> bytes \<Rightarrow> (merkle_statement \<times> merkle_proof) result" where
  "merkle_prove xof w entropy =
     (let base = base_level xof (mw_leaves w) in
      if base = [] \<or> length base \<le> mw_index w then Inl Crypto
      else (let leaf = base ! mw_index w;
                (root, siblings) = root_and_path xof base (mw_index w)
            in Inr (\<lparr>ms_root = root, ms_leaf = leaf\<rparr>,
                    \<lparr>mp_siblings = siblings, mp_index = mw_index w, mp_leaf_count = length base\<rparr>)))"

text \<open>
  The \<open>while n > 1\<close> loop of both verifiers: the hash, the number of siblings used and
  whether the path was long enough.
\<close>

function merkle_walk :: "xof \<Rightarrow> bytes list \<Rightarrow> bytes \<Rightarrow> nat \<Rightarrow> nat \<Rightarrow> nat \<Rightarrow> bytes \<times> nat \<times> choice" where
  "merkle_walk xof siblings hash idx n used =
     (if 1 < n then
        (if idx = n - 1 \<and> n mod 2 = 1 then
           merkle_walk xof siblings hash (idx div 2) ((n + 1) div 2) used
         else if used < length siblings then
           merkle_walk xof siblings
             (if idx mod 2 = 0 then node_hash xof hash (siblings ! used)
              else node_hash xof (siblings ! used) hash)
             (idx div 2) ((n + 1) div 2) (used + 1)
         else (hash, used, Choice 0))
      else (hash, used, Choice 1))"
  by pat_completeness auto
termination by (relation "measure (\<lambda>(x, s, h, i, n, u). n)") auto

declare merkle_walk.simps [simp del]

definition merkle_verify :: "xof \<Rightarrow> merkle_statement \<Rightarrow> merkle_proof \<Rightarrow> choice result outcome" where
  "merkle_verify xof stmt proof =
     (if mp_leaf_count proof = 0 \<or> mp_leaf_count proof \<le> mp_index proof then Done (Inr (Choice 0))
      else (let (hash, used, ok) =
                  merkle_walk xof (mp_siblings proof) (ms_leaf stmt) (mp_index proof) (mp_leaf_count proof) 0;
                ok = (if used \<noteq> length (mp_siblings proof) then Choice 0 else ok)
            in Done (Inr (choice_and ok (ct_eq hash (ms_root stmt))))))"

definition merkle_relation :: "xof \<Rightarrow> (merkle_witness, merkle_statement, merkle_proof) relation" where
  "merkle_relation xof =
     \<lparr>protocol_label = merkle_label,
      statement_from_witness = merkle_statement_from_witness xof,
      bind_statement = merkle_bind_statement xof,
      prove = merkle_prove xof,
      verify = merkle_verify xof\<rparr>"

section \<open>The standalone helpers\<close>

definition merkle_root :: "xof \<Rightarrow> bytes list \<Rightarrow> bytes result" where
  "merkle_root xof leaves =
     (if leaves = [] then Inl Crypto
      else (let base = map (leaf_hash xof) leaves in Inr (fst (root_and_path xof base 0))))"

definition merkle_verify_path :: "xof \<Rightarrow> bytes \<Rightarrow> bytes \<Rightarrow> nat \<Rightarrow> bytes list \<Rightarrow> nat \<Rightarrow> choice" where
  "merkle_verify_path xof leaf root index siblings leaf_count =
     (if leaf_count = 0 \<or> leaf_count \<le> index then Choice 0
      else (let (hash, used, ok) = merkle_walk xof siblings leaf index leaf_count 0;
                ok = (if used \<noteq> length siblings then Choice 0 else ok)
            in choice_and ok (ct_eq hash root)))"

section \<open>Lengths, messages and levels\<close>

definition leaf_message :: "bytes \<Rightarrow> bytes" where
  "leaf_message d = MERKLE_LEAF @ d"

definition node_message :: "bytes \<Rightarrow> bytes \<Rightarrow> bytes" where
  "node_message l r = MERKLE_NODE @ l @ r"

lemma leaf_hash_eq: "leaf_hash xof d = shake256_ema xof 32 (leaf_message d)"
  by (simp add: leaf_hash_def merkle_h32_def squeeze_eq leaf_message_def)

lemma node_hash_eq: "node_hash xof l r = shake256_ema xof 32 (node_message l r)"
  by (simp add: node_hash_def merkle_h32_def squeeze_eq node_message_def)

lemma length_node_hash [simp, len_simps]: "length (node_hash xof l r) = 32"
  by (simp add: node_hash_eq)

lemma message_eqs [simp]:
  "leaf_message d = leaf_message e \<longleftrightarrow> d = e"
  "leaf_message d \<noteq> node_message l r" "node_message l r \<noteq> leaf_message d"
  by (simp_all add: leaf_message_def node_message_def)

lemma node_message_inj:
  "length l = length l' \<Longrightarrow> node_message l r = node_message l' r' \<longleftrightarrow> l = l' \<and> r = r'"
  by (simp add: node_message_def)

lemma nth_next_level:
  "idx < length level \<Longrightarrow> next_level xof level ! (idx div 2) =
     (if idx = length level - 1 \<and> length level mod 2 = 1 then level ! idx
      else if idx mod 2 = 0 then node_hash xof (level ! idx) (level ! (idx + 1))
      else node_hash xof (level ! (idx - 1)) (level ! idx))"
proof (induction level arbitrary: idx rule: next_level.induct)
  case (1 xof a b rest)
  show ?case
  proof (cases "idx < 2")
    case True
    then have "idx = 0 \<or> idx = 1" by auto
    then show ?thesis by (auto)
  next
    case False
    then obtain j where j: "idx = Suc (Suc j)" by (metis add_2_eq_Suc le_add_diff_inverse linorder_not_less)
    with "1.prems" have "j < length rest" by simp
    moreover have "Suc (Suc j) div 2 = Suc (j div 2)" "Suc (Suc j) mod 2 = j mod 2"
      "length (a # b # rest) mod 2 = length rest mod 2" by simp_all
    moreover have "(b # rest) ! j = rest ! (j - 1)" if "j mod 2 \<noteq> 0"
      using that by (cases j) simp_all
    moreover have "(b # rest) ! length rest = rest ! (length rest - 1)" if "j < length rest"
      using that by (cases rest) simp_all
    ultimately show ?thesis
      unfolding j using "1.IH" [of j] by auto
  qed
qed auto

section \<open>Completeness\<close>

lemma div2_lt: "idx < n \<Longrightarrow> idx div 2 < (n + 1) div (2 :: nat)"
  by auto

lemma walk_path:
  assumes "idx < length level" and "root_and_path xof level idx = (root, path)"
  shows "merkle_walk xof (pre @ path) (level ! idx) idx (length level) (length pre) =
    (root, length pre + length path, Choice 1)"
  using assms
proof (induction xof level idx arbitrary: root path pre rule: root_and_path.induct)
  case (1 xof level idx)
  show ?case
  proof (cases "1 < length level")
    case False
    with "1.prems" have "idx = 0" "root = level ! 0" "path = []"
      by (auto simp: root_and_path.simps split: if_splits)
    with False show ?thesis by (simp add: merkle_walk.simps)
  next
    case True
    obtain path' where r: "root_and_path xof (next_level xof level) (idx div 2) = (root, path')"
      and path: "path = level_sibling level idx @ path'"
      using "1.prems" True by (auto simp: root_and_path.simps [of xof level] split: prod.splits)
    note IH = "1.IH" [OF True _ r, simplified, of "pre @ level_sibling level idx"]
    show ?thesis
      using True IH "1.prems"(1) path
      by (auto simp: merkle_walk.simps [of xof _ _ idx] nth_next_level level_sibling_def Let_def nth_append
            split: if_splits)
  qed
qed

lemma merkle_walk_choice: "snd (snd (merkle_walk xof sibs hash idx n used)) \<in> {Choice 0, Choice 1}"
  by (induction xof sibs hash idx n used rule: merkle_walk.induct)
     (subst merkle_walk.simps, auto)

lemma merkle_verify_iff:
  "merkle_verify xof stmt proof = Done (Inr (choice_of
     (mp_index proof < mp_leaf_count proof \<and>
      merkle_walk xof (mp_siblings proof) (ms_leaf stmt) (mp_index proof) (mp_leaf_count proof) 0 =
        (ms_root stmt, length (mp_siblings proof), Choice 1))))"
proof -
  have c: "Choice 0 = choice_of False" "Choice 1 = choice_of True" by (simp_all add: choice_of_def)
  show ?thesis
    using merkle_walk_choice [of xof "mp_siblings proof" "ms_leaf stmt" "mp_index proof" "mp_leaf_count proof" 0]
    by (auto simp: merkle_verify_def c ct_eq_def split: prod.split)
qed

definition merkle_holds :: "merkle_witness \<Rightarrow> bool" where
  "merkle_holds w \<longleftrightarrow> mw_index w < length (mw_leaves w)"

lemma merkle_prove_eq:
  "merkle_prove xof w e =
     (if merkle_holds w then
        Inr (merkle_statement_from_witness xof w,
             \<lparr>mp_siblings = snd (root_and_path xof (base_level xof (mw_leaves w)) (mw_index w)),
              mp_index = mw_index w, mp_leaf_count = length (mw_leaves w)\<rparr>)
      else Inl Crypto)"
  by (auto simp: merkle_prove_def merkle_holds_def merkle_statement_from_witness_def base_level_def Let_def
        split: prod.split)

lemma merkle_complete:
  "merkle_prove xof w e = Inr (s, p) \<Longrightarrow> merkle_verify xof s p = Done (Inr (choice_of True))"
  using walk_path [of "mw_index w" "base_level xof (mw_leaves w)" xof _ _ "[]"]
  by (auto simp: merkle_prove_eq merkle_verify_iff merkle_holds_def merkle_statement_from_witness_def
        base_level_def Let_def split: if_splits)

interpretation merkle: relation_scheme "merkle_relation xof" merkle_holds for xof
proof unfold_locales
  show "verify (merkle_relation xof) s p = Done (Inr (choice_of True))"
    if "prove (merkle_relation xof) w e = Inr (s, p)" for w e s p
    using that merkle_complete by (simp add: merkle_relation_def)
qed (auto simp: merkle_relation_def merkle_prove_eq merkle_verify_iff split: if_splits)

section \<open>Soundness\<close>

text \<open>The strings hashed by the tree above a level, and by a verification walk.\<close>

fun pair_msgs :: "bytes list \<Rightarrow> bytes list" where
  "pair_msgs (a # b # rest) = node_message a b # pair_msgs rest"
| "pair_msgs _ = []"

function tree_msgs :: "xof \<Rightarrow> bytes list \<Rightarrow> bytes list" where
  "tree_msgs xof level =
     (if 1 < length level then pair_msgs level @ tree_msgs xof (next_level xof level) else [])"
  by pat_completeness auto
termination by (relation "measure (\<lambda>(x, level). length level)") auto

declare tree_msgs.simps [simp del]

function walk_msgs :: "xof \<Rightarrow> bytes list \<Rightarrow> bytes \<Rightarrow> nat \<Rightarrow> nat \<Rightarrow> nat \<Rightarrow> bytes list" where
  "walk_msgs xof siblings hash idx n used =
     (if 1 < n then
        (if idx = n - 1 \<and> n mod 2 = 1 then
           walk_msgs xof siblings hash (idx div 2) ((n + 1) div 2) used
         else if used < length siblings then
           (let l = (if idx mod 2 = 0 then hash else siblings ! used);
                r = (if idx mod 2 = 0 then siblings ! used else hash)
            in node_message l r #
               walk_msgs xof siblings (node_hash xof l r) (idx div 2) ((n + 1) div 2) (used + 1))
         else [])
      else [])"
  by pat_completeness auto
termination by (relation "measure (\<lambda>(x, s, h, i, n, u). n)") auto

declare walk_msgs.simps [simp del]

text \<open>One step of a walk, in a form that names the two hashed halves.\<close>

lemma walk_cases:
  assumes "merkle_walk xof sibs hash idx n used = (h, u, Choice 1)"
  obtains (top) "n \<le> 1" and "h = hash"
  | (promote) "1 < n" and "idx = n - 1 \<and> n mod 2 = 1"
      and "merkle_walk xof sibs hash (idx div 2) ((n + 1) div 2) used = (h, u, Choice 1)"
      and "walk_msgs xof sibs hash idx n used = walk_msgs xof sibs hash (idx div 2) ((n + 1) div 2) used"
  | (node) l r where "1 < n" and "\<not> (idx = n - 1 \<and> n mod 2 = 1)" and "used < length sibs"
      and "l = (if idx mod 2 = 0 then hash else sibs ! used)"
      and "r = (if idx mod 2 = 0 then sibs ! used else hash)"
      and "merkle_walk xof sibs (node_hash xof l r) (idx div 2) ((n + 1) div 2) (used + 1) = (h, u, Choice 1)"
      and "walk_msgs xof sibs hash idx n used = node_message l r #
             walk_msgs xof sibs (node_hash xof l r) (idx div 2) ((n + 1) div 2) (used + 1)"
  using assms
  by (auto simp: merkle_walk.simps [of xof sibs hash] walk_msgs.simps [of xof sibs hash] Let_def
        split: if_splits)

lemma pair_msgs_nth:
  "idx < length level \<Longrightarrow> \<not> (idx = length level - 1 \<and> length level mod 2 = 1) \<Longrightarrow>
     node_message (level ! (if idx mod 2 = 0 then idx else idx - 1))
       (level ! (if idx mod 2 = 0 then idx + 1 else idx)) \<in> set (pair_msgs level)"
proof (induction level arbitrary: idx rule: pair_msgs.induct)
  case (1 a b rest)
  show ?case
  proof (cases "idx < 2")
    case True
    then have "idx = 0 \<or> idx = 1" by auto
    then show ?thesis by auto
  next
    case False
    then obtain j where j: "idx = Suc (Suc j)" by (metis add_2_eq_Suc le_add_diff_inverse linorder_not_less)
    moreover have "(b # rest) ! j = rest ! (j - 1)" if "j mod 2 \<noteq> 0"
      using that by (cases j) simp_all
    ultimately show ?thesis
      using "1.IH" [of j] "1.prems" by auto
  qed
qed auto

lemma next_level_lengths:
  "list_all (\<lambda>x. length x = 32) level \<Longrightarrow> list_all (\<lambda>x. length x = 32) (next_level xof level)"
  by (induction xof level rule: next_level.induct) simp_all

lemma root_up:
  "1 < length level \<Longrightarrow>
     fst (root_and_path xof level idx) = fst (root_and_path xof (next_level xof level) (idx div 2))"
  by (simp add: root_and_path.simps [of xof level] split: prod.split)

text \<open>Two nodes with the hash of a pair of a level are that pair.\<close>

lemma pair_binding:
  assumes "idx < length level" and "\<not> (idx = length level - 1 \<and> length level mod 2 = 1)" and "1 < length level"
    and "node_hash xof l r = next_level xof level ! (idx div 2)"
    and "list_all (\<lambda>x. length x = 32) level" and "length l = 32"
    and "collision_free xof 32 (set (tree_msgs xof level) \<union> M)" and "node_message l r \<in> M"
  shows "l = level ! (if idx mod 2 = 0 then idx else idx - 1)" and "r = level ! (if idx mod 2 = 0 then idx + 1 else idx)"
proof -
  let ?l = "level ! (if idx mod 2 = 0 then idx else idx - 1)"
  let ?r = "level ! (if idx mod 2 = 0 then idx + 1 else idx)"
  have "node_hash xof l r = node_hash xof ?l ?r"
    using assms(2,4) nth_next_level [OF assms(1), of xof] by auto
  moreover have "node_message ?l ?r \<in> set (tree_msgs xof level)"
    using pair_msgs_nth [OF assms(1,2)] assms(3) by (subst tree_msgs.simps) simp
  ultimately have "node_message l r = node_message ?l ?r"
    using collision_freeD [OF assms(7)] assms(8) by (simp add: node_hash_eq)
  moreover have "length l = length ?l" using assms(1,5,6) by (auto simp: list_all_length)
  ultimately show "l = ?l" and "r = ?r" by (simp_all add: node_message_inj)
qed

text \<open>With the right leaf count, a walk that ends in the root started from the node at that index.\<close>

lemma walk_position:
  assumes "idx < length level" and "merkle_walk xof sibs hash idx (length level) used = (h, u, Choice 1)"
    and "h = fst (root_and_path xof level idx)"
    and "list_all (\<lambda>x. length x = 32) level" and "list_all (\<lambda>x. length x = 32) sibs" and "length hash = 32"
    and "collision_free xof 32 (set (tree_msgs xof level) \<union> set (walk_msgs xof sibs hash idx (length level) used))"
  shows "hash = level ! idx"
  using assms
proof (induction xof level idx arbitrary: hash used rule: root_and_path.induct)
  case (1 xof level idx)
  let ?next = "next_level xof level"
  from "1.prems"(2) show ?case
  proof (cases rule: walk_cases)
    case top
    with "1.prems"(1) have "idx = 0" "\<not> 1 < length level" "level \<noteq> []" by auto
    with top "1.prems"(3) show ?thesis by (simp add: root_and_path.simps)
  next
    case promote
    have "collision_free xof 32 (set (tree_msgs xof ?next) \<union>
        set (walk_msgs xof sibs hash (idx div 2) (length ?next) used))"
      by (rule collision_free_mono [OF "1.prems"(7)])
         (use promote in \<open>auto simp: tree_msgs.simps [of xof level]\<close>)
    then have "hash = ?next ! (idx div 2)"
      using promote "1.prems" root_up [of level xof idx]
      by (intro "1.IH" [of hash used]) (simp_all add: next_level_lengths)
    with promote "1.prems"(1) show ?thesis by (simp add: nth_next_level)
  next
    case (node l r)
    have "collision_free xof 32 (set (tree_msgs xof ?next) \<union>
        set (walk_msgs xof sibs (node_hash xof l r) (idx div 2) (length ?next) (used + 1)))"
      by (rule collision_free_mono [OF "1.prems"(7)])
         (use node in \<open>auto simp: tree_msgs.simps [of xof level]\<close>)
    then have "node_hash xof l r = ?next ! (idx div 2)"
      using node(1,6) "1.prems" root_up [of level xof idx]
      by (intro "1.IH" [of "node_hash xof l r" "used + 1"]) (simp_all add: next_level_lengths)
    moreover have "length l = 32" using node "1.prems" by (auto simp: list_all_length)
    ultimately have "l = level ! (if idx mod 2 = 0 then idx else idx - 1) \<and>
        r = level ! (if idx mod 2 = 0 then idx + 1 else idx)"
      using pair_binding [OF "1.prems"(1) node(2,1) _ "1.prems"(4) _ "1.prems"(7)] node(7) by simp
    then show ?thesis using node(4,5) by (auto split: if_splits)
  qed
qed

text \<open>
  A set of hashed strings is closed when every one is a leaf of the given data or a node
  over digests of the set.
\<close>

definition tree_closed :: "xof \<Rightarrow> bytes set \<Rightarrow> bytes set \<Rightarrow> bool" where
  "tree_closed xof D M \<longleftrightarrow>
     (\<forall>m\<in>M. (\<exists>d\<in>D. m = leaf_message d) \<or>
            (\<exists>l r. m = node_message l r \<and> length l = 32 \<and>
                   l \<in> shake256_ema xof 32 ` M \<and> r \<in> shake256_ema xof 32 ` M))"

lemma pair_msgs_in:
  "m \<in> set (pair_msgs level) \<Longrightarrow> \<exists>l r. m = node_message l r \<and> l \<in> set level \<and> r \<in> set level"
  by (induction level rule: pair_msgs.induct) auto

lemma next_level_in:
  "x \<in> set (next_level xof level) \<Longrightarrow> x \<in> set level \<or> x \<in> shake256_ema xof 32 ` set (pair_msgs level)"
  by (induction xof level rule: next_level.induct) (auto simp: node_hash_eq)

lemma tree_closed_pairs:
  assumes level: "set level \<subseteq> shake256_ema xof 32 ` M" and closed: "tree_closed xof D M"
  shows "tree_closed xof D (M \<union> set (pair_msgs level))"
  unfolding tree_closed_def
proof
  fix m assume "m \<in> M \<union> set (pair_msgs level)"
  then consider d where "d \<in> D" "m = leaf_message d"
    | l r where "m = node_message l r" "length l = 32" "l \<in> shake256_ema xof 32 ` M" "r \<in> shake256_ema xof 32 ` M"
  proof
    assume "m \<in> set (pair_msgs level)"
    then obtain l r where "m = node_message l r" "l \<in> set level" "r \<in> set level"
      using pair_msgs_in by blast
    moreover from this level obtain m' where "l = shake256_ema xof 32 m'" by blast
    ultimately show thesis using level that(2) [of l r] by auto
  qed (use closed that in \<open>unfold tree_closed_def, blast\<close>)
  then show "(\<exists>d\<in>D. m = leaf_message d) \<or> (\<exists>l r. m = node_message l r \<and> length l = 32 \<and>
      l \<in> shake256_ema xof 32 ` (M \<union> set (pair_msgs level)) \<and>
      r \<in> shake256_ema xof 32 ` (M \<union> set (pair_msgs level)))"
    by cases blast+
qed

lemma tree_closed_levels:
  assumes "set level \<subseteq> shake256_ema xof 32 ` M" and "tree_closed xof D M"
  shows "tree_closed xof D (M \<union> set (tree_msgs xof level)) \<and>
    (level \<noteq> [] \<longrightarrow> fst (root_and_path xof level idx) \<in> shake256_ema xof 32 ` (M \<union> set (tree_msgs xof level)))"
  using assms
proof (induction xof level idx arbitrary: M rule: root_and_path.induct)
  case (1 xof level idx)
  show ?case
  proof (cases "1 < length level")
    case False
    with "1.prems" show ?thesis
      by (cases level) (auto simp: tree_msgs.simps root_and_path.simps)
  next
    case True
    let ?M = "M \<union> set (pair_msgs level)"
    have "set (next_level xof level) \<subseteq> shake256_ema xof 32 ` ?M"
      using "1.prems"(1) next_level_in by blast
    moreover have "tree_closed xof D ?M"
      using "1.prems" by (rule tree_closed_pairs)
    moreover have "next_level xof level \<noteq> []"
      using True length_next_level [of xof level] by (cases "next_level xof level") auto
    ultimately show ?thesis
      using "1.IH" [OF True, of ?M] True
      by (simp add: tree_msgs.simps [of xof level] root_up Un_assoc)
  qed
qed

lemma walk_member:
  assumes "merkle_walk xof sibs hash idx n used = (h, u, Choice 1)"
    and "h \<in> shake256_ema xof 32 ` M" and "tree_closed xof D M"
    and "list_all (\<lambda>x. length x = 32) sibs" and "length hash = 32"
    and "collision_free xof 32 (M \<union> set (walk_msgs xof sibs hash idx n used))"
  shows "hash \<in> shake256_ema xof 32 ` M"
  using assms
proof (induction xof sibs hash idx n used rule: merkle_walk.induct)
  case (1 xof sibs hash idx n used)
  from "1.prems"(1) show ?case
  proof (cases rule: walk_cases)
    case top
    with "1.prems" show ?thesis by simp
  next
    case promote
    with "1.prems" show ?thesis by (intro "1.IH"(1)) simp_all
  next
    case (node l r)
    have "collision_free xof 32 (M \<union> set (walk_msgs xof sibs (node_hash xof l r) (idx div 2) ((n + 1) div 2) (used + 1)))"
      by (rule collision_free_mono [OF "1.prems"(6)]) (auto simp: node(7))
    moreover have eq: "(if idx mod 2 = 0 then node_hash xof hash (sibs ! used)
        else node_hash xof (sibs ! used) hash) = node_hash xof l r"
      using node(4,5) by simp
    ultimately have "node_hash xof l r \<in> shake256_ema xof 32 ` M"
      using "1.IH"(2) [OF node(1,2,3), unfolded eq, OF node(6) "1.prems"(2,3,4)] by simp
    then obtain m where m: "m \<in> M" "shake256_ema xof 32 (node_message l r) = shake256_ema xof 32 m"
      by (auto simp: node_hash_eq)
    then have "m = node_message l r"
      using collision_freeD [OF "1.prems"(6), of "node_message l r" m] node(7) by simp
    with m(1) "1.prems"(3) obtain l' r' where lr: "node_message l r = node_message l' r'" "length l' = 32"
      "l' \<in> shake256_ema xof 32 ` M" "r' \<in> shake256_ema xof 32 ` M"
      unfolding tree_closed_def by (metis message_eqs(3))
    moreover have "length l = 32" using node "1.prems" by (auto simp: list_all_length)
    ultimately show ?thesis using node(4,5) by (auto simp: node_message_inj split: if_splits)
  qed
qed

lemma root_index_irrelevant:
  "fst (root_and_path xof level i) = fst (root_and_path xof level j)"
proof (induction xof level i arbitrary: j rule: root_and_path.induct)
  case (1 xof level i)
  show ?case
  proof (cases "1 < length level")
    case True
    with "1.IH" [OF True, of "j div 2"] show ?thesis by (simp add: root_up)
  qed (simp add: root_and_path.simps)
qed

lemma verify_path_eq:
  "merkle_verify xof stmt proof = Done (Inr (merkle_verify_path xof (ms_leaf stmt) (ms_root stmt)
     (mp_index proof) (mp_siblings proof) (mp_leaf_count proof)))"
  by (simp add: merkle_verify_def merkle_verify_path_def Let_def split: prod.split)

definition the_root :: "xof \<Rightarrow> bytes list \<Rightarrow> bytes" where
  "the_root xof leaves = fst (root_and_path xof (base_level xof leaves) 0)"

definition merkle_messages :: "xof \<Rightarrow> bytes list \<Rightarrow> bytes set" where
  "merkle_messages xof leaves =
     leaf_message ` set leaves \<union> set (tree_msgs xof (base_level xof leaves))"

definition proof_messages :: "xof \<Rightarrow> bytes \<Rightarrow> merkle_proof \<Rightarrow> bytes set" where
  "proof_messages xof d proof =
     insert (leaf_message d) (set (walk_msgs xof (mp_siblings proof) (leaf_hash xof d)
       (mp_index proof) (mp_leaf_count proof) 0))"

section \<open>Properties\<close>

text \<open>Completeness: for every leaf list and every index in it, proving succeeds and the
  proof verifies, both through the relation and through the standalone path check against
  the root that \<open>merkle_root\<close> publishes; for any other index proving is an error.\<close>

theorem merkle_prove_verify:
  "(case merkle_prove xof \<lparr>mw_leaves = leaves, mw_index = i\<rparr> entropy of
      Inl err \<Rightarrow> err = Crypto \<and> length leaves \<le> i
    | Inr (stmt, proof) \<Rightarrow>
        i < length leaves \<and> ms_leaf stmt = leaf_hash xof (leaves ! i) \<and>
        merkle_root xof leaves = Inr (ms_root stmt) \<and>
        merkle_verify xof stmt proof = Done (Inr (choice_of True)) \<and>
        merkle_verify_path xof (ms_leaf stmt) (ms_root stmt) (mp_index proof) (mp_siblings proof)
          (mp_leaf_count proof) = choice_of True)"
  (is "case ?p of Inl err \<Rightarrow> _ | Inr r \<Rightarrow> _")
proof (cases "i < length leaves")
  case False
  then show ?thesis by (simp add: merkle_prove_eq merkle_holds_def)
next
  case True
  then obtain stmt pf where p: "?p = Inr (stmt, pf)"
    by (auto simp: merkle_prove_eq merkle_holds_def)
  have "fst (root_and_path xof (base_level xof leaves) i) = fst (root_and_path xof (base_level xof leaves) 0)"
    by (rule root_index_irrelevant)
  with p True merkle_complete [OF p] show ?thesis
    by (auto simp: merkle_prove_eq merkle_holds_def merkle_statement_from_witness_def merkle_root_def
          base_level_def Let_def verify_path_eq split: if_splits)
qed

text \<open>C3. Position binding: against the root of a tree with as many leaves as the proof
  claims, an accepted proof for the hash of \<open>d\<close> shows that \<open>d\<close> is the leaf at the proof's
  index, whatever siblings the prover sent, unless the hash collides on the strings hashed
  by the tree, the leaves or the walk.\<close>

theorem merkle_position_sound:
  assumes "leaves \<noteq> []"
    and "stmt = \<lparr>ms_root = the_root xof leaves, ms_leaf = leaf_hash xof d\<rparr>"
    and "mp_leaf_count proof = length leaves" and "list_all (\<lambda>x. length x = 32) (mp_siblings proof)"
    and "collision_free xof 32 (merkle_messages xof leaves \<union> proof_messages xof d proof)"
    and "merkle_verify xof stmt proof = Done (Inr c)" and "is_true c"
  shows "mp_index proof < length leaves \<and> leaves ! mp_index proof = d"
proof -
  let ?level = "base_level xof leaves" and ?i = "mp_index proof"
  from assms have i: "?i < length leaves" and
    walk: "merkle_walk xof (mp_siblings proof) (leaf_hash xof d) ?i (length ?level) 0 =
       (fst (root_and_path xof ?level ?i), length (mp_siblings proof), Choice 1)"
    by (auto simp: merkle_verify_iff the_root_def base_level_def intro: root_index_irrelevant)
  have "collision_free xof 32 (set (tree_msgs xof ?level) \<union>
      set (walk_msgs xof (mp_siblings proof) (leaf_hash xof d) ?i (length ?level) 0))"
    by (rule collision_free_mono [OF assms(5)])
       (auto simp: merkle_messages_def proof_messages_def assms(3) base_level_def)
  then have "leaf_hash xof d = ?level ! ?i"
    using i assms(4) by (intro walk_position [OF _ walk])
      (simp_all add: base_level_def list_all_length leaf_hash_eq)
  with i have "shake256_ema xof 32 (leaf_message d) = shake256_ema xof 32 (leaf_message (leaves ! ?i))"
    by (simp add: base_level_def leaf_hash_eq)
  with i collision_freeD [OF assms(5), of "leaf_message d" "leaf_message (leaves ! ?i)"]
  have "d = leaves ! ?i" by (simp add: merkle_messages_def proof_messages_def)
  with i show ?thesis by simp
qed

definition toy_xof :: xof where
  "toy_xof m i = of_nat (length m) + 3 * last m"

theorem merkle_position_sound_witness:
  "merkle_verify toy_xof
     \<lparr>ms_root = the_root toy_xof [[1], [2, 2]], ms_leaf = leaf_hash toy_xof [3, 3, 3]\<rparr>
     \<lparr>mp_siblings = [leaf_hash toy_xof [1]], mp_index = 1, mp_leaf_count = 2\<rparr>
   \<noteq> Done (Inr (choice_of True))"
proof -
  let ?pf = "\<lparr>mp_siblings = [leaf_hash toy_xof [1]], mp_index = 1, mp_leaf_count = 2\<rparr>"
  have "collision_free toy_xof 32 (merkle_messages toy_xof [[1], [2, 2]] \<union> proof_messages toy_xof [3, 3, 3] ?pf)"
    by (rule collision_freeI)
       (simp_all add: merkle_messages_def proof_messages_def tree_msgs.simps walk_msgs.simps base_level_def
         leaf_hash_eq node_hash_eq shake256_ema_def toy_xof_def leaf_message_def node_message_def last_map
         MERKLE_LEAF_def MERKLE_NODE_def inj_on_insert,
        auto simp: toy_xof_def last_map)
  with merkle_position_sound [of "[[1], [2, 2]]" _ toy_xof "[3, 3, 3]" ?pf "choice_of True", OF _ refl]
  show ?thesis by (auto simp: leaf_hash_eq)
qed

text \<open>C39. Membership soundness: whatever index, leaf count and siblings a proof claims, if
  it is accepted for the hash of \<open>d\<close> against the root of the tree over \<open>leaves\<close>, then \<open>d\<close>
  is one of the leaves, unless the hash collides on the strings involved. Leaf and node
  tags keep an inner node from passing as a leaf.\<close>

theorem merkle_membership_sound:
  assumes "leaves \<noteq> []"
    and "stmt = \<lparr>ms_root = the_root xof leaves, ms_leaf = leaf_hash xof d\<rparr>"
    and "list_all (\<lambda>x. length x = 32) (mp_siblings proof)"
    and "collision_free xof 32 (merkle_messages xof leaves \<union> proof_messages xof d proof)"
    and "merkle_verify xof stmt proof = Done (Inr c)" and "is_true c"
  shows "d \<in> set leaves"
proof -
  let ?M = "merkle_messages xof leaves"
  have "tree_closed xof (set leaves) (leaf_message ` set leaves)"
    by (auto simp: tree_closed_def)
  from tree_closed_levels [OF _ this, of "base_level xof leaves" 0] assms(1)
  have closed: "tree_closed xof (set leaves) ?M" and root: "the_root xof leaves \<in> shake256_ema xof 32 ` ?M"
    by (auto simp: base_level_def leaf_hash_eq merkle_messages_def the_root_def)
  from assms have walk: "merkle_walk xof (mp_siblings proof) (leaf_hash xof d) (mp_index proof)
      (mp_leaf_count proof) 0 = (the_root xof leaves, length (mp_siblings proof), Choice 1)"
    by (auto simp: merkle_verify_iff)
  have "collision_free xof 32 (?M \<union> set (walk_msgs xof (mp_siblings proof) (leaf_hash xof d) (mp_index proof)
      (mp_leaf_count proof) 0))"
    by (rule collision_free_mono [OF assms(4)]) (auto simp: proof_messages_def)
  from walk_member [OF walk root closed assms(3) _ this] obtain m where
    m: "m \<in> ?M" "shake256_ema xof 32 (leaf_message d) = shake256_ema xof 32 m"
    by (auto simp: leaf_hash_eq)
  then have "m = leaf_message d"
    using collision_freeD [OF assms(4), of "leaf_message d" m] by (simp add: proof_messages_def)
  with m(1) closed show ?thesis by (auto simp: tree_closed_def)
qed

theorem merkle_membership_sound_witness:
  "merkle_verify toy_xof \<lparr>ms_root = the_root toy_xof [[1]], ms_leaf = leaf_hash toy_xof [2]\<rparr>
     \<lparr>mp_siblings = [], mp_index = 0, mp_leaf_count = 1\<rparr> \<noteq> Done (Inr (choice_of True))"
proof -
  let ?pf = "\<lparr>mp_siblings = [], mp_index = 0, mp_leaf_count = 1\<rparr>"
  have "collision_free toy_xof 32 (merkle_messages toy_xof [[1]] \<union> proof_messages toy_xof [2] ?pf)"
    by (rule collision_freeI)
       (simp_all add: merkle_messages_def proof_messages_def tree_msgs.simps walk_msgs.simps base_level_def
         toy_xof_def leaf_message_def MERKLE_LEAF_def)
  with merkle_membership_sound [of "[[1]]" _ toy_xof "[2]" ?pf "choice_of True", OF _ refl]
  show ?thesis by auto
qed

end
