(* ===== verification/Hash_Preimage.thy ===== *)
theory Hash_Preimage
  imports Relations
begin

unbundle bit_operations_syntax

text \<open>
  The Lamport relation of \<^verbatim>\<open>src/src/relations/hash_preimage.rs\<close>: secret leaves and
  public nodes derived from a 32-byte seed, the challenge bits, prover and verifier.
\<close>

definition SECURITY_BITS :: nat where "SECURITY_BITS = 256"
definition CHALLENGE_BYTES :: nat where "CHALLENGE_BYTES = SECURITY_BITS div 8"

definition lamport_proto :: bytes where
  "lamport_proto = ascii ''veil7:relation:lamport-hash-preimage:v1''"

record lamport_statement =
  ls_pk :: "(bytes \<times> bytes) list"

record lamport_witness =
  lw_seed :: bytes

record lamport_proof =
  lp_openings :: "bytes list"

definition lamport_witness_drop :: "lamport_witness \<Rightarrow> lamport_witness" where
  "lamport_witness_drop w = w\<lparr>lw_seed := zeros (length (lw_seed w))\<rparr>"

definition lamport_proof_drop :: "lamport_proof \<Rightarrow> lamport_proof" where
  "lamport_proof_drop p = p\<lparr>lp_openings := map (\<lambda>x. zeros (length x)) (lp_openings p)\<rparr>"

definition lamport_h32 :: "xof \<Rightarrow> bytes list \<Rightarrow> bytes" where
  "lamport_h32 xof parts = squeeze xof (updates shake_new parts) 32"

definition derive_sk :: "xof \<Rightarrow> bytes \<Rightarrow> nat \<Rightarrow> byte \<Rightarrow> bytes" where
  "derive_sk xof seed i b =
     lamport_h32 xof [LAMPORT_SECRET, seed, to_le_bytes 2 (of_nat i :: u16), [b]]"

definition pubnode :: "xof \<Rightarrow> bytes \<Rightarrow> bytes" where
  "pubnode xof sk = lamport_h32 xof [LAMPORT_PUBNODE, sk]"

definition challenge_bit :: "bytes \<Rightarrow> nat \<Rightarrow> byte" where
  "challenge_bit c i = drop_bit (i mod 8) (c ! (i div 8)) AND 1"

definition pk_commitment :: "xof \<Rightarrow> lamport_statement \<Rightarrow> bytes" where
  "pk_commitment xof stmt =
     (let h = update shake_new LAMPORT_PUBNODE;
          h = update h (usize_le (length (ls_pk stmt)));
          h = fold (\<lambda>pair h. update (update h (fst pair)) (snd pair)) (ls_pk stmt) h
      in squeeze xof h 32)"

definition lamport_statement_from_witness :: "xof \<Rightarrow> lamport_witness \<Rightarrow> lamport_statement" where
  "lamport_statement_from_witness xof w =
     \<lparr>ls_pk = map (\<lambda>i. (pubnode xof (derive_sk xof (lw_seed w) i 0), pubnode xof (derive_sk xof (lw_seed w) i 1)))
                  [0..<SECURITY_BITS]\<rparr>"

definition lamport_bind_statement :: "xof \<Rightarrow> lamport_statement \<Rightarrow> transcript \<Rightarrow> transcript" where
  "lamport_bind_statement xof stmt t = absorb xof t (ascii ''lamport:pk'') (pk_commitment xof stmt)"

text \<open>The challenge both sides derive.\<close>

definition lamport_challenge :: "xof \<Rightarrow> lamport_statement \<Rightarrow> bytes" where
  "lamport_challenge xof stmt =
     (let t = transcript_new xof lamport_proto;
          t = lamport_bind_statement xof stmt t
      in fst (challenge_array xof t CHALLENGE_BYTES (ascii ''lamport:challenge'')))"

definition lamport_prove :: "xof \<Rightarrow> lamport_witness \<Rightarrow> bytes \<Rightarrow> (lamport_statement \<times> lamport_proof) result" where
  "lamport_prove xof w entropy =
     (let stmt = lamport_statement_from_witness xof w;
          c = lamport_challenge xof stmt
      in Inr (stmt, \<lparr>lp_openings = map (\<lambda>i. derive_sk xof (lw_seed w) i (challenge_bit c i)) [0..<SECURITY_BITS]\<rparr>))"

text \<open>\<open>pk[i][b]\<close> for a challenge bit \<open>b\<close>.\<close>

definition pk_at :: "lamport_statement \<Rightarrow> nat \<Rightarrow> byte \<Rightarrow> bytes" where
  "pk_at stmt i b = (if b = 0 then fst (ls_pk stmt ! i) else snd (ls_pk stmt ! i))"

definition lamport_verify :: "xof \<Rightarrow> lamport_statement \<Rightarrow> lamport_proof \<Rightarrow> choice result outcome" where
  "lamport_verify xof stmt proof =
     (if length (ls_pk stmt) \<noteq> SECURITY_BITS \<or> length (lp_openings proof) \<noteq> SECURITY_BITS
      then Done (Inr (Choice 0))
      else (let c = lamport_challenge xof stmt
            in Done (Inr (fold (\<lambda>i ok. choice_and ok
                   (ct_eq (pubnode xof (lp_openings proof ! i)) (pk_at stmt i (challenge_bit c i))))
                 [0..<SECURITY_BITS] (Choice 1)))))"

definition lamport_relation :: "xof \<Rightarrow> (lamport_witness, lamport_statement, lamport_proof) relation" where
  "lamport_relation xof =
     \<lparr>protocol_label = lamport_proto,
      statement_from_witness = lamport_statement_from_witness xof,
      bind_statement = lamport_bind_statement xof,
      prove = lamport_prove xof,
      verify = lamport_verify xof\<rparr>"

section \<open>Correctness\<close>

lemma challenge_bit_01: "challenge_bit c i = 0 \<or> challenge_bit c i = 1"
proof -
  have "x AND 1 = 0 \<or> x AND 1 = 1" for x :: byte
    by (simp add: and_one_eq mod_2_eq_odd)
  then show ?thesis by (simp add: challenge_bit_def)
qed

text \<open>The verifier's loop accepts exactly when every position checks out.\<close>

lemma lamport_verify_iff:
  "lamport_verify xof stmt proof = Done (Inr (choice_of
     (length (ls_pk stmt) = SECURITY_BITS \<and> length (lp_openings proof) = SECURITY_BITS \<and>
      (\<forall>i<SECURITY_BITS. pubnode xof (lp_openings proof ! i) =
         pk_at stmt i (challenge_bit (lamport_challenge xof stmt) i)))))"
  by (auto simp: lamport_verify_def Let_def fold_choice_and ct_eq_def Choice_0 Choice_1 list_all_iff)

lemma pk_at_honest:
  "i < SECURITY_BITS \<Longrightarrow> pk_at (lamport_statement_from_witness xof w) i (challenge_bit c i) =
     pubnode xof (derive_sk xof (lw_seed w) i (challenge_bit c i))"
  using challenge_bit_01 [of c i] by (auto simp: pk_at_def lamport_statement_from_witness_def)

lemma lamport_complete:
  "lamport_prove xof w e = Inr (s, p) \<Longrightarrow> lamport_verify xof s p = Done (Inr (choice_of True))"
  by (auto simp: lamport_prove_def Let_def lamport_verify_iff pk_at_honest)
     (simp add: lamport_statement_from_witness_def)

interpretation lamport: relation_scheme "lamport_relation xof" "\<lambda>w. True" for xof
proof unfold_locales
  show "verify (lamport_relation xof) s p = Done (Inr (choice_of True))"
    if "prove (lamport_relation xof) w e = Inr (s, p)" for w e s p
    using that lamport_complete by (simp add: lamport_relation_def)
qed (auto simp: lamport_relation_def lamport_prove_def Let_def lamport_verify_iff)

section \<open>Properties\<close>

lemma pubnode_eq: "pubnode xof sk = shake256_ema xof 32 (LAMPORT_PUBNODE @ sk)"
  by (simp add: pubnode_def lamport_h32_def squeeze_eq)

text \<open>C29. Lamport knowledge soundness: a proof accepted for the public key of a seed reveals,
  at every one of the 256 positions, exactly the secret leaf the challenge selects, as long
  as the hash does not collide on the opened and the honest leaves. Nothing else can be
  sent in its place.\<close>

theorem lamport_openings_forced:
  assumes "lamport_verify xof (lamport_statement_from_witness xof w) proof = Done (Inr c)" and "is_true c"
    and "collision_free xof 32 ((@) LAMPORT_PUBNODE `
           (set (lp_openings proof) \<union> {derive_sk xof (lw_seed w) i b | i b. i < 256}))"
  shows "lp_openings proof = map (\<lambda>i. derive_sk xof (lw_seed w) i
           (challenge_bit (lamport_challenge xof (lamport_statement_from_witness xof w)) i)) [0..<256]"
proof -
  let ?s = "lamport_statement_from_witness xof w" and ?o = "lp_openings proof"
  from assms(1,2) have len: "length ?o = 256" and
    ok: "\<And>i. i < 256 \<Longrightarrow> pubnode xof (?o ! i) = pk_at ?s i (challenge_bit (lamport_challenge xof ?s) i)"
    by (auto simp: lamport_verify_iff SECURITY_BITS_def)
  have "?o ! i = derive_sk xof (lw_seed w) i (challenge_bit (lamport_challenge xof ?s) i)" if i: "i < 256" for i
  proof -
    let ?k = "derive_sk xof (lw_seed w) i (challenge_bit (lamport_challenge xof ?s) i)"
    have "?o ! i \<in> set ?o" using i len by simp
    moreover have "?k \<in> {derive_sk xof (lw_seed w) i b | i b. i < 256}" using i by blast
    moreover have "shake256_ema xof 32 (LAMPORT_PUBNODE @ ?o ! i) = shake256_ema xof 32 (LAMPORT_PUBNODE @ ?k)"
      using ok [OF i] pk_at_honest [of i] i by (simp add: SECURITY_BITS_def pubnode_eq)
    ultimately have "LAMPORT_PUBNODE @ ?o ! i = LAMPORT_PUBNODE @ ?k"
      using collision_freeD [OF assms(3)] by blast
    then show ?thesis by simp
  qed
  with len show ?thesis by (auto intro: nth_equalityI)
qed

theorem lamport_openings_forced_witness:
  "\<exists>p. lamport_prove (\<lambda>m i. 0) \<lparr>lw_seed = zeros 32\<rparr> [] =
        Inr (lamport_statement_from_witness (\<lambda>m i. 0) \<lparr>lw_seed = zeros 32\<rparr>, p) \<and>
      lp_openings p = replicate 256 (zeros 32)"
proof -
  let ?xof = "(\<lambda>m i. 0) :: xof" and ?w = "\<lparr>lw_seed = zeros 32\<rparr>"
  obtain p where p: "lamport_prove ?xof ?w [] = Inr (lamport_statement_from_witness ?xof ?w, p)"
    by (simp add: lamport_prove_def Let_def)
  have sk: "derive_sk ?xof s i b = zeros 32" for s i b
    by (simp add: derive_sk_def lamport_h32_def squeeze_eq shake256_ema_def map_replicate_const)
  have "set (lp_openings p) \<subseteq> {zeros 32}"
    using p by (auto simp: lamport_prove_def Let_def sk)
  then have "set (lp_openings p) \<union> {derive_sk ?xof (lw_seed ?w) i b | i b. i < 256} \<subseteq> {zeros 32}"
    by (auto simp: sk)
  then have "(@) LAMPORT_PUBNODE ` (set (lp_openings p) \<union> {derive_sk ?xof (lw_seed ?w) i b | i b. i < 256})
      \<subseteq> {LAMPORT_PUBNODE @ zeros 32}" by blast
  then have "collision_free ?xof 32 ((@) LAMPORT_PUBNODE `
      (set (lp_openings p) \<union> {derive_sk ?xof (lw_seed ?w) i b | i b. i < 256}))"
    by (rule collision_free_mono [rotated]) (simp add: collision_free_def)
  from lamport_openings_forced [OF lamport_complete [OF p] _ this] p show ?thesis
    by (auto simp: sk map_replicate_const)
qed

end
