(* ===== verification/Pedersen.thy ===== *)
theory Pedersen
  imports Relations
begin

text \<open>
  The commitment-opening relation of \<^verbatim>\<open>src/src/relations/pedersen.rs\<close>.
\<close>

definition pedersen_proto :: bytes where
  "pedersen_proto = ascii ''veil7:relation:pedersen-commitment:v1''"

record pedersen_statement =
  ps_commitment :: bytes

record pedersen_witness =
  pw_value :: bytes
  pw_blinding :: bytes

record pedersen_proof =
  pp_value :: bytes
  pp_blinding :: bytes

definition pedersen_witness_drop :: "pedersen_witness \<Rightarrow> pedersen_witness" where
  "pedersen_witness_drop w = w\<lparr>pw_value := zeros (length (pw_value w)), pw_blinding := zeros (length (pw_blinding w))\<rparr>"

definition pedersen_proof_drop :: "pedersen_proof \<Rightarrow> pedersen_proof" where
  "pedersen_proof_drop p = p\<lparr>pp_value := zeros (length (pp_value p)), pp_blinding := zeros (length (pp_blinding p))\<rparr>"

definition compute_commitment :: "xof \<Rightarrow> bytes \<Rightarrow> bytes \<Rightarrow> bytes" where
  "compute_commitment xof val blinding =
     (let h = update shake_new PEDERSEN_OPEN;
          h = update h val;
          h = update h blinding
      in squeeze xof h 32)"

definition pedersen_statement_from_witness :: "xof \<Rightarrow> pedersen_witness \<Rightarrow> pedersen_statement" where
  "pedersen_statement_from_witness xof w =
     \<lparr>ps_commitment = compute_commitment xof (pw_value w) (pw_blinding w)\<rparr>"

definition pedersen_bind_statement :: "xof \<Rightarrow> pedersen_statement \<Rightarrow> transcript \<Rightarrow> transcript" where
  "pedersen_bind_statement xof stmt t = absorb xof t (ascii ''pedersen:commitment'') (ps_commitment stmt)"

text \<open>Both sides build the transcript and a challenge they do not use further.\<close>

definition pedersen_challenge :: "xof \<Rightarrow> pedersen_statement \<Rightarrow> bytes" where
  "pedersen_challenge xof stmt =
     (let t = transcript_new xof pedersen_proto;
          t = pedersen_bind_statement xof stmt t
      in fst (challenge_array xof t 32 (ascii ''pedersen:binding'')))"

definition pedersen_prove :: "xof \<Rightarrow> pedersen_witness \<Rightarrow> bytes \<Rightarrow> (pedersen_statement \<times> pedersen_proof) result" where
  "pedersen_prove xof w entropy =
     (let stmt = pedersen_statement_from_witness xof w;
          _ = pedersen_challenge xof stmt
      in Inr (stmt, \<lparr>pp_value = pw_value w, pp_blinding = pw_blinding w\<rparr>))"

definition pedersen_verify :: "xof \<Rightarrow> pedersen_statement \<Rightarrow> pedersen_proof \<Rightarrow> choice result outcome" where
  "pedersen_verify xof stmt proof =
     (let _ = pedersen_challenge xof stmt;
          recomputed = compute_commitment xof (pp_value proof) (pp_blinding proof)
      in Done (Inr (ct_eq recomputed (ps_commitment stmt))))"

definition pedersen_relation :: "xof \<Rightarrow> (pedersen_witness, pedersen_statement, pedersen_proof) relation" where
  "pedersen_relation xof =
     \<lparr>protocol_label = pedersen_proto,
      statement_from_witness = pedersen_statement_from_witness xof,
      bind_statement = pedersen_bind_statement xof,
      prove = pedersen_prove xof,
      verify = pedersen_verify xof\<rparr>"

definition opening_message :: "bytes \<Rightarrow> bytes \<Rightarrow> bytes" where
  "opening_message val blinding = PEDERSEN_OPEN @ val @ blinding"

lemma compute_commitment_eq: "compute_commitment xof v b = shake256_ema xof 32 (opening_message v b)"
  by (simp add: compute_commitment_def squeeze_eq opening_message_def)

interpretation pedersen: relation_scheme "pedersen_relation xof" "\<lambda>w. True" for xof
  by unfold_locales
     (auto simp: pedersen_relation_def pedersen_prove_def pedersen_verify_def
       pedersen_statement_from_witness_def ct_eq_def)

section \<open>Properties\<close>

text \<open>C30. Binding: for 32-byte components, an opening accepted against the commitment of a
  value and a blinding factor is that value and that blinding factor (no hash collision on
  the two opened strings).\<close>

theorem pedersen_binding:
  assumes "length v = 32" and "length b = 32" and "length (pp_value proof) = 32" and "length (pp_blinding proof) = 32"
    and "collision_free xof 32 {opening_message v b, opening_message (pp_value proof) (pp_blinding proof)}"
    and "pedersen_verify xof (pedersen_statement_from_witness xof \<lparr>pw_value = v, pw_blinding = b\<rparr>) proof = Done (Inr c)"
    and "is_true c"
  shows "pp_value proof = v \<and> pp_blinding proof = b"
proof -
  from assms(6,7) have "shake256_ema xof 32 (opening_message (pp_value proof) (pp_blinding proof)) =
      shake256_ema xof 32 (opening_message v b)"
    by (auto simp: pedersen_verify_def pedersen_statement_from_witness_def compute_commitment_eq)
  with assms(5) have "opening_message (pp_value proof) (pp_blinding proof) = opening_message v b"
    by (auto dest: collision_freeD)
  with assms(1-4) show ?thesis by (simp add: opening_message_def)
qed

theorem pedersen_binding_witness:
  "pedersen_verify (\<lambda>m i. last m)
     (pedersen_statement_from_witness (\<lambda>m i. last m) \<lparr>pw_value = zeros 32, pw_blinding = replicate 32 1\<rparr>)
     \<lparr>pp_value = zeros 32, pp_blinding = replicate 32 2\<rparr> \<noteq> Done (Inr (choice_of True))"
proof -
  let ?p = "\<lparr>pp_value = zeros 32, pp_blinding = replicate 32 2\<rparr>"
  have "collision_free (\<lambda>m i. last m) 32 {opening_message (zeros 32) (replicate 32 1),
      opening_message (pp_value ?p) (pp_blinding ?p)}"
    by (rule collision_free_pairI [of 0]) (simp_all add: opening_message_def last_append)
  with pedersen_binding [of "zeros 32" "replicate 32 1" ?p "\<lambda>m i. last m" "choice_of True"]
  show ?thesis by auto
qed

end
