(* ===== verification/Threshold_Relation.thy ===== *)
theory Threshold_Relation
  imports Relations
begin

text \<open>
  The threshold relation of \<^verbatim>\<open>src/src/relations/threshold_verify.rs\<close>, with the
  truncating casts of the share counts to \<open>u8\<close>. Completeness holds for up to 255
  shares; what verification accepts is characterised exactly, and it is more than honest
  proofs.
\<close>

definition threshold_proto :: bytes where
  "threshold_proto = ascii ''veil7:relation:threshold-verify:v1''"

record threshold_statement =
  ts_threshold :: byte
  ts_total :: byte
  ts_share_commitment :: bytes

record threshold_witness =
  tw_shares :: "bytes list"
  tw_indices :: "byte list"

record threshold_proof =
  tp_index_commitment :: bytes
  tp_share_hashes :: "bytes list"

definition threshold_witness_drop :: "threshold_witness \<Rightarrow> threshold_witness" where
  "threshold_witness_drop w = w\<lparr>tw_shares := map (\<lambda>x. zeros (length x)) (tw_shares w)\<rparr>"

definition threshold_proof_drop :: "threshold_proof \<Rightarrow> threshold_proof" where
  "threshold_proof_drop p = p\<lparr>tp_index_commitment := zeros (length (tp_index_commitment p)),
      tp_share_hashes := map (\<lambda>x. zeros (length x)) (tp_share_hashes p)\<rparr>"

definition threshold_statement_from_witness :: "xof \<Rightarrow> threshold_witness \<Rightarrow> threshold_statement" where
  "threshold_statement_from_witness xof w =
     (let h = update shake_new (ascii ''veil7:threshold:share-commitment:v1'');
          h = fold (\<lambda>idx h. update h [idx]) (tw_indices w) h
      in \<lparr>ts_threshold = of_nat (length (tw_shares w)), ts_total = of_nat (length (tw_indices w)),
          ts_share_commitment = squeeze xof h 32\<rparr>)"

definition threshold_bind_statement :: "xof \<Rightarrow> threshold_statement \<Rightarrow> transcript \<Rightarrow> transcript" where
  "threshold_bind_statement xof stmt t =
     (let t = absorb xof t (ascii ''threshold'') [ts_threshold stmt];
          t = absorb xof t (ascii ''total'') [ts_total stmt]
      in absorb xof t (ascii ''share_commitment'') (ts_share_commitment stmt))"

definition share_hash :: "xof \<Rightarrow> bytes \<Rightarrow> bytes" where
  "share_hash xof share =
     (let h = update shake_new (ascii ''veil7:threshold:share-hash:v1'');
          h = update h share
      in squeeze xof h 32)"

definition threshold_prove :: "xof \<Rightarrow> threshold_witness \<Rightarrow> bytes \<Rightarrow> (threshold_statement \<times> threshold_proof) result" where
  "threshold_prove xof w entropy =
     (if tw_shares w = [] \<or> tw_indices w = [] then Inl Crypto
      else if length (tw_shares w) \<noteq> length (tw_indices w) then Inl Crypto
      else (let stmt = threshold_statement_from_witness xof w
            in Inr (stmt, \<lparr>tp_index_commitment = ts_share_commitment stmt,
                           tp_share_hashes = map (share_hash xof) (tw_shares w)\<rparr>)))"

definition threshold_rel_verify :: "threshold_statement \<Rightarrow> threshold_proof \<Rightarrow> choice result outcome" where
  "threshold_rel_verify stmt proof =
     (if ts_threshold stmt = 0 \<or> ts_total stmt = 0 \<or> ts_total stmt < ts_threshold stmt then Done (Inr (Choice 0))
      else if length (tp_share_hashes proof) \<noteq> unat (ts_threshold stmt) then Done (Inr (Choice 0))
      else (let valid = ct_eq (tp_index_commitment proof) (ts_share_commitment stmt);
                all_nonzero = fold (\<lambda>h acc. choice_and acc (choice_of (list_ex (\<lambda>b. b \<noteq> 0) h)))
                                (tp_share_hashes proof) (Choice 1)
            in Done (Inr (choice_and valid all_nonzero))))"

definition threshold_relation :: "xof \<Rightarrow> (threshold_witness, threshold_statement, threshold_proof) relation" where
  "threshold_relation xof =
     \<lparr>protocol_label = threshold_proto,
      statement_from_witness = threshold_statement_from_witness xof,
      bind_statement = threshold_bind_statement xof,
      prove = threshold_prove xof,
      verify = threshold_rel_verify\<rparr>"

lemma threshold_verify_iff:
  "threshold_rel_verify stmt proof = Done (Inr (choice_of
     (0 < ts_threshold stmt \<and> ts_threshold stmt \<le> ts_total stmt \<and>
      length (tp_share_hashes proof) = unat (ts_threshold stmt) \<and>
      tp_index_commitment proof = ts_share_commitment stmt \<and>
      list_all (list_ex (\<lambda>b. b \<noteq> 0)) (tp_share_hashes proof))))"
  by (auto simp: threshold_rel_verify_def Let_def fold_choice_and ct_eq_def Choice_0 Choice_1
        word_gt_0 not_less)

text \<open>The witnesses for which honest proofs are accepted.\<close>

definition threshold_holds :: "xof \<Rightarrow> threshold_witness \<Rightarrow> bool" where
  "threshold_holds xof w \<longleftrightarrow> tw_shares w \<noteq> [] \<and> length (tw_shares w) = length (tw_indices w) \<and>
     length (tw_shares w) < 256 \<and> list_all (\<lambda>s. list_ex (\<lambda>b. b \<noteq> 0) (share_hash xof s)) (tw_shares w)"

lemma of_nat_byte_pos:
  assumes "0 < n" and "n < 256"
  shows "0 < (of_nat n :: byte) \<and> unat (of_nat n :: byte) = n"
proof -
  from assms have "unat (of_nat n :: byte) = n" by (simp add: unat_of_nat)
  moreover from this assms have "(of_nat n :: byte) \<noteq> 0" by (metis less_numeral_extra(3) unat_0)
  ultimately show ?thesis by (simp add: word_gt_0)
qed

lemma threshold_complete:
  "threshold_holds xof w \<Longrightarrow> threshold_prove xof w e = Inr (s, p) \<Longrightarrow>
     threshold_rel_verify s p = Done (Inr (choice_of True))"
  using of_nat_byte_pos [of "length (tw_indices w)"]
  by (auto simp: threshold_holds_def threshold_prove_def threshold_verify_iff Let_def list_all_iff
        threshold_statement_from_witness_def split: if_splits)

interpretation threshold: relation_scheme "threshold_relation xof" "threshold_holds xof" for xof
proof unfold_locales
  show "verify (threshold_relation xof) s p = Done (Inr (choice_of True))"
    if "threshold_holds xof w" "prove (threshold_relation xof) w e = Inr (s, p)" for w e s p
    using that threshold_complete by (simp add: threshold_relation_def)
qed (auto simp: threshold_relation_def threshold_prove_def threshold_holds_def threshold_verify_iff Let_def
      split: if_splits)

section \<open>Properties\<close>

text \<open>What the threshold verifier checks is only shape: for every statement with
  \<open>0 < threshold \<le> total\<close>, a proof made without any share, from a copy of the published
  commitment and arbitrary nonzero hashes, is accepted.\<close>

theorem threshold_proof_forgeable:
  assumes "0 < ts_threshold stmt" and "ts_threshold stmt \<le> ts_total stmt"
  shows "threshold_rel_verify stmt \<lparr>tp_index_commitment = ts_share_commitment stmt,
      tp_share_hashes = replicate (unat (ts_threshold stmt)) (1 # zeros 31)\<rparr> = Done (Inr (choice_of True))"
  using assms by (simp add: threshold_verify_iff list_all_iff)

theorem threshold_proof_forgeable_witness:
  "threshold_rel_verify \<lparr>ts_threshold = 2, ts_total = 3, ts_share_commitment = zeros 32\<rparr>
     \<lparr>tp_index_commitment = zeros 32, tp_share_hashes = replicate 2 (1 # zeros 31)\<rparr> = Done (Inr (choice_of True))"
  using threshold_proof_forgeable [of "\<lparr>ts_threshold = 2, ts_total = 3, ts_share_commitment = zeros 32\<rparr>"]
  by simp

end
