(* ===== verification/Range_Proof.thy ===== *)
theory Range_Proof
  imports Relations
begin

unbundle bit_operations_syntax

text \<open>
  The range relation of \<^verbatim>\<open>src/src/relations/range_proof.rs\<close>: bit decomposition of
  \<open>value - min\<close>, one commitment per bit, the prover that spoils the first nonce for
  values out of range, and the verifier. The verifier shifts by the position of each
  commitment; the crate is built with overflow checks, so more than 64 commitments panic.
\<close>

definition MAX_BITS :: nat where "MAX_BITS = 64"

definition range_proto :: bytes where
  "range_proto = ascii ''veil7:relation:range-proof:v1''"

record range_statement =
  rs_commitments :: "bytes list"
  rs_min :: u64
  rs_max :: u64

record range_witness =
  rw_value :: u64
  rw_min :: u64
  rw_max :: u64

record range_proof =
  rp_bits :: bytes
  rp_nonces :: "bytes list"

definition range_witness_drop :: "range_witness \<Rightarrow> range_witness" where
  "range_witness_drop w = w\<lparr>rw_value := 0, rw_min := 0, rw_max := 0\<rparr>"

definition range_proof_drop :: "range_proof \<Rightarrow> range_proof" where
  "range_proof_drop p = p\<lparr>rp_bits := map (\<lambda>_. 0) (rp_bits p), rp_nonces := map (\<lambda>x. zeros (length x)) (rp_nonces p)\<rparr>"

definition bit_commitment :: "xof \<Rightarrow> byte \<Rightarrow> bytes \<Rightarrow> bytes" where
  "bit_commitment xof b nonce =
     (let h = update shake_new RANGE_BIT;
          h = update h [b AND 1];
          h = update h nonce
      in squeeze xof h 32)"

text \<open>The operations on \<open>u64\<close> the code uses.\<close>

definition saturating_sub :: "u64 \<Rightarrow> u64 \<Rightarrow> u64" where
  "saturating_sub a b = (if a < b then 0 else a - b)"

definition saturating_add :: "u64 \<Rightarrow> u64 \<Rightarrow> u64" where
  "saturating_add a b = (if 2 ^ 64 \<le> unat a + unat b then - 1 else a + b)"

definition leading_zeros :: "u64 \<Rightarrow> nat" where
  "leading_zeros w = length (takeWhile (\<lambda>i. \<not> bit w i) (rev [0..<64]))"

definition range_num_bits :: "range_witness \<Rightarrow> nat" where
  "range_num_bits w =
     (let range = saturating_sub (rw_max w) (rw_min w);
          num_bits = (if range = 0 then 1 else 64 - leading_zeros range)
      in min num_bits MAX_BITS)"

definition range_bit :: "range_witness \<Rightarrow> nat \<Rightarrow> byte" where
  "range_bit w i = (let offset = rw_value w - rw_min w in ucast (drop_bit i offset AND 1))"

definition range_nonce :: "xof \<Rightarrow> range_witness \<Rightarrow> nat \<Rightarrow> bytes" where
  "range_nonce xof w i =
     (let h = update shake_new (ascii ''veil7:range:nonce'');
          h = update h (u64_le (rw_value w));
          h = update h (usize_le i);
          h = update h (u64_le (rw_min w))
      in squeeze xof h 32)"

definition range_statement_from_witness :: "xof \<Rightarrow> range_witness \<Rightarrow> range_statement" where
  "range_statement_from_witness xof w =
     \<lparr>rs_commitments = map (\<lambda>i. bit_commitment xof (range_bit w i) (range_nonce xof w i)) [0..<range_num_bits w],
      rs_min = rw_min w, rs_max = rw_max w\<rparr>"

definition range_bind_statement :: "xof \<Rightarrow> range_statement \<Rightarrow> transcript \<Rightarrow> transcript" where
  "range_bind_statement xof stmt t =
     (let t = absorb xof t (ascii ''range:min'') (u64_le (rs_min stmt));
          t = absorb xof t (ascii ''range:max'') (u64_le (rs_max stmt));
          t = absorb xof t (ascii ''range:nbits'') (usize_le (length (rs_commitments stmt)))
      in fold (\<lambda>c t. absorb xof t (ascii ''range:commit'') c) (rs_commitments stmt) t)"

text \<open>The mask for the first nonce byte: 0 in range, \<open>0xFF\<close> out of range.\<close>

definition range_corrupt :: "range_witness \<Rightarrow> byte" where
  "range_corrupt w =
     (let in_range_lo = of_bool (rw_min w \<le> rw_value w);
          in_range_hi = of_bool (rw_value w \<le> rw_max w);
          in_range = in_range_lo AND in_range_hi
      in in_range - 1)"

definition range_prove :: "xof \<Rightarrow> range_witness \<Rightarrow> bytes \<Rightarrow> (range_statement \<times> range_proof) result" where
  "range_prove xof w entropy =
     (let stmt = range_statement_from_witness xof w;
          num_bits = length (rs_commitments stmt);
          bits = map (range_bit w) [0..<num_bits];
          nonces = map (range_nonce xof w) [0..<num_bits];
          nonces = (case nonces of [] \<Rightarrow> []
                    | first # rest \<Rightarrow> first[0 := first ! 0 XOR range_corrupt w] # rest)
      in Inr (stmt, \<lparr>rp_bits = bits, rp_nonces = nonces\<rparr>))"

text \<open>The shift \<open>x << i\<close> with its overflow check, and the loop of the verifier, which compares
  one commitment and sets one bit of the number in each round.\<close>

definition checked_shl :: "u64 \<Rightarrow> nat \<Rightarrow> u64 outcome" where
  "checked_shl x i = (if i < 64 then Done (push_bit i x) else Panic)"

fun range_loop :: "xof \<Rightarrow> range_statement \<Rightarrow> range_proof \<Rightarrow> nat list \<Rightarrow> choice \<Rightarrow> u64 \<Rightarrow> (choice \<times> u64) outcome" where
  "range_loop xof stmt proof [] ok reconstructed = Done (ok, reconstructed)"
| "range_loop xof stmt proof (i # is) ok reconstructed =
     (let the_bit = rp_bits proof ! i AND 1;
          recomputed = bit_commitment xof the_bit (rp_nonces proof ! i);
          ok = choice_and ok (ct_eq recomputed (rs_commitments stmt ! i))
      in case checked_shl (ucast the_bit) i of
           Panic \<Rightarrow> Panic
         | Done b \<Rightarrow> range_loop xof stmt proof is ok (reconstructed OR b))"

definition range_verify :: "xof \<Rightarrow> range_statement \<Rightarrow> range_proof \<Rightarrow> choice result outcome" where
  "range_verify xof stmt proof =
     (let num_bits = length (rs_commitments stmt) in
      if length (rp_bits proof) \<noteq> num_bits \<or> length (rp_nonces proof) \<noteq> num_bits then Done (Inr (Choice 0))
      else case range_loop xof stmt proof [0..<num_bits] (Choice 1) 0 of
        Panic \<Rightarrow> Panic
      | Done (ok, reconstructed) \<Rightarrow>
          (let val = saturating_add reconstructed (rs_min stmt);
               in_range = (rs_min stmt \<le> val \<and> val \<le> rs_max stmt)
           in Done (Inr (choice_and ok (choice_of in_range)))))"

definition range_relation :: "xof \<Rightarrow> (range_witness, range_statement, range_proof) relation" where
  "range_relation xof =
     \<lparr>protocol_label = range_proto,
      statement_from_witness = range_statement_from_witness xof,
      bind_statement = range_bind_statement xof,
      prove = range_prove xof,
      verify = range_verify xof\<rparr>"

section \<open>Bits\<close>

lemma unat_u64: "unat (w :: u64) < 2 ^ 64"
proof -
  have "unat w < 2 ^ LENGTH(64)" by (rule unsigned_less)
  then show ?thesis by simp
qed

lemma leading_zeros_bound: "unat w < 2 ^ (64 - leading_zeros w)"
proof -
  let ?k = "leading_zeros w"
  have k: "?k \<le> 64" unfolding leading_zeros_def
    by (metis diff_zero length_rev length_takeWhile_le length_upt)
  have "\<not> bit w i" if i: "64 - ?k \<le> i" "i < 64" for i
  proof -
    have "63 - i < ?k" using i k by simp
    then have "63 - i < length (takeWhile (\<lambda>i. \<not> bit w i) (rev [0..<64]))"
      by (simp add: leading_zeros_def)
    from takeWhile_nth [OF this] nth_mem [OF this] have "\<not> bit w (rev [0..<64] ! (63 - i))"
      by (metis set_takeWhileD)
    moreover have "rev [0..<64] ! (63 - i) = i" using i by (simp add: rev_nth)
    ultimately show ?thesis by simp
  qed
  then have "take_bit (64 - ?k) w = w"
    by (intro bit_word_eqI) (auto simp: bit_take_bit_iff, metis linorder_not_le)
  then show ?thesis by (metis take_bit_nat_less_exp unsigned_take_bit_eq)
qed

text \<open>The two folds the loop computes: it panics exactly when a position reaches 64.\<close>

definition range_reconstruct :: "bytes \<Rightarrow> nat \<Rightarrow> u64" where
  "range_reconstruct bits n = fold (\<lambda>i r. r OR push_bit i (ucast (bits ! i AND 1))) [0..<n] 0"

lemma range_loop_eq:
  "range_loop xof stmt proof is ok r =
     (if \<forall>i\<in>set is. i < 64 then
        Done (fold (\<lambda>i ok. choice_and ok (ct_eq (bit_commitment xof (rp_bits proof ! i AND 1) (rp_nonces proof ! i))
                (rs_commitments stmt ! i))) is ok,
              fold (\<lambda>i r. r OR push_bit i (ucast (rp_bits proof ! i AND 1))) is r)
      else Panic)"
  by (induction "is" arbitrary: ok r) (simp_all add: checked_shl_def Let_def)

lemma range_verify_eq:
  "range_verify xof stmt proof =
     (let num_bits = length (rs_commitments stmt) in
      if length (rp_bits proof) \<noteq> num_bits \<or> length (rp_nonces proof) \<noteq> num_bits then Done (Inr (Choice 0))
      else if 64 < num_bits then Panic
      else (let ok = fold (\<lambda>i ok. choice_and ok
                       (ct_eq (bit_commitment xof (rp_bits proof ! i AND 1) (rp_nonces proof ! i))
                              (rs_commitments stmt ! i))) [0..<num_bits] (Choice 1);
                val = saturating_add (range_reconstruct (rp_bits proof) num_bits) (rs_min stmt)
            in Done (Inr (choice_and ok (choice_of (rs_min stmt \<le> val \<and> val \<le> rs_max stmt))))))"
proof -
  have "(\<forall>i\<in>set [0..<n]. i < 64) \<longleftrightarrow> n \<le> 64" for n by (cases n) (auto simp: less_Suc_eq_le)
  then show ?thesis
    by (simp add: range_verify_def range_loop_eq range_reconstruct_def Let_def linorder_not_less [symmetric])
qed

lemma range_reconstruct_take_bit:
  assumes "\<And>i. i < n \<Longrightarrow> bits ! i = (ucast (drop_bit i w AND 1) :: byte)" and "n \<le> 64"
  shows "range_reconstruct bits n = take_bit n w"
  using assms
proof (induction n)
  case (Suc n)
  have b: "push_bit n (ucast ((ucast (drop_bit n w AND 1) :: byte) AND 1) :: u64) = push_bit n (drop_bit n w AND 1)"
    by (rule bit_word_eqI) (auto simp: bit_simps bit_1_iff)
  have "take_bit n w OR push_bit n (drop_bit n w AND 1) = take_bit (Suc n) w"
    by (rule bit_word_eqI) (auto simp: bit_simps bit_1_iff less_Suc_eq)
  with Suc b show ?case by (simp add: range_reconstruct_def)
qed (simp add: range_reconstruct_def)

definition in_range :: "range_witness \<Rightarrow> bool" where
  "in_range w \<longleftrightarrow> rw_min w \<le> rw_value w \<and> rw_value w \<le> rw_max w"

lemma range_num_bits_bounds: "1 \<le> range_num_bits w \<and> range_num_bits w \<le> 64"
proof -
  let ?r = "saturating_sub (rw_max w) (rw_min w)"
  have "leading_zeros ?r < 64" if "?r \<noteq> 0"
  proof (rule ccontr)
    assume "\<not> ?thesis"
    then have "unat ?r < 1" using leading_zeros_bound [of ?r] by simp
    with that show False by (simp add: unat_eq_zero)
  qed
  then show ?thesis by (auto simp: range_num_bits_def Let_def MAX_BITS_def)
qed

lemma offset_bound:
  assumes "in_range w"
  shows "unat (rw_value w - rw_min w) < 2 ^ range_num_bits w"
proof -
  let ?r = "saturating_sub (rw_max w) (rw_min w)"
  from assms have le: "rw_min w \<le> rw_value w" "rw_value w \<le> rw_max w" "rw_min w \<le> rw_max w"
    by (auto simp: in_range_def)
  then have "unat (rw_value w - rw_min w) \<le> unat ?r"
    by (simp add: saturating_sub_def unat_sub word_le_nat_alt word_less_nat_alt)
  also have "unat ?r < 2 ^ range_num_bits w"
    using leading_zeros_bound [of ?r] by (simp add: range_num_bits_def Let_def MAX_BITS_def)
  finally show ?thesis .
qed

lemma length_range_nonce [simp]: "length (range_nonce xof w i) = 32"
  by (simp add: range_nonce_def Let_def)

lemma range_corrupt_eq: "range_corrupt w = (if in_range w then 0 else - 1)"
  by (auto simp: range_corrupt_def in_range_def Let_def)

text \<open>The nonces the prover reveals.\<close>

definition revealed_nonce :: "xof \<Rightarrow> range_witness \<Rightarrow> nat \<Rightarrow> bytes" where
  "revealed_nonce xof w i =
     (if i = 0 then (range_nonce xof w 0)[0 := range_nonce xof w 0 ! 0 XOR range_corrupt w]
      else range_nonce xof w i)"

lemma range_prove_eq:
  "range_prove xof w e = Inr (range_statement_from_witness xof w,
     \<lparr>rp_bits = map (range_bit w) [0..<range_num_bits w],
      rp_nonces = map (revealed_nonce xof w) [0..<range_num_bits w]\<rparr>)"
proof -
  obtain n where n: "range_num_bits w = Suc n"
    using range_num_bits_bounds [of w] by (cases "range_num_bits w") auto
  have "map (revealed_nonce xof w) [0..<Suc n] = revealed_nonce xof w 0 # map (range_nonce xof w) [1..<Suc n]"
    by (simp add: upt_conv_Cons revealed_nonce_def del: upt_Suc)
  moreover have "map (range_nonce xof w) [0..<Suc n] = range_nonce xof w 0 # map (range_nonce xof w) [1..<Suc n]"
    by (simp add: upt_conv_Cons del: upt_Suc)
  ultimately show ?thesis
    by (simp add: range_prove_def range_statement_from_witness_def n revealed_nonce_def del: upt_Suc)
qed

lemma revealed_in_range: "in_range w \<Longrightarrow> revealed_nonce xof w i = range_nonce xof w i"
  by (simp add: revealed_nonce_def range_corrupt_eq)

lemma revealed_out_of_range: "\<not> in_range w \<Longrightarrow> revealed_nonce xof w 0 ! 0 \<noteq> range_nonce xof w 0 ! 0"
proof -
  assume "\<not> in_range w"
  then have "revealed_nonce xof w 0 ! 0 = range_nonce xof w 0 ! 0 XOR - 1"
    by (simp only: revealed_nonce_def range_corrupt_eq) simp
  moreover have "b XOR - 1 \<noteq> b" for b :: byte
  proof
    assume "b XOR - 1 = b"
    moreover have "b XOR (b XOR - 1) = - 1"
      by (simp only: xor.assoc [symmetric] xor_self_eq xor.left_neutral)
    ultimately show False by simp
  qed
  ultimately show ?thesis by metis
qed

lemma range_verify_iff:
  assumes "length (rp_bits proof) = n" and "length (rp_nonces proof) = n" and "length (rs_commitments stmt) = n"
    and "n \<le> 64"
  shows "range_verify xof stmt proof = Done (Inr (choice_of
     ((\<forall>i<n. bit_commitment xof (rp_bits proof ! i AND 1) (rp_nonces proof ! i) = rs_commitments stmt ! i) \<and>
      rs_min stmt \<le> saturating_add (range_reconstruct (rp_bits proof) n) (rs_min stmt) \<and>
      saturating_add (range_reconstruct (rp_bits proof) n) (rs_min stmt) \<le> rs_max stmt)))"
  using assms
  by (simp add: range_verify_eq Let_def fold_choice_and ct_eq_def Choice_1 list_all_iff Ball_def)

lemma honest_value:
  assumes "in_range w"
  shows "saturating_add (range_reconstruct (map (range_bit w) [0..<range_num_bits w]) (range_num_bits w)) (rw_min w)
    = rw_value w"
proof -
  let ?o = "rw_value w - rw_min w" and ?n = "range_num_bits w"
  have "range_reconstruct (map (range_bit w) [0..<?n]) ?n = take_bit ?n ?o"
    using range_num_bits_bounds [of w] by (intro range_reconstruct_take_bit) (simp_all add: range_bit_def)
  moreover have "take_bit ?n ?o = ?o"
  proof -
    have "unat (take_bit ?n ?o) = unat ?o"
      using offset_bound [OF assms] by (simp add: unsigned_take_bit_eq take_bit_nat_eq_self)
    then show ?thesis by (simp add: word_unat_eq_iff)
  qed
  moreover have "unat ?o + unat (rw_min w) = unat (rw_value w)"
    using assms by (simp add: in_range_def unat_sub word_le_nat_alt)
  then have "saturating_add ?o (rw_min w) = rw_value w"
    using unat_u64 [of "rw_value w"] by (simp add: saturating_add_def)
  ultimately show ?thesis by simp
qed

definition nonce_message :: "range_witness \<Rightarrow> bytes \<Rightarrow> bytes" where
  "nonce_message w nonce = RANGE_BIT @ [range_bit w 0 AND 1] @ nonce"

lemma bit_commitment_eq: "bit_commitment xof b nonce = shake256_ema xof 32 (RANGE_BIT @ [b AND 1] @ nonce)"
  by (simp add: bit_commitment_def squeeze_eq)

lemma honest_range_verify:
  assumes "collision_free xof 32 {nonce_message w (range_nonce xof w 0), nonce_message w (revealed_nonce xof w 0)}"
    and "range_prove xof w e = Inr (s, p)"
  shows "range_verify xof s p = Done (Inr (choice_of (in_range w)))"
proof -
  let ?n = "range_num_bits w"
  have s: "s = range_statement_from_witness xof w"
    and p: "p = \<lparr>rp_bits = map (range_bit w) [0..<?n], rp_nonces = map (revealed_nonce xof w) [0..<?n]\<rparr>"
    using assms(2) by (simp_all add: range_prove_eq)
  have n: "0 < ?n" "?n \<le> 64" using range_num_bits_bounds [of w] by auto
  have "bit_commitment xof (range_bit w 0 AND 1) (revealed_nonce xof w 0) \<noteq>
      bit_commitment xof (range_bit w 0) (range_nonce xof w 0)" if "\<not> in_range w"
    using collision_freeD [OF assms(1)] revealed_out_of_range [OF that, of xof]
    by (auto dest: arg_cong [where f = "\<lambda>x. x ! 0"] simp: bit_commitment_eq nonce_message_def)
  moreover have "bit_commitment xof (b AND 1) c = bit_commitment xof b c" for b c
    by (simp add: bit_commitment_eq)
  ultimately show ?thesis
    using n honest_value [of w]
    by (auto simp: range_verify_iff [where n = ?n] s p range_statement_from_witness_def revealed_in_range in_range_def)
qed

interpretation range: relation_scheme "range_relation xof" in_range for xof
proof unfold_locales
  show "verify (range_relation xof) s p = Done (Inr (choice_of True))"
    if "in_range w" "prove (range_relation xof) w e = Inr (s, p)" for w e s p
    using honest_range_verify [of xof w e s p] that
    by (simp add: range_relation_def revealed_in_range collision_free_def)
  show "choice_wf c" if "verify (range_relation xof) s p = Done (Inr c)" for s p c
    using that by (auto simp: range_relation_def range_verify_eq Let_def Choice_0 Choice_1
        fold_choice_and ct_eq_def split: if_splits)
qed (simp_all add: range_relation_def range_prove_eq)

section \<open>The number the revealed bits spell\<close>

definition bits_number :: "bytes \<Rightarrow> nat" where
  "bits_number bits = (\<Sum>i<length bits. if odd (unat (bits ! i)) then 2 ^ i else 0)"

lemma odd_unat_byte: "odd (unat b) \<longleftrightarrow> bit b 0" for b :: byte
  by (metis bit_0 bit_unsigned_iff possible_bit_0)

lemma bit_range_reconstruct:
  "n \<le> 64 \<Longrightarrow> bit (range_reconstruct bits n) i \<longleftrightarrow> i < n \<and> odd (unat (bits ! i))"
proof (induction n)
  case (Suc n)
  have p: "bit (push_bit n (ucast (x AND 1) :: u64)) i \<longleftrightarrow> i = n \<and> bit x 0" for x :: byte
    using Suc.prems by (auto simp: bit_simps bit_1_iff)
  have "bit (push_bit n (ucast (bits ! n AND 1) :: u64)) i \<longleftrightarrow> i = n \<and> odd (unat (bits ! n))"
    by (simp only: p odd_unat_byte)
  with Suc show ?case by (auto simp: range_reconstruct_def bit_or_iff less_Suc_eq)
qed (simp add: range_reconstruct_def)

lemma range_reconstruct_number:
  assumes "length bits \<le> 64"
  shows "unat (range_reconstruct bits (length bits)) = bits_number bits"
proof -
  let ?n = "length bits" and ?r = "range_reconstruct bits (length bits)"
  have "take_bit ?n (unat ?r) = unat ?r"
    using assms by (intro bit_eqI) (auto simp: bit_take_bit_iff bit_unsigned_iff bit_range_reconstruct)
  then have "unat ?r = (\<Sum>k = 0..<?n. push_bit k (of_bool (bit (unat ?r) k)))"
    using take_bit_sum [of ?n "unat ?r"] by simp
  also have "\<dots> = bits_number bits"
    unfolding bits_number_def atLeast0LessThan
    using assms by (intro sum.cong) (auto simp: bit_unsigned_iff bit_range_reconstruct push_bit_eq_mult)
  finally show ?thesis .
qed

lemma bit_commitment_and [simp]: "bit_commitment xof (b AND 1) c = bit_commitment xof b c"
  by (simp add: bit_commitment_eq)

text \<open>The two comparisons with the saturated sum.\<close>

lemma saturating_le:
  "lo \<le> saturating_add r lo \<and> saturating_add r lo \<le> hi \<longleftrightarrow> unat lo + unat r \<le> unat hi \<or> hi = - 1"
proof (cases "2 ^ 64 \<le> unat r + unat lo")
  case True
  then have "\<not> unat lo + unat r \<le> unat hi" using unat_u64 [of hi] by linarith
  with True show ?thesis by (simp add: saturating_add_def word_order.extremum_unique)
next
  case False
  then have "unat (r + lo) = unat r + unat lo" by (simp add: unat_word_ariths(1))
  moreover have "unat (r + lo) \<le> unat (- 1 :: u64)"
    using word_order.extremum [of "r + lo"] by (simp only: word_le_nat_alt)
  ultimately show ?thesis
    using False by (auto simp: saturating_add_def word_le_nat_alt)
qed

section \<open>Properties\<close>

text \<open>C18. Range proofs are exact for honest provers: the proof made for a witness is accepted
  when \<open>min \<le> value \<le> max\<close> and rejected otherwise, although the prover never branches on
  the secret (the hash must not collide on the first nonce and its spoiled copy). No
  honest proof makes the verifier panic, for any 64-bit bounds.\<close>

theorem range_proof_exact:
  assumes "collision_free xof 32 {nonce_message w (range_nonce xof w 0), nonce_message w (revealed_nonce xof w 0)}"
    and "range_prove xof w e = Inr (s, p)"
  shows "range_verify xof s p = Done (Inr (choice_of (rw_min w \<le> rw_value w \<and> rw_value w \<le> rw_max w)))"
  using honest_range_verify [OF assms] by (simp add: in_range_def)

theorem range_proof_exact_witness:
  "\<exists>s p. range_prove (\<lambda>m i. m ! 23) \<lparr>rw_value = 9, rw_min = 3, rw_max = 7\<rparr> [] = Inr (s, p) \<and>
     range_verify (\<lambda>m i. m ! 23) s p = Done (Inr (choice_of False))"
proof -
  let ?xof = "(\<lambda>m i. m ! 23) :: xof" and ?w = "\<lparr>rw_value = 9, rw_min = 3, rw_max = 7\<rparr> :: range_witness"
  obtain s p where sp: "range_prove ?xof ?w [] = Inr (s, p)" by (simp add: range_prove_eq)
  have "\<not> in_range ?w" by (simp add: in_range_def word_le_nat_alt)
  from revealed_out_of_range [OF this, of ?xof]
  have "collision_free ?xof 32 {nonce_message ?w (range_nonce ?xof ?w 0), nonce_message ?w (revealed_nonce ?xof ?w 0)}"
    by (intro collision_free_pairI [of 0])
       (simp_all add: nonce_message_def nth_append RANGE_BIT_def)
  from range_proof_exact [OF this sp] sp show ?thesis by (auto simp: word_le_nat_alt)
qed

text \<open>C31. The range verifier, exactly, on any statement and any proof: it rejects when the lengths
  do not match, panics on more than 64 commitments, and otherwise accepts exactly when
  hashing the revealed bits and nonces gives the commitments and the number the bits spell
  in binary, added to \<open>min\<close> without overflow, is at most \<open>max\<close> - except that for the
  largest 64-bit \<open>max\<close> it accepts every number, overflowing ones included, since the sum saturates.\<close>

theorem range_verify_exact:
  "range_verify xof s p =
     (if length (rp_bits p) \<noteq> length (rs_commitments s) \<or> length (rp_nonces p) \<noteq> length (rs_commitments s)
      then Done (Inr (choice_of False))
      else if 64 < length (rs_commitments s) then Panic
      else Done (Inr (choice_of
        (map2 (bit_commitment xof) (rp_bits p) (rp_nonces p) = rs_commitments s \<and>
         (unat (rs_min s) + bits_number (rp_bits p) \<le> unat (rs_max s) \<or> rs_max s = - 1)))))"
proof -
  let ?n = "length (rs_commitments s)"
  consider (shape) "length (rp_bits p) \<noteq> ?n \<or> length (rp_nonces p) \<noteq> ?n"
    | (long) "length (rp_bits p) = ?n" "length (rp_nonces p) = ?n" "64 < ?n"
    | (ok) "length (rp_bits p) = ?n" "length (rp_nonces p) = ?n" "?n \<le> 64"
    by linarith
  then show ?thesis
  proof cases
    case shape
    then show ?thesis by (auto simp: range_verify_eq Choice_0)
  next
    case long
    then show ?thesis by (simp add: range_verify_eq)
  next
    case ok
    have "(\<forall>i<?n. bit_commitment xof (rp_bits p ! i AND 1) (rp_nonces p ! i) = rs_commitments s ! i) \<longleftrightarrow>
        map2 (bit_commitment xof) (rp_bits p) (rp_nonces p) = rs_commitments s"
      using ok by (auto simp: list_eq_iff_nth_eq bit_commitment_and)
    moreover have "unat (range_reconstruct (rp_bits p) ?n) = bits_number (rp_bits p)"
      using ok range_reconstruct_number [of "rp_bits p"] by simp
    ultimately show ?thesis
      using ok range_verify_iff [OF ok(1,2) refl ok(3), of xof]
        saturating_le [of "rs_min s" "range_reconstruct (rp_bits p) ?n" "rs_max s"]
      by simp
  qed
qed

theorem range_verify_exact_witness:
  "range_verify (\<lambda>m i. 0) \<lparr>rs_commitments = [zeros 32, zeros 32], rs_min = 3, rs_max = 7\<rparr>
     \<lparr>rp_bits = [1, 0], rp_nonces = [zeros 32, zeros 32]\<rparr> = Done (Inr (choice_of True)) \<and>
   range_verify (\<lambda>m i. 0) \<lparr>rs_commitments = [zeros 32, zeros 32], rs_min = 6, rs_max = 7\<rparr>
     \<lparr>rp_bits = [0, 1], rp_nonces = [zeros 32, zeros 32]\<rparr> = Done (Inr (choice_of False)) \<and>
   range_verify (\<lambda>m i. 0) \<lparr>rs_commitments = [zeros 32, zeros 32], rs_min = - 2, rs_max = - 1\<rparr>
     \<lparr>rp_bits = [1, 1], rp_nonces = [zeros 32, zeros 32]\<rparr> = Done (Inr (choice_of True))"
proof -
  have "bit_commitment (\<lambda>m i. 0) b c = zeros 32" for b c
    by (simp add: bit_commitment_eq shake256_ema_def map_replicate_const)
  then show ?thesis
    by (simp add: range_verify_exact bits_number_def)
qed

text \<open>A statement with more than 64 commitments, with a proof of matching shape, makes the
  verifier panic: the shift by the position of the bit overflows.\<close>

theorem range_verify_panics:
  assumes "64 < length (rs_commitments s)" and "length (rp_bits p) = length (rs_commitments s)"
    and "length (rp_nonces p) = length (rs_commitments s)"
  shows "range_verify xof s p = Panic"
  using assms by (simp add: range_verify_eq)

theorem range_verify_panics_witness:
  "range_verify (\<lambda>m i. 0) \<lparr>rs_commitments = replicate 65 (zeros 32), rs_min = 0, rs_max = 1\<rparr>
     \<lparr>rp_bits = zeros 65, rp_nonces = replicate 65 (zeros 32)\<rparr> = Panic"
  by (rule range_verify_panics) simp_all

end
