(* ===== verification/Backend.thy ===== *)
theory Backend
  imports Prelude
begin

text \<open>
  The adapter \<^verbatim>\<open>src/src/pq_backends/libcrux_backend.rs\<close> over the third-party
  implementations of ML-KEM-768 and ML-DSA-65. The library is a parameter, the record
  \<open>libcrux\<close> of its operations on byte strings; what the engine relies on (FIPS 203 and
  204: key and ciphertext sizes, decapsulation inverts encapsulation, signatures verify)
  is the predicate \<open>libcrux_correct\<close>, a hypothesis of the theorems that need it.
\<close>

record libcrux =
  generate_kem_key_pair :: "bytes \<Rightarrow> bytes \<times> bytes"
  encapsulate :: "bytes \<Rightarrow> bytes \<Rightarrow> bytes \<times> bytes"
  decapsulate :: "bytes \<Rightarrow> bytes \<Rightarrow> bytes"
  generate_dsa_key_pair :: "bytes \<Rightarrow> bytes \<times> bytes"
  sign :: "bytes \<Rightarrow> bytes \<Rightarrow> bytes \<Rightarrow> bytes \<Rightarrow> bytes option"
  verify_sig :: "bytes \<Rightarrow> bytes \<Rightarrow> bytes \<Rightarrow> bytes \<Rightarrow> bool"

text \<open>A key pair is (public, private) for the KEM and (verification, signing) for signatures.\<close>

definition KEM_PK_SIZE :: nat where "KEM_PK_SIZE = 1184"
definition KEM_SK_SIZE :: nat where "KEM_SK_SIZE = 2400"
definition KEM_CT_SIZE :: nat where "KEM_CT_SIZE = 1088"
definition KEM_SS_SIZE :: nat where "KEM_SS_SIZE = 32"
definition KEM_SEED_SIZE :: nat where "KEM_SEED_SIZE = 64"
definition DSA_VK_SIZE :: nat where "DSA_VK_SIZE = 1952"
definition DSA_SK_SIZE :: nat where "DSA_SK_SIZE = 4032"
definition DSA_SIG_SIZE :: nat where "DSA_SIG_SIZE = 3309"
definition DSA_SEED_SIZE :: nat where "DSA_SEED_SIZE = 32"

definition validate_kem_pk :: "bytes \<Rightarrow> bool" where
  "validate_kem_pk pk \<longleftrightarrow> length pk = KEM_PK_SIZE"

definition validate_dsa_vk :: "bytes \<Rightarrow> bool" where
  "validate_dsa_vk vk \<longleftrightarrow> length vk = DSA_VK_SIZE"

definition kem_keygen :: "libcrux \<Rightarrow> bytes \<Rightarrow> bytes \<times> bytes" where
  "kem_keygen lib seed = generate_kem_key_pair lib seed"

definition dsa_keygen :: "libcrux \<Rightarrow> bytes \<Rightarrow> bytes \<times> bytes" where
  "dsa_keygen lib seed = generate_dsa_key_pair lib seed"

definition kem_encapsulate :: "libcrux \<Rightarrow> bytes \<Rightarrow> bytes \<Rightarrow> bytes \<times> bytes" where
  "kem_encapsulate lib pk randomness = encapsulate lib pk randomness"

definition kem_decapsulate :: "libcrux \<Rightarrow> bytes \<Rightarrow> bytes \<Rightarrow> bytes" where
  "kem_decapsulate lib sk ct = decapsulate lib sk ct"

definition dsa_sign :: "libcrux \<Rightarrow> bytes \<Rightarrow> bytes \<Rightarrow> bytes \<Rightarrow> bytes \<Rightarrow> bytes result" where
  "dsa_sign lib sk message ctxt randomness =
     (case sign lib sk message ctxt randomness of None \<Rightarrow> Inl Crypto | Some s \<Rightarrow> Inr s)"

definition dsa_verify :: "libcrux \<Rightarrow> bytes \<Rightarrow> bytes \<Rightarrow> bytes \<Rightarrow> bytes \<Rightarrow> unit result" where
  "dsa_verify lib vk message ctxt signature =
     (if verify_sig lib vk message ctxt signature then Inr () else Inl Crypto)"

text \<open>Serialisation: a key in the model is the byte string that encodes it.\<close>

definition kem_pk_bytes :: "bytes \<times> bytes \<Rightarrow> bytes" where "kem_pk_bytes kp = fst kp"
definition kem_sk_bytes :: "bytes \<times> bytes \<Rightarrow> bytes" where "kem_sk_bytes kp = snd kp"
definition dsa_vk_bytes :: "bytes \<times> bytes \<Rightarrow> bytes" where "dsa_vk_bytes kp = fst kp"
definition dsa_sk_bytes :: "bytes \<times> bytes \<Rightarrow> bytes" where "dsa_sk_bytes kp = snd kp"
definition kem_pk_from_bytes :: "bytes \<Rightarrow> bytes" where "kem_pk_from_bytes bs = bs"
definition kem_sk_from_bytes :: "bytes \<Rightarrow> bytes" where "kem_sk_from_bytes bs = bs"

text \<open>\<open>Result::is_ok\<close>.\<close>

definition is_ok :: "'a result \<Rightarrow> bool" where
  "is_ok r \<longleftrightarrow> (case r of Inl _ \<Rightarrow> False | Inr _ \<Rightarrow> True)"

lemma is_ok_dsa_verify [simp]: "is_ok (dsa_verify lib vk m c s) \<longleftrightarrow> verify_sig lib vk m c s"
  by (simp add: is_ok_def dsa_verify_def)

section \<open>What the engine relies on\<close>

definition kem_correct :: "libcrux \<Rightarrow> bool" where
  "kem_correct lib \<longleftrightarrow>
     (\<forall>seed coins. length (fst (generate_kem_key_pair lib seed)) = KEM_PK_SIZE \<and>
        decapsulate lib (snd (generate_kem_key_pair lib seed))
          (fst (encapsulate lib (fst (generate_kem_key_pair lib seed)) coins)) =
        snd (encapsulate lib (fst (generate_kem_key_pair lib seed)) coins))"

definition dsa_correct :: "libcrux \<Rightarrow> bool" where
  "dsa_correct lib \<longleftrightarrow>
     (\<forall>seed m c r s. length (fst (generate_dsa_key_pair lib seed)) = DSA_VK_SIZE \<and>
        (sign lib (snd (generate_dsa_key_pair lib seed)) m c r = Some s \<longrightarrow>
         length s = DSA_SIG_SIZE \<and> verify_sig lib (fst (generate_dsa_key_pair lib seed)) m c s))"

definition libcrux_correct :: "libcrux \<Rightarrow> bool" where
  "libcrux_correct lib \<longleftrightarrow> kem_correct lib \<and> dsa_correct lib"

text \<open>
  An implementation with these properties, used to evaluate witnesses: public and private
  keys are the padded seed, a ciphertext is the coins, a signature is the padded digestless
  message and context.
\<close>

definition pad_to :: "nat \<Rightarrow> bytes \<Rightarrow> bytes" where
  "pad_to n bs = take n (bs @ zeros n)"

lemma length_pad_to [simp]: "length (pad_to n bs) = n"
  by (simp add: pad_to_def)

definition demo_libcrux :: libcrux where
  "demo_libcrux =
     \<lparr>generate_kem_key_pair = \<lambda>seed. (pad_to 1184 seed, seed),
      encapsulate = \<lambda>pk coins. (coins, coins),
      decapsulate = \<lambda>sk ct. ct,
      generate_dsa_key_pair = \<lambda>seed. (pad_to 1952 seed, pad_to 1952 seed),
      sign = \<lambda>sk m c r. Some (pad_to 3309 (m @ c @ sk)),
      verify_sig = \<lambda>vk m c s. s = pad_to 3309 (m @ c @ vk)\<rparr>"

lemma demo_libcrux_correct: "libcrux_correct demo_libcrux"
  by (simp add: libcrux_correct_def kem_correct_def dsa_correct_def demo_libcrux_def KEM_PK_SIZE_def
        DSA_VK_SIZE_def DSA_SIG_SIZE_def)

end
