(* ===== verification/Keygen.thy ===== *)
theory Keygen
  imports Shake Domain Backend
begin

unbundle bit_operations_syntax

text \<open>
  L2, ephemeral key generation: \<^verbatim>\<open>src/src/layers/l2_keygen.rs\<close>. A seed is its 64
  bytes. HKDF (crates hkdf and sha2) is a parameter of the two generators that use it.
\<close>

type_synonym seed = bytes

record ephemeral_keys =
  kem_pk :: bytes
  kem_sk :: bytes
  dsa_vk :: bytes
  dsa_sk :: bytes

text \<open>The two key pairs the struct holds.\<close>

abbreviation kem_kp :: "ephemeral_keys \<Rightarrow> bytes \<times> bytes" where "kem_kp keys \<equiv> (kem_pk keys, kem_sk keys)"
abbreviation dsa_kp :: "ephemeral_keys \<Rightarrow> bytes \<times> bytes" where "dsa_kp keys \<equiv> (dsa_vk keys, dsa_sk keys)"

text \<open>\<open>Drop\<close>: both private keys are wiped in place.\<close>

definition ephemeral_keys_drop :: "ephemeral_keys \<Rightarrow> ephemeral_keys" where
  "ephemeral_keys_drop k = k\<lparr>kem_sk := zeros (length (kem_sk k)), dsa_sk := zeros (length (dsa_sk k))\<rparr>"

definition derive :: "xof \<Rightarrow> nat \<Rightarrow> seed \<Rightarrow> bytes \<Rightarrow> bytes" where
  "derive xof n seed tag =
     (let h = update shake_new tag;
          h = update h seed
      in squeeze xof h n)"

text \<open>\<open>Hkdf::new(Some(salt), ikm).expand(info, out)\<close>: \<open>None\<close> when \<open>out\<close> is too long.\<close>

type_synonym hkdf = "bytes \<Rightarrow> bytes \<Rightarrow> bytes \<Rightarrow> nat \<Rightarrow> bytes option"

definition derive_hkdf :: "hkdf \<Rightarrow> nat \<Rightarrow> seed \<Rightarrow> bytes \<Rightarrow> bytes result" where
  "derive_hkdf hkdf n seed tag =
     (case hkdf tag seed (ascii ''veil7:kdf:v1'') n of None \<Rightarrow> Inl Crypto | Some out \<Rightarrow> Inr out)"

definition mlkem768_generate :: "libcrux \<Rightarrow> hkdf \<Rightarrow> seed \<Rightarrow> (bytes \<times> bytes) result" where
  "mlkem768_generate lib hkdf seed =
     res_bind (derive_hkdf hkdf 64 seed KEM_SEED) (\<lambda>kem_seed. Inr (kem_keygen lib kem_seed))"

definition mldsa65_generate :: "libcrux \<Rightarrow> hkdf \<Rightarrow> seed \<Rightarrow> (bytes \<times> bytes) result" where
  "mldsa65_generate lib hkdf seed =
     res_bind (derive_hkdf hkdf 32 seed SIG_SEED) (\<lambda>sig_seed. Inr (dsa_keygen lib sig_seed))"

definition validate_keys :: "ephemeral_keys \<Rightarrow> unit result" where
  "validate_keys keys =
     (if \<not> validate_kem_pk (kem_pk_bytes (kem_kp keys)) then Inl Crypto
      else if \<not> validate_dsa_vk (dsa_vk_bytes (dsa_kp keys)) then Inl Crypto
      else Inr ())"

definition validate_key_strength :: "ephemeral_keys \<Rightarrow> unit result" where
  "validate_key_strength keys =
     (if length (kem_pk_bytes (kem_kp keys)) \<noteq> 1184 then Inl Crypto
      else if length (dsa_vk_bytes (dsa_kp keys)) \<noteq> 1952 then Inl Crypto
      else Inr ())"

definition derive_keys :: "libcrux \<Rightarrow> xof \<Rightarrow> seed \<Rightarrow> ephemeral_keys result" where
  "derive_keys lib xof seed =
     (let kem_seed_bytes = derive xof 64 seed KEM_SEED;
          (kpk, ksk) = kem_keygen lib kem_seed_bytes;
          sig_seed_bytes = derive xof 32 seed SIG_SEED;
          (vk, sk) = dsa_keygen lib sig_seed_bytes;
          keys = \<lparr>kem_pk = kpk, kem_sk = ksk, dsa_vk = vk, dsa_sk = sk\<rparr>
      in res_bind (validate_keys keys) (\<lambda>_.
         res_bind (validate_key_strength keys) (\<lambda>_. Inr keys)))"

text \<open>The exclusive or of all seeds, starting from 64 zero bytes.\<close>

definition combine_seeds :: "seed list \<Rightarrow> bytes" where
  "combine_seeds seeds = xor_fold seeds (zeros 64)"

definition derive_keys_multi_source :: "libcrux \<Rightarrow> xof \<Rightarrow> seed list \<Rightarrow> ephemeral_keys result" where
  "derive_keys_multi_source lib xof seeds =
     (if seeds = [] then Inl Crypto else derive_keys lib xof (combine_seeds seeds))"

section \<open>Correctness\<close>

lemma derive_eq: "n \<le> 256 \<Longrightarrow> derive xof n seed tag = shake256_ema xof n (tag @ seed)"
  by (simp add: derive_def squeeze_eq)

text \<open>The keys a seed determines.\<close>

definition keys_of :: "libcrux \<Rightarrow> xof \<Rightarrow> seed \<Rightarrow> ephemeral_keys" where
  "keys_of lib xof seed =
     (let kp = generate_kem_key_pair lib (derive xof 64 seed KEM_SEED);
          dp = generate_dsa_key_pair lib (derive xof 32 seed SIG_SEED)
      in \<lparr>kem_pk = fst kp, kem_sk = snd kp, dsa_vk = fst dp, dsa_sk = snd dp\<rparr>)"

lemma derive_keys_eq:
  "derive_keys lib xof seed =
     (if length (kem_pk (keys_of lib xof seed)) = KEM_PK_SIZE \<and> length (dsa_vk (keys_of lib xof seed)) = DSA_VK_SIZE
      then Inr (keys_of lib xof seed) else Inl Crypto)"
  by (auto simp: derive_keys_def keys_of_def kem_keygen_def dsa_keygen_def validate_keys_def validate_key_strength_def
        validate_kem_pk_def validate_dsa_vk_def kem_pk_bytes_def dsa_vk_bytes_def KEM_PK_SIZE_def DSA_VK_SIZE_def
        Let_def split: prod.split)

lemma derive_keys_correct: "libcrux_correct lib \<Longrightarrow> derive_keys lib xof seed = Inr (keys_of lib xof seed)"
  by (simp add: derive_keys_eq libcrux_correct_def kem_correct_def dsa_correct_def keys_of_def Let_def)

lemma keys_of_sel:
  "kem_pk (keys_of lib xof seed) = fst (generate_kem_key_pair lib (derive xof 64 seed KEM_SEED))"
  "kem_sk (keys_of lib xof seed) = snd (generate_kem_key_pair lib (derive xof 64 seed KEM_SEED))"
  "dsa_vk (keys_of lib xof seed) = fst (generate_dsa_key_pair lib (derive xof 32 seed SIG_SEED))"
  "dsa_sk (keys_of lib xof seed) = snd (generate_dsa_key_pair lib (derive xof 32 seed SIG_SEED))"
  by (simp_all add: keys_of_def Let_def)

text \<open>Combining seeds: as long as one of the seeds differs, the combined seed differs, and
  the keys derived from several seeds are those of the combined seed; an empty list is
  an error.\<close>

theorem multi_source_keys:
  assumes "list_all (\<lambda>s. length s = 64) (as @ bs)" and "length x = 64" and "length y = 64" and "x \<noteq> y"
  shows "combine_seeds (as @ x # bs) \<noteq> combine_seeds (as @ y # bs) \<and>
    derive_keys_multi_source lib xof (as @ x # bs) = derive_keys lib xof (combine_seeds (as @ x # bs)) \<and>
    derive_keys_multi_source lib xof [] = Inl Crypto"
  using xor_fold_sensitive [of 64 as bs "zeros 64" x y] assms
  by (auto simp: combine_seeds_def derive_keys_multi_source_def)

theorem multi_source_keys_witness:
  "combine_seeds [zeros 64, replicate 64 1] \<noteq> combine_seeds [zeros 64, replicate 64 2]"
  using multi_source_keys [of "[zeros 64]" "[]" "replicate 64 1" "replicate 64 2"] by simp

end
