(* ===== verification/Attestation.thy ===== *)
theory Attestation
  imports Keygen
begin

unbundle bit_operations_syntax

text \<open>
  L3 commitment, L4 proof generation, L5 verification, L6 zeroisation and L7 emission:
  \<^verbatim>\<open>src/src/layers/l3_commit.rs\<close> to \<^verbatim>\<open>l7_emit.rs\<close>. The pluggable \<open>Prover\<close> and
  \<open>Verifier\<close> traits are functions passed to the pipeline; the ML-DSA-65 instances are
  defined here, the ML-DSA-87 ones are the stubs of the source.
\<close>

section \<open>The byte-diversity checks of L3, L4 and L7\<close>

text \<open>The counting loop over a table of 256 flags.\<close>

definition unique_count :: "bytes \<Rightarrow> nat" where
  "unique_count bs =
     snd (fold (\<lambda>b (seen, n). if \<not> seen ! unat b then (seen[unat b := True], n + 1) else (seen, n))
            bs (replicate 256 False, 0))"

lemma unat_byte: "unat (b :: byte) < 256"
proof -
  have "unat b < 2 ^ LENGTH(8)" by (rule unsigned_less)
  then show ?thesis by simp
qed

lemma unique_count_upto:
  fixes bs :: bytes
  assumes "length seen = 256" and "n = card {b :: byte. seen ! unat b}"
  shows "snd (fold (\<lambda>b (seen, n). if \<not> seen ! unat b then (seen[unat b := True], n + 1) else (seen, n)) bs (seen, n))
    = card ({b. seen ! unat b} \<union> set bs)"
  using assms
proof (induction bs arbitrary: seen n)
  case (Cons b bs)
  show ?case
  proof (cases "seen ! unat b")
    case True
    then have "{c. seen ! unat c} \<union> set (b # bs) = {c. seen ! unat c} \<union> set bs" by auto
    with True Cons show ?thesis by simp
  next
    case False
    have s: "{c :: byte. seen[unat b := True] ! unat c} = insert b {c. seen ! unat c}"
      using Cons.prems(1) unat_byte by (auto simp: nth_list_update word_unat_eq_iff)
    from False have "card (insert b {c. seen ! unat c}) = n + 1"
      using Cons.prems(2) by simp
    with Cons.IH [of "seen[unat b := True]" "n + 1"] Cons.prems(1) False s show ?thesis by simp
  qed
qed simp

text \<open>The loop counts distinct byte values.\<close>

lemma unique_count_eq: "unique_count bs = card (set bs)"
proof -
  have "{b :: byte. replicate 256 False ! unat b} = {}" using unat_byte by simp
  then show ?thesis
    using unique_count_upto [of "replicate 256 False" 0 bs] by (simp add: unique_count_def)
qed

section \<open>L3: commitment\<close>

definition COMMITMENT_LEN :: nat where "COMMITMENT_LEN = 32"

record commitment =
  commitment_bytes :: bytes

definition validate_commitment :: "commitment \<Rightarrow> unit result" where
  "validate_commitment c =
     (let bs = commitment_bytes c in
      if list_all (\<lambda>b. b = 0) bs then Inl Crypto
      else if list_all (\<lambda>b. b = 0xFF) bs then Inl Crypto
      else Inr ())"

definition validate_commitment_strength :: "commitment \<Rightarrow> unit result" where
  "validate_commitment_strength c =
     (let bs = commitment_bytes c; first_byte = bs ! 0 in
      if list_all (\<lambda>b. b = first_byte) bs then Inl Crypto
      else if unique_count bs < 4 then Inl Crypto
      else Inr ())"

definition commit :: "xof \<Rightarrow> ephemeral_keys \<Rightarrow> bytes \<Rightarrow> commitment" where
  "commit xof keys claim =
     (let h = update shake_new COMMITMENT;
          h = update h (kem_pk_bytes (kem_kp keys));
          h = update h (dsa_vk_bytes (dsa_kp keys));
          h = update h claim
      in \<lparr>commitment_bytes = squeeze xof h COMMITMENT_LEN\<rparr>)"

definition shake256_commitment_commit :: "xof \<Rightarrow> ephemeral_keys \<Rightarrow> bytes \<Rightarrow> commitment" where
  "shake256_commitment_commit xof keys claim = commit xof keys claim"

text \<open>\<open>Debug for Commitment\<close> prints the same text for every commitment.\<close>

definition commitment_debug :: "commitment \<Rightarrow> string" where
  "commitment_debug c = ''Commitment { bytes: '' @ [CHR 0x22] @ ''[redacted]'' @ [CHR 0x22] @ '' }''"

definition commit_multi_source :: "xof \<Rightarrow> ephemeral_keys \<Rightarrow> bytes \<Rightarrow> bytes \<Rightarrow> commitment" where
  "commit_multi_source xof keys claim additional_context =
     (let h = update shake_new COMMITMENT;
          h = update h (kem_pk_bytes (kem_kp keys));
          h = update h (dsa_vk_bytes (dsa_kp keys));
          h = update h claim;
          h = update h additional_context
      in \<lparr>commitment_bytes = squeeze xof h COMMITMENT_LEN\<rparr>)"

section \<open>L4: proof generation\<close>

definition SIG_CTX :: bytes where
  "SIG_CTX = ascii ''veil7:proof:v1''"

record sig_proof =
  pr_sig :: bytes

definition sig_proof_drop :: "sig_proof \<Rightarrow> sig_proof" where
  "sig_proof_drop p = p\<lparr>pr_sig := zeros (length (pr_sig p))\<rparr>"

definition validate_proof :: "sig_proof \<Rightarrow> unit result" where
  "validate_proof p =
     (let bs = pr_sig p in
      if length bs \<noteq> DSA_SIG_SIZE then Inl Crypto
      else if list_all (\<lambda>b. b = 0) bs then Inl Crypto
      else if list_all (\<lambda>b. b = 0xFF) bs then Inl Crypto
      else Inr ())"

definition validate_proof_strength :: "sig_proof \<Rightarrow> unit result" where
  "validate_proof_strength p =
     (let bs = pr_sig p; first_byte = bs ! 0 in
      if list_all (\<lambda>b. b = first_byte) bs then Inl Crypto
      else if unique_count bs < 10 then Inl Crypto
      else Inr ())"

definition derive_sig_randomness :: "xof \<Rightarrow> commitment \<Rightarrow> bytes" where
  "derive_sig_randomness xof c =
     (let h = update shake_new (ascii ''veil7:l4:sig-randomness:v1'');
          h = update h (commitment_bytes c)
      in squeeze xof h 32)"

type_synonym prover = "ephemeral_keys \<Rightarrow> commitment \<Rightarrow> sig_proof result"

definition mldsa_prover :: "libcrux \<Rightarrow> xof \<Rightarrow> prover" where
  "mldsa_prover lib xof keys c =
     (let sig_randomness = derive_sig_randomness xof c
      in res_bind (dsa_sign lib (dsa_sk keys) (commitment_bytes c) SIG_CTX sig_randomness)
           (\<lambda>sig. Inr \<lparr>pr_sig = sig\<rparr>))"

definition mldsa65_scheme_prove :: "libcrux \<Rightarrow> xof \<Rightarrow> prover" where
  "mldsa65_scheme_prove lib xof keys c = mldsa_prover lib xof keys c"

definition mldsa87_scheme_prove :: prover where
  "mldsa87_scheme_prove keys c = Inl Crypto"

definition sig_ctx :: bytes where
  "sig_ctx = SIG_CTX"

section \<open>L5: verification\<close>

type_synonym verifier = "ephemeral_keys \<Rightarrow> bytes \<Rightarrow> sig_proof \<Rightarrow> choice result"

definition kem_roundtrip :: "libcrux \<Rightarrow> xof \<Rightarrow> ephemeral_keys \<Rightarrow> commitment \<Rightarrow> choice result" where
  "kem_roundtrip lib xof keys c =
     (let h = update shake_new KEM_ENCAP_COINS;
          h = update h (commitment_bytes c);
          m = squeeze xof h 32;
          (ct, ss_send) = kem_encapsulate lib (kem_pk keys) m;
          ss_recv = kem_decapsulate lib (kem_sk keys) ct
      in Inr (ct_eq ss_send ss_recv))"

definition mldsa_verifier :: "libcrux \<Rightarrow> xof \<Rightarrow> verifier" where
  "mldsa_verifier lib xof keys claim proof =
     (let recommitment = commit xof keys claim;
          sig_ok = is_ok (dsa_verify lib (dsa_vk keys) (commitment_bytes recommitment) sig_ctx (pr_sig proof))
      in res_bind (kem_roundtrip lib xof keys recommitment) (\<lambda>kem_ok.
           Inr (choice_and (choice_of sig_ok) kem_ok)))"

definition mldsa65_scheme_verify :: "libcrux \<Rightarrow> xof \<Rightarrow> verifier" where
  "mldsa65_scheme_verify lib xof keys claim proof = mldsa_verifier lib xof keys claim proof"

definition mldsa87_scheme_verify :: verifier where
  "mldsa87_scheme_verify keys claim proof = Inl Crypto"

definition validate_verification_result :: "choice \<Rightarrow> unit result" where
  "validate_verification_result r =
     (if unwrap_u8 r \<noteq> 0 \<and> unwrap_u8 r \<noteq> 1 then Inl Crypto else Inr ())"

definition verify_multi_check :: "libcrux \<Rightarrow> xof \<Rightarrow> verifier" where
  "verify_multi_check lib xof keys claim proof =
     res_bind (validate_proof proof) (\<lambda>_.
     res_bind (validate_proof_strength proof) (\<lambda>_.
     res_bind (mldsa_verifier lib xof keys claim proof) (\<lambda>standard_result.
     res_bind (validate_verification_result standard_result) (\<lambda>_.
     Inr standard_result))))"

section \<open>L6: zeroisation\<close>

definition zeroizing_new :: "bytes \<Rightarrow> bytes" where
  "zeroizing_new bs = bs"

definition zeroizing_as_bytes :: "bytes \<Rightarrow> bytes" where
  "zeroizing_as_bytes z = z"

definition zeroizing_drop :: "bytes \<Rightarrow> bytes" where
  "zeroizing_drop bs = zeros (length bs)"

text \<open>\<open>scrub\<close> consumes the keys: what remains of them is their dropped state.\<close>

definition scrub :: "ephemeral_keys \<Rightarrow> ephemeral_keys" where
  "scrub keys = ephemeral_keys_drop keys"

definition validate_zeroization :: "bytes \<Rightarrow> unit result" where
  "validate_zeroization buffer = (if \<not> list_all (\<lambda>b. b = 0) buffer then Inl Crypto else Inr ())"

definition validate_zeroization_strength :: "bytes \<Rightarrow> unit result" where
  "validate_zeroization_strength buffer = (if \<not> list_all (\<lambda>b. b = 0) buffer then Inl Crypto else Inr ())"

text \<open>Zero, poison with \<open>0xDE\<close>, zero again.\<close>

definition zeroize_multi_pass :: "bytes \<Rightarrow> bytes" where
  "zeroize_multi_pass buffer =
     (let b1 = map (\<lambda>_. 0 :: byte) buffer; b2 = map (\<lambda>_. 0xDE :: byte) b1 in map (\<lambda>_. 0) b2)"

section \<open>L7: emission\<close>

record verdict =
  v_valid :: choice
  v_transcript :: bytes

definition verdict_new :: "xof \<Rightarrow> choice \<Rightarrow> commitment \<Rightarrow> verdict" where
  "verdict_new xof valid c =
     (let h = update shake_new TRANSCRIPT;
          h = update h (commitment_bytes c)
      in \<lparr>v_valid = valid, v_transcript = squeeze xof h 32\<rparr>)"

definition basic_verdict_new :: "xof \<Rightarrow> choice \<Rightarrow> commitment \<Rightarrow> verdict" where
  "basic_verdict_new xof valid c = verdict_new xof valid c"

definition from_statement_digest :: "xof \<Rightarrow> choice \<Rightarrow> bytes \<Rightarrow> verdict" where
  "from_statement_digest xof valid statement_digest =
     (let h = update shake_new TRANSCRIPT;
          h = update h statement_digest
      in \<lparr>v_valid = valid, v_transcript = squeeze xof h 32\<rparr>)"

definition from_batch :: "choice \<Rightarrow> bytes \<Rightarrow> verdict" where
  "from_batch valid batch_transcript = \<lparr>v_valid = valid, v_transcript = batch_transcript\<rparr>"

definition is_valid :: "verdict \<Rightarrow> choice" where
  "is_valid v = v_valid v"

definition is_valid_bool :: "verdict \<Rightarrow> bool" where
  "is_valid_bool v \<longleftrightarrow> unwrap_u8 (v_valid v) = 1"

definition validate_verdict :: "verdict \<Rightarrow> unit result" where
  "validate_verdict v =
     (let valid_value = unwrap_u8 (v_valid v) in
      if valid_value \<noteq> 0 \<and> valid_value \<noteq> 1 then Inl Crypto
      else if unwrap_u8 (ct_eq (v_transcript v) (zeros 32)) = 1 then Inl Crypto
      else if unwrap_u8 (ct_eq (v_transcript v) (replicate 32 0xFF)) = 1 then Inl Crypto
      else Inr ())"

definition validate_verdict_strength :: "verdict \<Rightarrow> unit result" where
  "validate_verdict_strength v =
     (let t = v_transcript v; first_byte = t ! 0; filled = replicate 32 first_byte in
      if unwrap_u8 (ct_eq t filled) = 1 then Inl Crypto
      else if unique_count t < 4 then Inl Crypto
      else Inr ())"

definition verdict_multi_source :: "xof \<Rightarrow> verdict \<Rightarrow> bytes \<Rightarrow> verdict" where
  "verdict_multi_source xof v additional_context =
     (let h = update shake_new TRANSCRIPT;
          h = update h (v_transcript v);
          h = update h additional_context
      in \<lparr>v_valid = v_valid v, v_transcript = squeeze xof h 32\<rparr>)"

definition verdict_blind :: "xof \<Rightarrow> verdict \<Rightarrow> bytes \<Rightarrow> verdict" where
  "verdict_blind xof v blinding =
     (let h = update shake_new (ascii ''veil7:L7:blinding:v1'');
          h = update h (v_transcript v);
          h = update h blinding
      in \<lparr>v_valid = v_valid v, v_transcript = squeeze xof h 32\<rparr>)"

text \<open>\<open>Debug for Verdict\<close>: the text it prints.\<close>

definition hex_digit :: "nat \<Rightarrow> char" where
  "hex_digit n = ''0123456789abcdef'' ! n"

definition verdict_debug :: "verdict \<Rightarrow> string" where
  "verdict_debug v =
     ''Verdict { valid: '' @ (if unwrap_u8 (v_valid v) = 1 then ''1'' else ''0'') @ '', transcript: '' @
     concat (map (\<lambda>b. [hex_digit (unat (drop_bit 4 b)), hex_digit (unat (b AND 0x0f))]) (v_transcript v)) @ '' }''"

section \<open>Properties\<close>

lemma few_distinct:
  "list_all (\<lambda>b. b = x) bs \<Longrightarrow> card (set bs) \<le> 1"
proof -
  assume "list_all (\<lambda>b. b = x) bs"
  then have "set bs \<subseteq> {x}" by (auto simp: list_all_iff)
  then show ?thesis using card_mono [of "{x}" "set bs"] by simp
qed

text \<open>The strength checks of L3, L4 and L7 decide exactly the number of distinct byte
  values: at least 4 in a commitment or a transcript, at least 10 in a signature (the
  separate test for a constant buffer never matters). Verification results and verdicts
  are accepted only with a proper bit, and the buffer checks of L6 accept exactly zeroed
  buffers, which is what the three-pass wipe leaves.\<close>

theorem validation_checks_exact:
  "(validate_commitment_strength c = Inr () \<longleftrightarrow> 4 \<le> card (set (commitment_bytes c))) \<and>
   (validate_proof_strength p = Inr () \<longleftrightarrow> 10 \<le> card (set (pr_sig p))) \<and>
   (validate_verdict_strength v = Inr () \<longleftrightarrow> 4 \<le> card (set (v_transcript v))) \<and>
   (validate_verification_result r = Inr () \<longleftrightarrow> choice_wf r) \<and>
   (validate_verdict v = Inr () \<longleftrightarrow>
      choice_wf (v_valid v) \<and> v_transcript v \<noteq> zeros 32 \<and> v_transcript v \<noteq> replicate 32 0xFF) \<and>
   (validate_zeroization b = Inr () \<longleftrightarrow> b = zeros (length b)) \<and>
   validate_zeroization (zeroize_multi_pass b) = Inr () \<and> length (zeroize_multi_pass b) = length b"
proof -
  have a: "unwrap_u8 (ct_eq x y) = 1 \<longleftrightarrow> x = y" for x y
    by (simp add: ct_eq_def choice_of_def)
  have const: "card (set x) \<le> 1" if "x = replicate 32 y" for x :: bytes and y
    by (rule few_distinct [of y]) (simp add: that list_all_iff)
  have z: "list_all (\<lambda>x. x = 0) b \<longleftrightarrow> b = zeros (length b)" for b :: bytes
    by (induction b) auto
  have "validate_commitment_strength c = Inr () \<longleftrightarrow> 4 \<le> card (set (commitment_bytes c))"
    using few_distinct [of "commitment_bytes c ! 0" "commitment_bytes c"]
    by (auto simp: validate_commitment_strength_def Let_def unique_count_eq)
  moreover have "validate_proof_strength p = Inr () \<longleftrightarrow> 10 \<le> card (set (pr_sig p))"
    using few_distinct [of "pr_sig p ! 0" "pr_sig p"]
    by (auto simp: validate_proof_strength_def Let_def unique_count_eq)
  moreover have "validate_verdict_strength v = Inr () \<longleftrightarrow> 4 \<le> card (set (v_transcript v))"
    using const [of "v_transcript v" "v_transcript v ! 0"]
    by (auto simp: validate_verdict_strength_def Let_def unique_count_eq a)
  moreover have "validate_verification_result r = Inr () \<longleftrightarrow> choice_wf r"
    by (auto simp: validate_verification_result_def choice_wf_def)
  moreover have "validate_verdict v = Inr () \<longleftrightarrow>
      choice_wf (v_valid v) \<and> v_transcript v \<noteq> zeros 32 \<and> v_transcript v \<noteq> replicate 32 0xFF"
    by (auto simp: validate_verdict_def Let_def choice_wf_def a)
  moreover have "validate_zeroization b = Inr () \<longleftrightarrow> b = zeros (length b)"
    by (auto simp: validate_zeroization_def simp flip: z)
  moreover have "validate_zeroization (zeroize_multi_pass b) = Inr ()"
    by (simp add: validate_zeroization_def zeroize_multi_pass_def Let_def list_all_iff)
  moreover have "length (zeroize_multi_pass b) = length b"
    by (simp add: zeroize_multi_pass_def Let_def)
  ultimately show ?thesis by blast
qed

text \<open>The additional context of a multi-source commitment is not delimited from the claim.\<close>

lemma commit_multi_source_ambiguous:
  "commit_multi_source xof keys (a @ b) c = commit_multi_source xof keys a (b @ c)"
  by (simp add: commit_multi_source_def update_update Let_def)

end
