(* ===== verification/Entropy.thy ===== *)
theory Entropy
  imports Shake Domain
begin

text \<open>
  L1, entropy harvest: \<^verbatim>\<open>src/src/layers/l1_entropy.rs\<close>, and the entropy sources of
  \<^verbatim>\<open>src/src/entropy_sources.rs\<close> it folds in. The operating system is a \<open>world\<close>: the
  results of successive \<open>getrandom\<close> calls, clock readings and stack addresses, and how many
  calls were made. A failing call is \<open>None\<close>.
\<close>

record world =
  os_random :: "nat \<Rightarrow> nat \<Rightarrow> bytes option"
  clock_nanos :: "nat \<Rightarrow> 128 word"
  probe_addr :: "nat \<Rightarrow> u64"
  calls :: nat

text \<open>\<open>getrandom\<close> fills the whole buffer or fails.\<close>

definition os_fills :: "world \<Rightarrow> bool" where
  "os_fills w \<longleftrightarrow> (\<forall>k n bs. os_random w k n = Some bs \<longrightarrow> length bs = n)"

definition getrandom :: "nat \<Rightarrow> world \<Rightarrow> bytes option \<times> world" where
  "getrandom n w = (os_random w (calls w) n, w\<lparr>calls := calls w + 1\<rparr>)"

definition SEED_LEN :: nat where "SEED_LEN = 64"
definition MIX_ITERATIONS :: nat where "MIX_ITERATIONS = 12"
definition HALF_LEN :: nat where "HALF_LEN = 32"

definition jitter :: "world \<Rightarrow> bytes" where
  "jitter w = to_le_bytes 16 (clock_nanos w (calls w)) @ u64_le (probe_addr w (calls w))"

definition mix_h1 :: "xof \<Rightarrow> nat \<Rightarrow> bytes \<Rightarrow> bytes \<Rightarrow> bytes \<Rightarrow> bytes" where
  "mix_h1 xof i personalization os_bytes jit =
     (let h = update shake_new ENTROPY_MIX;
          h = update h (usize_le i);
          h = update h personalization;
          h = update h os_bytes;
          h = update h jit
      in squeeze xof h SEED_LEN)"

definition mix_h2 :: "xof \<Rightarrow> nat \<Rightarrow> bytes \<Rightarrow> bytes" where
  "mix_h2 xof i half1 =
     (let h = update shake_new ENTROPY_FOLD;
          h = update h (usize_le i);
          h = update h half1
      in squeeze xof h HALF_LEN)"

definition mix_round :: "xof \<Rightarrow> nat \<Rightarrow> bytes \<Rightarrow> bytes \<Rightarrow> world \<Rightarrow> bytes result \<times> world" where
  "mix_round xof i personalization pool w =
     (case getrandom 48 w of
        (None, w) \<Rightarrow> (Inl Entropy, w)
      | (Some os_bytes, w) \<Rightarrow>
          (let jit = jitter w;
               h1 = mix_h1 xof i personalization os_bytes jit;
               half1 = take HALF_LEN h1;
               half2 = drop HALF_LEN h1;
               h2 = mix_h2 xof i half1
           in (Inr (xor_bytes (take HALF_LEN pool) h2 @ xor_bytes (drop HALF_LEN pool) half2), w)))"

text \<open>The loop \<open>for i in 0..MIX_ITERATIONS { mix_round(...)?; }\<close>.\<close>

fun mix_rounds :: "xof \<Rightarrow> bytes \<Rightarrow> nat list \<Rightarrow> bytes \<Rightarrow> world \<Rightarrow> bytes result \<times> world" where
  "mix_rounds xof personalization [] pool w = (Inr pool, w)"
| "mix_rounds xof personalization (i # is) pool w =
     (case mix_round xof i personalization pool w of
        (Inl e, w) \<Rightarrow> (Inl e, w)
      | (Inr pool, w) \<Rightarrow> mix_rounds xof personalization is pool w)"

definition finalize_pool :: "xof \<Rightarrow> bytes \<Rightarrow> bytes \<Rightarrow> bytes" where
  "finalize_pool xof personalization pool =
     (let h = update shake_new ENTROPY_FINALIZE;
          h = update h personalization;
          h = update h pool
      in squeeze xof h SEED_LEN)"

definition harvest :: "xof \<Rightarrow> bytes \<Rightarrow> world \<Rightarrow> bytes result \<times> world" where
  "harvest xof personalization w =
     (case mix_rounds xof personalization [0..<MIX_ITERATIONS] (zeros SEED_LEN) w of
        (Inl e, w) \<Rightarrow> (Inl e, w)
      | (Inr pool, w) \<Rightarrow> (Inr (finalize_pool xof personalization pool), w))"

text \<open>\<open>harvest_external\<close>: the caller's 64 bytes, unchanged.\<close>

definition harvest_external :: "bytes \<Rightarrow> bytes" where
  "harvest_external raw = raw"

section \<open>Entropy sources and the multi-source harvest\<close>

record entropy_source =
  es_name :: string
  es_domain_tag :: bytes
  es_raw :: bytes

definition from_raw :: "string \<Rightarrow> bytes \<Rightarrow> bytes \<Rightarrow> entropy_source" where
  "from_raw name tag raw = \<lparr>es_name = name, es_domain_tag = tag, es_raw = raw\<rparr>"

definition whiten :: "xof \<Rightarrow> entropy_source \<Rightarrow> bytes" where
  "whiten xof s =
     (let h = update shake_new (es_domain_tag s);
          h = update h (es_raw s)
      in squeeze xof h 64)"

definition source_wipe :: "entropy_source \<Rightarrow> entropy_source" where
  "source_wipe s = s\<lparr>es_raw := zeros (length (es_raw s))\<rparr>"

definition source_drop :: "entropy_source \<Rightarrow> entropy_source" where
  "source_drop s = s\<lparr>es_raw := zeros (length (es_raw s))\<rparr>"

definition os_csprng_primary :: "world \<Rightarrow> entropy_source option \<times> world" where
  "os_csprng_primary w =
     (case getrandom 64 w of
        (None, w) \<Rightarrow> (None, w)
      | (Some raw, w) \<Rightarrow> (Some (from_raw ''os_csprng_primary'' ENTROPY_SOURCE_OS_PRIMARY raw), w))"

definition os_csprng_secondary :: "world \<Rightarrow> entropy_source option \<times> world" where
  "os_csprng_secondary w =
     (case getrandom 64 w of
        (None, w) \<Rightarrow> (None, w)
      | (Some raw, w) \<Rightarrow> (Some (from_raw ''os_csprng_secondary'' ENTROPY_SOURCE_OS_SECONDARY raw), w))"

text \<open>
  \<open>ambient\<close> are the sources that read clocks, addresses, identifiers and timings, in the
  order the code collects them; what they measure is outside the program.
\<close>

definition collect_sources :: "entropy_source list \<Rightarrow> world \<Rightarrow> entropy_source list result \<times> world" where
  "collect_sources ambient w =
     (case os_csprng_primary w of
        (None, w) \<Rightarrow> (Inl Entropy, w)
      | (Some primary, w) \<Rightarrow>
          (case os_csprng_secondary w of (secondary, w) \<Rightarrow>
             (Inr ([primary] @ (case secondary of None \<Rightarrow> [] | Some s \<Rightarrow> [s]) @ ambient), w)))"

definition fold_sources :: "xof \<Rightarrow> entropy_source list \<Rightarrow> bytes" where
  "fold_sources xof sources = xor_fold (map (whiten xof) sources) (zeros SEED_LEN)"

definition harvest_multi_source :: "xof \<Rightarrow> entropy_source list \<Rightarrow> bytes \<Rightarrow> world \<Rightarrow> bytes result \<times> world" where
  "harvest_multi_source xof ambient personalization w =
     (case collect_sources ambient w of
        (Inl e, w) \<Rightarrow> (Inl e, w)
      | (Inr sources, w) \<Rightarrow> (Inr (finalize_pool xof personalization (fold_sources xof sources)), w))"

section \<open>What a harvest computes\<close>

text \<open>The 64 bytes round \<open>i\<close> folds into the pool.\<close>

definition round_bytes :: "xof \<Rightarrow> bytes \<Rightarrow> world \<Rightarrow> nat \<Rightarrow> bytes" where
  "round_bytes xof personalization w i =
     (let k = calls w + i;
          os_bytes = the (os_random w k 48);
          jit = jitter (w\<lparr>calls := k + 1\<rparr>);
          h1 = mix_h1 xof i personalization os_bytes jit
      in mix_h2 xof i (take 32 h1) @ drop 32 h1)"

lemma length_round_bytes [simp]: "length (round_bytes xof p w i) = 64"
  by (simp add: round_bytes_def mix_h1_def mix_h2_def Let_def SEED_LEN_def HALF_LEN_def)

lemma xor_bytes_halves:
  "length pool = 64 \<Longrightarrow> length a = 32 \<Longrightarrow> length b = 32 \<Longrightarrow>
     xor_bytes (take 32 pool) a @ xor_bytes (drop 32 pool) b = xor_bytes pool (a @ b)"
  by (rule nth_equalityI) (auto simp: nth_append nth_xor_bytes)

lemma mix_round_eq:
  assumes "length pool = 64"
  shows "mix_round xof i p pool (w\<lparr>calls := calls w + i\<rparr>) =
    (if os_random w (calls w + i) 48 = None then (Inl Entropy, w\<lparr>calls := calls w + i + 1\<rparr>)
     else (Inr (xor_bytes pool (round_bytes xof p w i)), w\<lparr>calls := calls w + i + 1\<rparr>))"
  using assms
  by (auto simp: mix_round_def getrandom_def round_bytes_def Let_def HALF_LEN_def SEED_LEN_def
        mix_h1_def mix_h2_def xor_bytes_halves split: option.split)

text \<open>The state of the loop after \<open>n\<close> successful rounds.\<close>

lemma mix_rounds_snoc:
  "mix_rounds xof p (is @ [i]) pool w =
     (case mix_rounds xof p is pool w of (Inl e, w) \<Rightarrow> (Inl e, w) | (Inr pool, w) \<Rightarrow> mix_round xof i p pool w)"
  by (induction "is" arbitrary: pool w) (auto split: sum.splits prod.splits)

lemma mix_rounds_eq:
  "if \<exists>k<n. os_random w (calls w + k) 48 = None
   then fst (mix_rounds xof p [0..<n] (zeros 64) w) = Inl Entropy
   else mix_rounds xof p [0..<n] (zeros 64) w =
     (Inr (xor_fold (map (round_bytes xof p w) [0..<n]) (zeros 64)), w\<lparr>calls := calls w + n\<rparr>)"
proof (induction n)
  case 0
  show ?case by simp
next
  case (Suc n)
  show ?case
  proof (cases "\<exists>k<n. os_random w (calls w + k) 48 = None")
    case True
    with Suc have "fst (mix_rounds xof p [0..<n] (zeros 64) w) = Inl Entropy" by simp
    with True show ?thesis
      by (auto simp: mix_rounds_snoc less_Suc_eq split: prod.splits)
  next
    case False
    let ?pool = "xor_fold (map (round_bytes xof p w) [0..<n]) (zeros 64)"
    have len: "length ?pool = 64" by (rule length_xor_fold) (simp_all add: list_all_iff)
    from False Suc have "mix_rounds xof p [0..<n] (zeros 64) w = (Inr ?pool, w\<lparr>calls := calls w + n\<rparr>)" by simp
    with False len show ?thesis
      by (auto simp: mix_rounds_snoc mix_round_eq less_Suc_eq xor_fold_append)
  qed
qed

section \<open>Properties\<close>

text \<open>C25. A harvest makes twelve calls to the operating system's generator and fails, with
  \<open>Entropy\<close>, exactly when one of them fails; otherwise the seed has 64 bytes and is the
  final hash of the personalization and of the exclusive or of the twelve rounds'
  contributions.\<close>

theorem harvest_spec:
  "(fst (harvest xof p w) = Inl Entropy \<longleftrightarrow> (\<exists>k<12. os_random w (calls w + k) 48 = None)) \<and>
   ((\<exists>seed. fst (harvest xof p w) = Inr seed \<and> length seed = 64 \<and> snd (harvest xof p w) = w\<lparr>calls := calls w + 12\<rparr> \<and>
      seed = finalize_pool xof p (xor_fold (map (round_bytes xof p w) [0..<12]) (zeros 64)))
    \<longleftrightarrow> \<not> (\<exists>k<12. os_random w (calls w + k) 48 = None))"
proof -
  have len: "length (finalize_pool xof p b) = 64" for b
    by (simp add: finalize_pool_def Let_def SEED_LEN_def)
  show ?thesis
  proof (cases "\<exists>k<12. os_random w (calls w + k) 48 = None")
    case True
    with mix_rounds_eq [of 12 w xof p] have "fst (mix_rounds xof p [0..<12] (zeros 64) w) = Inl Entropy" by simp
    then have "fst (harvest xof p w) = Inl Entropy"
      by (auto simp: harvest_def MIX_ITERATIONS_def SEED_LEN_def split: prod.split)
    with True show ?thesis by simp
  next
    case False
    with mix_rounds_eq [of 12 w xof p] have "harvest xof p w =
      (Inr (finalize_pool xof p (xor_fold (map (round_bytes xof p w) [0..<12]) (zeros 64))), w\<lparr>calls := calls w + 12\<rparr>)"
      by (simp add: harvest_def MIX_ITERATIONS_def SEED_LEN_def)
    with False len show ?thesis by simp
  qed
qed

text \<open>The pool of a multi-source harvest, given what the two generators returned.\<close>

definition multi_pool :: "xof \<Rightarrow> bytes \<Rightarrow> bytes option \<Rightarrow> entropy_source list \<Rightarrow> bytes" where
  "multi_pool xof primary secondary ambient =
     xor_fold (map (whiten xof) (from_raw ''os_csprng_primary'' ENTROPY_SOURCE_OS_PRIMARY primary #
        (case secondary of None \<Rightarrow> [] | Some s \<Rightarrow> [from_raw ''os_csprng_secondary'' ENTROPY_SOURCE_OS_SECONDARY s]) @
        ambient)) (zeros 64)"

lemma harvest_multi_source_eq:
  "fst (harvest_multi_source xof ambient p w) =
     (case os_random w (calls w) 64 of None \<Rightarrow> Inl Entropy
      | Some primary \<Rightarrow> Inr (finalize_pool xof p (multi_pool xof primary (os_random w (Suc (calls w)) 64) ambient)))"
  by (simp add: harvest_multi_source_def collect_sources_def fold_sources_def os_csprng_primary_def os_csprng_secondary_def
        getrandom_def multi_pool_def SEED_LEN_def split: option.split)

lemma multi_pool_sensitive:
  assumes "whiten xof x \<noteq> whiten xof y"
  shows "multi_pool xof prim sec (as @ x # bs) \<noteq> multi_pool xof prim sec (as @ y # bs)"
proof -
  define pre where "pre = map (whiten xof) (from_raw ''os_csprng_primary'' ENTROPY_SOURCE_OS_PRIMARY prim #
      (case sec of None \<Rightarrow> [] | Some s \<Rightarrow> [from_raw ''os_csprng_secondary'' ENTROPY_SOURCE_OS_SECONDARY s]) @ as)"
  have pool: "multi_pool xof prim sec (as @ z # bs) =
      xor_fold (pre @ whiten xof z # map (whiten xof) bs) (zeros 64)" for z
    by (simp add: multi_pool_def pre_def)
  have len: "length (whiten xof s) = 64" for s by (simp add: whiten_def Let_def)
  then have "list_all (\<lambda>b. length b = 64) (pre @ map (whiten xof) bs)" by (auto simp: pre_def list_all_iff)
  from xor_fold_sensitive [OF this _ len len, of "zeros 64" x y] assms show ?thesis unfolding pool by auto
qed

text \<open>Multi-source harvest: only a failure of the primary generator is an error; a failure
  of the secondary one is skipped. Every collected source counts: replacing one source by
  another with a different whitened value changes the pool, whatever the other sources
  are, and then the seed (no collision of the final hash on the two pools).\<close>

theorem multi_source_every_source_counts:
  assumes "whiten xof x \<noteq> whiten xof y" and "os_random w (calls w) 64 = Some prim"
    and "sec = os_random w (Suc (calls w)) 64"
    and "collision_free xof 64 {ENTROPY_FINALIZE @ p @ multi_pool xof prim sec (as @ x # bs),
                                ENTROPY_FINALIZE @ p @ multi_pool xof prim sec (as @ y # bs)}"
  shows "fst (harvest_multi_source xof (as @ x # bs) p w) \<noteq> fst (harvest_multi_source xof (as @ y # bs) p w)"
  using multi_pool_sensitive [OF assms(1), of prim sec as bs] collision_freeD [OF assms(4)] assms(2,3)
  by (auto simp: harvest_multi_source_eq finalize_pool_def SEED_LEN_def squeeze_eq)

theorem multi_source_every_source_counts_witness:
  "\<exists>w. fst (harvest_multi_source (\<lambda>m i. last m) [from_raw ''a'' [] [1]] [] w) \<noteq>
       fst (harvest_multi_source (\<lambda>m i. last m) [from_raw ''a'' [] [2]] [] w)"
proof -
  let ?xof = "(\<lambda>m i. last m) :: xof"
  let ?w = "\<lparr>os_random = \<lambda>k n. Some (zeros n), clock_nanos = \<lambda>_. 0, probe_addr = \<lambda>_. 0, calls = 0\<rparr> :: world"
  let ?x = "from_raw ''a'' [] [1]" and ?y = "from_raw ''a'' [] [2]"
  have last64: "xs \<noteq> [] \<Longrightarrow> last xs = xs ! (length xs - 1)" for xs :: bytes by (rule last_conv_nth)
  have wh: "whiten ?xof s = replicate 64 (last (es_domain_tag s @ es_raw s))" for s
    by (simp add: whiten_def Let_def squeeze_eq shake256_ema_def map_replicate_const)
  have pool: "multi_pool ?xof (zeros 64) (Some (zeros 64)) [s] = whiten ?xof s" if "es_raw s \<noteq> []" for s
    by (simp add: multi_pool_def wh from_raw_def xor_bytes_def zip_replicate map_replicate_const)
  have "whiten ?xof ?x \<noteq> whiten ?xof ?y"
    by (simp add: wh from_raw_def)
  moreover have "collision_free ?xof 64 {ENTROPY_FINALIZE @ [] @ multi_pool ?xof (zeros 64) (Some (zeros 64)) ([] @ ?x # []),
      ENTROPY_FINALIZE @ [] @ multi_pool ?xof (zeros 64) (Some (zeros 64)) ([] @ ?y # [])}"
    by (rule collision_free_pairI [of 0]) (simp_all add: pool wh from_raw_def)
  ultimately have "fst (harvest_multi_source ?xof ([] @ ?x # []) [] ?w) \<noteq> fst (harvest_multi_source ?xof ([] @ ?y # []) [] ?w)"
    by (intro multi_source_every_source_counts [where prim = "zeros 64" and sec = "Some (zeros 64)"]) simp_all
  then show ?thesis by auto
qed

end
