(* ===== verification/Oram.thy ===== *)
theory Oram
  imports Shake
begin

unbundle bit_operations_syntax

text \<open>
  The oblivious memory of \<^verbatim>\<open>src/src/storage/oram.rs\<close>: 256 slots of 64 content and 64
  padding bytes, with masked scans for read, write, read-modify-write and swap. The
  operations are programs that reach the slots only by loads and stores, and running one
  gives its result, the slots and the accesses it made, so that obliviousness and
  functional correctness are theorems about the same definitions.

  The interface to clients is the locale \<open>slot_store\<close>.
\<close>

section \<open>Slots\<close>

definition GENESIS :: bytes where "GENESIS = zeros 64"

record cache_line =
  content :: bytes
  pad :: bytes

definition cache_line_default :: cache_line where
  "cache_line_default = \<lparr>content = GENESIS, pad = zeros 64\<rparr>"

record oram =
  oram_data :: "cache_line list"

definition oram_new :: oram where
  "oram_new = \<lparr>oram_data = map (\<lambda>_. cache_line_default) [0..<256]\<rparr>"

definition oram_default :: oram where "oram_default = oram_new"

definition oram_drop :: "oram \<Rightarrow> oram" where
  "oram_drop r = r\<lparr>oram_data := map (\<lambda>s. \<lparr>content = zeros (length (content s)), pad = zeros (length (pad s))\<rparr>)
                                  (oram_data r)\<rparr>"

definition oram_hash :: "xof \<Rightarrow> bytes \<Rightarrow> bytes" where
  "oram_hash xof input =
     (let h = update shake_new (ascii ''veil7:oram:hash:v1'');
          h = update h input
      in squeeze xof h 64)"

section \<open>Programs over the slot memory\<close>

text \<open>
  The operations are programs: a program either returns, or loads one byte of a slot and
  goes on with the answer, or stores one byte. The slots are no argument of a program, so
  whatever it learns of them it learns by a load, and whatever it changes it changes by a
  store. \<open>run_prog\<close> executes a program on the slots and records the accesses it performed:
  the bus trace is what the execution did, not a second description of the loops.
\<close>

datatype cell = Content nat nat | Padding nat nat

datatype 'a prog = Return 'a | Load cell "byte \<Rightarrow> 'a prog" | Store cell byte "'a prog"

datatype access = Read cell | Write cell

type_synonym bus = "access list"

fun load_cell :: "cache_line list \<Rightarrow> cell \<Rightarrow> byte" where
  "load_cell d (Content i j) = content (d ! i) ! j"
| "load_cell d (Padding i j) = pad (d ! i) ! j"

fun store_cell :: "cache_line list \<Rightarrow> cell \<Rightarrow> byte \<Rightarrow> cache_line list" where
  "store_cell d (Content i j) v = d[i := (d ! i)\<lparr>content := (content (d ! i))[j := v]\<rparr>]"
| "store_cell d (Padding i j) v = d[i := (d ! i)\<lparr>pad := (pad (d ! i))[j := v]\<rparr>]"

primrec prog_bind :: "'a prog \<Rightarrow> ('a \<Rightarrow> 'b prog) \<Rightarrow> 'b prog" where
  "prog_bind (Return a) f = f a"
| "prog_bind (Load c k) f = Load c (\<lambda>v. prog_bind (k v) f)"
| "prog_bind (Store c v p) f = Store c v (prog_bind p f)"

primrec run_prog :: "'a prog \<Rightarrow> cache_line list \<Rightarrow> 'a \<times> cache_line list \<times> bus" where
  "run_prog (Return a) d = (a, d, [])"
| "run_prog (Load c k) d = (let (a, d', bus) = run_prog (k (load_cell d c)) d in (a, d', Read c # bus))"
| "run_prog (Store c v p) d = (let (a, d', bus) = run_prog p (store_cell d c v) in (a, d', Write c # bus))"

text \<open>\<open>for i in is\<close>, with the loop's local variables as an accumulator.\<close>

primrec for_each :: "nat list \<Rightarrow> (nat \<Rightarrow> 's \<Rightarrow> 's prog) \<Rightarrow> 's \<Rightarrow> 's prog" where
  "for_each [] body s = Return s"
| "for_each (i # is) body s = prog_bind (body i s) (for_each is body)"

section \<open>Masked scans\<close>

text \<open>The mask \<open>0u8.wrapping_sub((i == index) as u8)\<close> and \<open>(old & !mask) | (new & mask)\<close>.\<close>

definition slot_mask :: "nat \<Rightarrow> nat \<Rightarrow> byte" where
  "slot_mask i index = 0 - of_bool (i = index)"

definition mask_select :: "byte \<Rightarrow> byte \<Rightarrow> byte \<Rightarrow> byte" where
  "mask_select m old new = (old AND NOT m) OR (new AND m)"

text \<open>The read scan, over all slots and all bytes of each.\<close>

definition read_slot :: "nat \<Rightarrow> nat \<Rightarrow> bytes \<Rightarrow> bytes prog" where
  "read_slot index i out =
     (let mask = slot_mask i index
      in for_each [0..<64] (\<lambda>j out.
           Load (Padding i j) (\<lambda>_.
           Load (Content i j) (\<lambda>b.
           Return (out[j := mask_select mask (out ! j) b])))) out)"

definition read_scan :: "nat \<Rightarrow> bytes prog" where
  "read_scan index = for_each [0..<256] (read_slot index) GENESIS"

text \<open>The write scan.\<close>

definition write_slot :: "bytes \<Rightarrow> nat \<Rightarrow> nat \<Rightarrow> unit \<Rightarrow> unit prog" where
  "write_slot new index i u =
     (let mask = slot_mask i index
      in for_each [0..<64] (\<lambda>j _.
           Load (Content i j) (\<lambda>old.
           Store (Content i j) (mask_select mask old (new ! j))
          (Load (Padding i j) (\<lambda>_. Return ())))) u)"

definition write_scan :: "bytes \<Rightarrow> nat \<Rightarrow> unit prog" where
  "write_scan new index = for_each [0..<256] (write_slot new index) ()"

text \<open>\<open>read_modify_write\<close>: a read scan, the caller's function, a write scan.\<close>

definition rmw_prog :: "xof \<Rightarrow> (bytes \<Rightarrow> bytes) \<Rightarrow> nat \<Rightarrow> bytes prog" where
  "rmw_prog xof f index =
     prog_bind (read_scan index) (\<lambda>old_value.
       let modified = f old_value;
           new_hashed = oram_hash xof modified
       in prog_bind (write_scan new_hashed index) (\<lambda>_. Return modified))"

text \<open>\<open>swap\<close>: one scan reads both values, a second writes both back.\<close>

definition swap_read_slot :: "nat \<Rightarrow> nat \<Rightarrow> nat \<Rightarrow> bytes \<times> bytes \<Rightarrow> (bytes \<times> bytes) prog" where
  "swap_read_slot index_a index_b i s =
     (let mask_a = slot_mask i index_a; mask_b = slot_mask i index_b
      in for_each [0..<64] (\<lambda>j (val_a, val_b).
           Load (Padding i j) (\<lambda>_.
           Load (Content i j) (\<lambda>b.
           Return (val_a[j := mask_select mask_a (val_a ! j) b],
                   val_b[j := mask_select mask_b (val_b ! j) b])))) s)"

definition swap_write_slot :: "bytes \<Rightarrow> bytes \<Rightarrow> nat \<Rightarrow> nat \<Rightarrow> nat \<Rightarrow> unit \<Rightarrow> unit prog" where
  "swap_write_slot val_a val_b index_a index_b i u =
     (let mask_a = slot_mask i index_a; mask_b = slot_mask i index_b
      in for_each [0..<64] (\<lambda>j _.
           Load (Content i j) (\<lambda>old.
           let new_a = mask_select mask_a old (val_b ! j);
               new_b = mask_select mask_b new_a (val_a ! j)
           in Store (Content i j) new_b
             (Load (Padding i j) (\<lambda>_. Return ())))) u)"

definition swap_prog :: "nat \<Rightarrow> nat \<Rightarrow> unit prog" where
  "swap_prog index_a index_b =
     prog_bind (for_each [0..<256] (swap_read_slot index_a index_b) (GENESIS, GENESIS)) (\<lambda>(val_a, val_b).
       for_each [0..<256] (swap_write_slot val_a val_b index_a index_b) ())"

section \<open>Operations\<close>

definition oram_read :: "oram \<Rightarrow> nat \<Rightarrow> bytes \<times> bus" where
  "oram_read r addr =
     (let index = addr AND 0xFF;
          (result, _, bus) = run_prog (read_scan index) (oram_data r)
      in (result, bus))"

definition oram_write :: "xof \<Rightarrow> oram \<Rightarrow> nat \<Rightarrow> bytes \<Rightarrow> oram \<times> bus" where
  "oram_write xof r addr val =
     (let index = addr AND 0xFF;
          hashed = oram_hash xof val;
          (_, d, bus) = run_prog (write_scan hashed index) (oram_data r)
      in (r\<lparr>oram_data := d\<rparr>, bus))"

definition read_modify_write :: "xof \<Rightarrow> oram \<Rightarrow> nat \<Rightarrow> (bytes \<Rightarrow> bytes) \<Rightarrow> bytes \<times> oram \<times> bus" where
  "read_modify_write xof r addr f =
     (let index = addr AND 0xFF;
          (modified, d, bus) = run_prog (rmw_prog xof f index) (oram_data r)
      in (modified, r\<lparr>oram_data := d\<rparr>, bus))"

definition oram_swap :: "oram \<Rightarrow> nat \<Rightarrow> nat \<Rightarrow> oram \<times> bus" where
  "oram_swap r addr_a addr_b =
     (let index_a = addr_a AND 0xFF; index_b = addr_b AND 0xFF;
          (_, d, bus) = run_prog (swap_prog index_a index_b) (oram_data r)
      in (r\<lparr>oram_data := d\<rparr>, bus))"

section \<open>Masks select\<close>

lemma and_255: "addr AND 0xFF = addr mod (256 :: nat)"
proof -
  have "addr AND 0xFF = take_bit 8 addr" by (simp add: take_bit_eq_mask mask_eq_exp_minus_1)
  then show ?thesis by (simp add: take_bit_eq_mod)
qed

lemma mask_select_slot: "mask_select (slot_mask i index) old new = (if i = index then new else old)"
  by (simp add: mask_select_def slot_mask_def)

lemma slot_at: "addr AND 0xFF < (256 :: nat)"
  by (simp add: and_255)

section \<open>Running programs\<close>

lemma run_bind:
  "run_prog (prog_bind p f) d =
     (let (a, d', b) = run_prog p d; (a', d'', b') = run_prog (f a) d' in (a', d'', b @ b'))"
  by (induction p arbitrary: d) (auto simp: Let_def split: prod.splits)

text \<open>A loop whose body computes and loads only, and a loop whose body only changes the slots.\<close>

lemma run_for_each_read:
  assumes "\<And>i s. run_prog (body i s) d = (F i s, d, g i)"
  shows "run_prog (for_each js body s) d = (fold F js s, d, concat (map g js))"
  by (induction js arbitrary: s) (simp_all add: run_bind assms)

lemma run_for_each_write:
  assumes "\<And>i d. run_prog (body i ()) d = ((), F i d, g i)"
  shows "run_prog (for_each js body ()) d = ((), fold F js d, concat (map g js))"
  by (induction js arbitrary: d) (simp_all add: run_bind assms)

definition slot_read_bus :: "nat \<Rightarrow> bus" where
  "slot_read_bus i = concat (map (\<lambda>j. [Read (Padding i j), Read (Content i j)]) [0..<64])"

definition slot_write_bus :: "nat \<Rightarrow> bus" where
  "slot_write_bus i = concat (map (\<lambda>j. [Read (Content i j), Write (Content i j), Read (Padding i j)]) [0..<64])"

definition read_bus :: "nat \<Rightarrow> bus" where
  "read_bus n = concat (map slot_read_bus [0..<n])"

definition write_bus :: "nat \<Rightarrow> bus" where
  "write_bus n = concat (map slot_write_bus [0..<n])"

lemma run_read_slot:
  "run_prog (read_slot index i out) d =
     (fold (\<lambda>j out. out[j := mask_select (slot_mask i index) (out ! j) (content (d ! i) ! j)]) [0..<64] out,
      d, slot_read_bus i)"
  unfolding read_slot_def Let_def slot_read_bus_def by (rule run_for_each_read) simp

lemma run_write_slot:
  "run_prog (write_slot new index i ()) d =
     ((), fold (\<lambda>j d. d[i := (d ! i)\<lparr>content := (content (d ! i))
                        [j := mask_select (slot_mask i index) (content (d ! i) ! j) (new ! j)]\<rparr>]) [0..<64] d,
      slot_write_bus i)"
  unfolding write_slot_def Let_def slot_write_bus_def by (rule run_for_each_write) simp

lemma run_swap_read_slot:
  "run_prog (swap_read_slot ia ib i s) d =
     (fold (\<lambda>j (va, vb). (va[j := mask_select (slot_mask i ia) (va ! j) (content (d ! i) ! j)],
                          vb[j := mask_select (slot_mask i ib) (vb ! j) (content (d ! i) ! j)])) [0..<64] s,
      d, slot_read_bus i)"
  unfolding swap_read_slot_def Let_def slot_read_bus_def
  by (rule run_for_each_read) (simp split: prod.split)

lemma run_swap_write_slot:
  "run_prog (swap_write_slot va vb ia ib i ()) d =
     ((), fold (\<lambda>j d. d[i := (d ! i)\<lparr>content := (content (d ! i))
                        [j := mask_select (slot_mask i ib)
                                (mask_select (slot_mask i ia) (content (d ! i) ! j) (vb ! j)) (va ! j)]\<rparr>]) [0..<64] d,
      slot_write_bus i)"
  unfolding swap_write_slot_def Let_def slot_write_bus_def by (rule run_for_each_write) simp

section \<open>Loops that update a list position by position\<close>

lemma fold_pair: "fold (\<lambda>j (x, y). (F j x, G j y)) js (x, y) = (fold F js x, fold G js y)"
  by (induction js arbitrary: x y) simp_all

lemma fold_slot:
  assumes "i < length d"
  shows "fold (\<lambda>j d. d[i := (d ! i)\<lparr>content := (content (d ! i))[j := f j (content (d ! i) ! j)]\<rparr>]) js d =
    d[i := (d ! i)\<lparr>content := fold (\<lambda>j xs. xs[j := f j (xs ! j)]) js (content (d ! i))\<rparr>]"
  using assms by (induction js arbitrary: d) simp_all

lemma map_nth_64: "length xs = 64 \<Longrightarrow> map ((!) xs) [0..<64] = xs"
  by (metis map_nth)

definition line_wf :: "cache_line \<Rightarrow> bool" where
  "line_wf s \<longleftrightarrow> length (content s) = 64 \<and> length (pad s) = 64"

definition oram_wf :: "oram \<Rightarrow> bool" where
  "oram_wf r \<longleftrightarrow> length (oram_data r) = 256 \<and> list_all line_wf (oram_data r)"

lemma oram_wf_new: "oram_wf oram_new"
  by (simp add: oram_wf_def oram_new_def list_all_iff line_wf_def cache_line_default_def GENESIS_def)

text \<open>One slot of a scan: the masked loop over its bytes is a conditional on the slot.\<close>

lemma masked_bytes:
  assumes "length out = 64" and "length new = 64"
  shows "fold (\<lambda>j xs. xs[j := mask_select (slot_mask i index) (xs ! j) (new ! j)]) [0..<64] out =
    (if i = index then new else out)"
  using assms by (subst fold_pointwise_all) (auto simp: mask_select_slot map_nth_64)

lemma masked_slot:
  assumes "i < length d" and "length (content (d ! i)) = 64" and "length new = 64"
  shows "fold (\<lambda>j d. d[i := (d ! i)\<lparr>content := (content (d ! i))
             [j := mask_select (slot_mask i index) (content (d ! i) ! j) (new ! j)]\<rparr>]) [0..<64] d =
    (if i = index then d[i := (d ! i)\<lparr>content := new\<rparr>] else d)"
  using assms by (simp add: fold_slot [of i d "\<lambda>j old. mask_select (slot_mask i index) old (new ! j)"] masked_bytes)

lemma masked_slot_2:
  assumes "i < length d" and "length (content (d ! i)) = 64" and "length va = 64" and "length vb = 64"
  shows "fold (\<lambda>j d. d[i := (d ! i)\<lparr>content := (content (d ! i))
             [j := mask_select (slot_mask i ib) (mask_select (slot_mask i ia) (content (d ! i) ! j) (vb ! j)) (va ! j)]\<rparr>])
           [0..<64] d =
    (if i = ib then d[i := (d ! i)\<lparr>content := va\<rparr>]
     else if i = ia then d[i := (d ! i)\<lparr>content := vb\<rparr>] else d)"
  unfolding fold_slot [OF assms(1), of "\<lambda>j old. mask_select (slot_mask i ib) (mask_select (slot_mask i ia) old (vb ! j)) (va ! j)"]
  using assms by (subst fold_pointwise_all) (auto simp: mask_select_slot map_nth_64)

section \<open>Whole scans\<close>

definition slot_value :: "cache_line list \<Rightarrow> nat \<Rightarrow> nat \<Rightarrow> bytes \<Rightarrow> bytes" where
  "slot_value d index i out = fst (run_prog (read_slot index i out) d)"

lemma run_read_scan: "run_prog (read_scan index) d = (fold (slot_value d index) [0..<256] GENESIS, d, read_bus 256)"
  unfolding read_scan_def read_bus_def
  by (rule run_for_each_read) (simp add: slot_value_def run_read_slot)

lemma slot_value_eq:
  "length out = 64 \<Longrightarrow> length (content (d ! i)) = 64 \<Longrightarrow>
     slot_value d index i out = (if i = index then content (d ! i) else out)"
  by (simp add: slot_value_def run_read_slot masked_bytes)

lemma read_scan_upto:
  assumes "n \<le> length d" and "list_all line_wf d" and "length out = 64"
  shows "fold (slot_value d index) [0..<n] out = (if index < n then content (d ! index) else out)"
  using assms by (induction n) (auto simp: slot_value_eq list_all_length line_wf_def less_Suc_eq)

definition slot_written :: "bytes \<Rightarrow> nat \<Rightarrow> nat \<Rightarrow> cache_line list \<Rightarrow> cache_line list" where
  "slot_written new index i d = fst (snd (run_prog (write_slot new index i ()) d))"

lemma run_write_scan:
  "run_prog (write_scan new index) d = ((), fold (slot_written new index) [0..<256] d, write_bus 256)"
  unfolding write_scan_def write_bus_def
  by (rule run_for_each_write) (simp add: slot_written_def run_write_slot)

lemma write_scan_upto:
  assumes "n \<le> length d" and "list_all line_wf d" and "length new = 64"
  shows "fold (slot_written new index) [0..<n] d =
    (if index < n then d[index := (d ! index)\<lparr>content := new\<rparr>] else d)"
  using assms
  by (induction n)
    (auto simp: slot_written_def run_write_slot masked_slot list_all_length line_wf_def less_Suc_eq)

definition slots_swapped :: "bytes \<Rightarrow> bytes \<Rightarrow> nat \<Rightarrow> nat \<Rightarrow> nat \<Rightarrow> cache_line list \<Rightarrow> cache_line list" where
  "slots_swapped va vb ia ib i d = fst (snd (run_prog (swap_write_slot va vb ia ib i ()) d))"

lemma slots_swapped_eq:
  assumes "i < length d" and "length (content (d ! i)) = 64" and "length va = 64" and "length vb = 64"
  shows "slots_swapped va vb ia ib i d =
    (if i = ib then d[i := (d ! i)\<lparr>content := va\<rparr>]
     else if i = ia then d[i := (d ! i)\<lparr>content := vb\<rparr>] else d)"
  using masked_slot_2 [OF assms] by (simp add: slots_swapped_def run_swap_write_slot)

lemma run_swap_prog:
  "run_prog (swap_prog ia ib) d =
     (let va = fold (slot_value d ia) [0..<256] GENESIS; vb = fold (slot_value d ib) [0..<256] GENESIS
      in ((), fold (slots_swapped va vb ia ib) [0..<256] d, read_bus 256 @ write_bus 256))"
proof -
  have "run_prog (for_each [0..<256] (swap_read_slot ia ib) (GENESIS, GENESIS)) d =
      (fold (\<lambda>i (va, vb). (slot_value d ia i va, slot_value d ib i vb)) [0..<256] (GENESIS, GENESIS), d, read_bus 256)"
    unfolding read_bus_def
    by (rule run_for_each_read) (auto simp: run_swap_read_slot slot_value_def run_read_slot fold_pair split: prod.split)
  moreover have "run_prog (for_each [0..<256] (swap_write_slot va vb ia ib) ()) d =
      ((), fold (slots_swapped va vb ia ib) [0..<256] d, write_bus 256)" for va vb
    unfolding write_bus_def by (rule run_for_each_write) (simp add: slots_swapped_def run_swap_write_slot)
  ultimately show ?thesis by (simp add: swap_prog_def run_bind fold_pair Let_def)
qed

lemma swap_write_upto:
  assumes "n \<le> length d" and "list_all line_wf d" and "length va = 64" and "length vb = 64" and "ia = ib \<longrightarrow> va = vb"
  shows "fold (slots_swapped va vb ia ib) [0..<n] d =
    map (\<lambda>i. if i < n then (if i = ib then (d ! i)\<lparr>content := va\<rparr> else if i = ia then (d ! i)\<lparr>content := vb\<rparr> else d ! i)
              else d ! i) [0..<length d]"
  using assms
proof (induction n)
  case 0
  show ?case by (simp add: map_nth)
next
  case (Suc n)
  then have "length (content (d ! n)) = 64" by (simp add: list_all_length line_wf_def)
  with Suc show ?case
    by (auto simp: slots_swapped_eq list_update_map_nth less_Suc_eq intro!: map_cong)
qed

lemma run_rmw_prog:
  "run_prog (rmw_prog xof f index) d =
     (let modified = f (fold (slot_value d index) [0..<256] GENESIS)
      in (modified, fold (slot_written (oram_hash xof modified) index) [0..<256] d, read_bus 256 @ write_bus 256))"
  by (simp add: rmw_prog_def run_bind run_read_scan run_write_scan Let_def)

section \<open>The memory as an array\<close>

definition slots :: "oram \<Rightarrow> bytes list" where
  "slots r = map content (oram_data r)"

lemma length_oram_hash [simp, len_simps]: "length (oram_hash xof v) = 64"
  by (simp add: oram_hash_def)

lemma read_scan_eq:
  "oram_wf r \<Longrightarrow> index < 256 \<Longrightarrow> fold (slot_value (oram_data r) index) [0..<256] GENESIS = slots r ! index"
  by (simp add: read_scan_upto oram_wf_def GENESIS_def slots_def)

lemma write_scan_eq:
  "oram_wf r \<Longrightarrow> index < 256 \<Longrightarrow> length new = 64 \<Longrightarrow> fold (slot_written new index) [0..<256] (oram_data r) =
     (oram_data r)[index := (oram_data r ! index)\<lparr>content := new\<rparr>]"
  by (simp add: write_scan_upto oram_wf_def)

lemma oram_read_eq: "oram_wf r \<Longrightarrow> oram_read r a = (slots r ! (a mod 256), read_bus 256)"
  by (simp add: oram_read_def run_read_scan read_scan_eq and_255)

lemma oram_write_eq:
  "oram_wf r \<Longrightarrow> oram_write xof r a v =
     (r\<lparr>oram_data := (oram_data r)[a mod 256 := (oram_data r ! (a mod 256))\<lparr>content := oram_hash xof v\<rparr>]\<rparr>, write_bus 256)"
  by (simp add: oram_write_def run_write_scan write_scan_eq and_255)

lemma slots_update:
  "oram_wf r \<Longrightarrow> i < 256 \<Longrightarrow> slots (r\<lparr>oram_data := (oram_data r)[i := (oram_data r ! i)\<lparr>content := c\<rparr>]\<rparr>) = (slots r)[i := c]"
  by (simp add: slots_def map_update)

lemma oram_wf_update:
  "oram_wf r \<Longrightarrow> i < 256 \<Longrightarrow> length c = 64 \<Longrightarrow>
     oram_wf (r\<lparr>oram_data := (oram_data r)[i := (oram_data r ! i)\<lparr>content := c\<rparr>]\<rparr>)"
  by (auto simp: oram_wf_def list_all_length line_wf_def nth_list_update)

lemma oram_write_refines:
  assumes "oram_wf r"
  shows "oram_wf (fst (oram_write xof r a v)) \<and>
    slots (fst (oram_write xof r a v)) = (slots r)[a mod 256 := oram_hash xof v]"
  using assms by (simp add: oram_write_eq slots_update oram_wf_update)

lemma oram_rmw_eq:
  assumes "oram_wf r"
  shows "read_modify_write xof r a f =
    (f (fst (oram_read r a)), fst (oram_write xof r a (f (fst (oram_read r a)))), read_bus 256 @ write_bus 256)"
  using assms
  by (simp add: read_modify_write_def run_rmw_prog oram_read_eq oram_write_eq read_scan_eq write_scan_eq and_255 Let_def)

lemma oram_swap_refines:
  assumes "oram_wf r"
  shows "oram_wf (fst (oram_swap r a b)) \<and>
    slots (fst (oram_swap r a b)) =
      (slots r)[a mod 256 := slots r ! (b mod 256), b mod 256 := slots r ! (a mod 256)]"
proof -
  let ?d = "oram_data r" and ?a = "a mod 256" and ?b = "b mod 256"
  have d: "256 \<le> length ?d" "list_all line_wf ?d" "length ?d = 256"
    using assms by (simp_all add: oram_wf_def)
  then have len: "length (content (?d ! i)) = 64" "length (pad (?d ! i)) = 64" if "i < 256" for i
    using that by (simp_all add: list_all_length line_wf_def)
  have swap: "fst (oram_swap r a b) = r\<lparr>oram_data := map (\<lambda>i. if i = ?b then (?d ! i)\<lparr>content := content (?d ! ?a)\<rparr>
      else if i = ?a then (?d ! i)\<lparr>content := content (?d ! ?b)\<rparr> else ?d ! i) [0..<256]\<rparr>"
    using d len by (auto simp: oram_swap_def run_swap_prog and_255 read_scan_upto swap_write_upto GENESIS_def Let_def
        intro!: arg_cong [where f = "\<lambda>d. r\<lparr>oram_data := d\<rparr>"])
  show ?thesis
    using d len by (auto simp: swap oram_wf_def slots_def list_all_length line_wf_def
        list_update_map_nth intro!: nth_equalityI)
qed

section \<open>The interface of a slot store\<close>

text \<open>
  What clients rely on: a read returns what the last write to that slot left there, in
  the form the store keeps (\<open>seal\<close>), and writes to other slots do not interfere.
\<close>

locale slot_store =
  fixes get :: "'m \<Rightarrow> nat \<Rightarrow> bytes" and put :: "'m \<Rightarrow> nat \<Rightarrow> bytes \<Rightarrow> 'm"
    and seal :: "bytes \<Rightarrow> bytes" and size_of :: nat and ok :: "'m \<Rightarrow> bool"
  assumes put_ok: "ok m \<Longrightarrow> ok (put m a v)"
    and get_put_same: "ok m \<Longrightarrow> a mod size_of = b mod size_of \<Longrightarrow> get (put m a v) b = seal v"
    and get_put_other: "ok m \<Longrightarrow> a mod size_of \<noteq> b mod size_of \<Longrightarrow> get (put m a v) b = get m b"
begin

lemma puts_ok: "ok m \<Longrightarrow> ok (fold (\<lambda>(a, v) m. put m a v) ws m)"
  by (induction ws arbitrary: m) (auto simp: put_ok)

lemma get_untouched:
  assumes "ok m" and "\<forall>(a, v)\<in>set ws. a mod size_of \<noteq> b mod size_of"
  shows "get (fold (\<lambda>(a, v) m. put m a v) ws m) b = get m b"
  using assms by (induction ws arbitrary: m) (auto simp: put_ok get_put_other)

lemma last_write_wins:
  assumes "ok m" and "a mod size_of = b mod size_of" and "\<forall>(a, v)\<in>set ws. a mod size_of \<noteq> b mod size_of"
  shows "get (fold (\<lambda>(a, v) m. put m a v) (us @ (a, v) # ws) m) b = seal v"
  using assms by (simp add: get_untouched puts_ok put_ok get_put_same)

end

definition oram_get :: "oram \<Rightarrow> nat \<Rightarrow> bytes" where
  "oram_get r a = fst (oram_read r a)"

definition oram_put :: "xof \<Rightarrow> oram \<Rightarrow> nat \<Rightarrow> bytes \<Rightarrow> oram" where
  "oram_put xof r a v = fst (oram_write xof r a v)"

interpretation oram: slot_store oram_get "oram_put xof" "oram_hash xof" 256 oram_wf for xof
proof unfold_locales
  fix r a b v assume wf: "oram_wf r"
  note wr = oram_write_refines [OF wf, of xof a v]
  have len: "length (slots r) = 256" using wf by (simp add: oram_wf_def slots_def)
  show "oram_wf (oram_put xof r a v)" using wr by (simp add: oram_put_def)
  show "oram_get (oram_put xof r a v) b = oram_hash xof v" if "a mod 256 = b mod 256"
    using wr that len by (simp add: oram_get_def oram_put_def oram_read_eq)
  show "oram_get (oram_put xof r a v) b = oram_get r b" if "a mod 256 \<noteq> b mod 256"
    using wr that wf by (simp add: oram_get_def oram_put_def oram_read_eq)
qed

section \<open>Properties\<close>

text \<open>C10. The masked scans implement an array of 256 slots: with addresses taken modulo 256,
  read returns the slot, write replaces it by the hash of the value, read-modify-write
  hands the slot to the function, stores the hash of the result and returns the result,
  and swap exchanges two slots; every other slot keeps its contents, and the store stays
  well formed. Only write hashes: the documentation says that read hashes the slot before
  it returns it, which the code does not do.\<close>

theorem oram_refines_array:
  assumes "oram_wf r"
  shows "fst (oram_read r a) = slots r ! (a mod 256) \<and>
    oram_wf (fst (oram_write xof r a v)) \<and>
    slots (fst (oram_write xof r a v)) = (slots r)[a mod 256 := oram_hash xof v] \<and>
    fst (read_modify_write xof r a f) = f (slots r ! (a mod 256)) \<and>
    slots (fst (snd (read_modify_write xof r a f))) = (slots r)[a mod 256 := oram_hash xof (f (slots r ! (a mod 256)))] \<and>
    oram_wf (fst (oram_swap r a b)) \<and>
    slots (fst (oram_swap r a b)) = (slots r)[a mod 256 := slots r ! (b mod 256), b mod 256 := slots r ! (a mod 256)]"
  using assms oram_write_refines [OF assms] oram_swap_refines [OF assms]
  by (simp add: oram_read_eq oram_rmw_eq)

theorem oram_refines_array_witness:
  "slots (fst (oram_write (\<lambda>m i. 9) oram_new 257 (zeros 64))) = (slots oram_new)[1 := replicate 64 9]"
proof -
  have "oram_hash (\<lambda>m i. 9) (zeros 64) = replicate 64 9"
    by (simp add: oram_hash_def squeeze_eq shake256_ema_def map_replicate_const)
  with oram_refines_array [OF oram_wf_new, of 257 "\<lambda>m i. 9" "zeros 64" id 0] show ?thesis by simp
qed

text \<open>C13. Obliviousness: the accesses an operation makes to the slots, byte by byte and in
  order, are the same for all addresses, all values and all memory contents, and for any
  function given to read-modify-write; who sees the slot traffic learns only which operation
  ran. No assumption on the state. The accesses are those recorded by running the operation,
  which reaches the slots in no other way; the local buffers, the hash and the wiping of
  locals are not slots and are not on this bus.\<close>

theorem oram_oblivious:
  "snd (oram_read r a) = snd (oram_read r' a') \<and>
   snd (oram_write xof r a v) = snd (oram_write xof r' a' v') \<and>
   snd (snd (read_modify_write xof r a f)) = snd (snd (read_modify_write xof r' a' f')) \<and>
   snd (oram_swap r a b) = snd (oram_swap r' a' b')"
  by (simp add: oram_read_def oram_write_def read_modify_write_def oram_swap_def
      run_read_scan run_write_scan run_rmw_prog run_swap_prog Let_def)

text \<open>What the documentation of \<open>read\<close> says besides, that read and write have the same
  traffic, does not hold of the slot accesses: a read stores nothing.\<close>

lemma read_write_traffic_differs: "snd (oram_read r a) \<noteq> snd (oram_write xof r' a' v)"
proof -
  have "Write (Content 0 0) \<in> set (write_bus 256)" by (auto simp: write_bus_def slot_write_bus_def)
  moreover have "Write (Content 0 0) \<notin> set (read_bus 256)" by (auto simp: read_bus_def slot_read_bus_def)
  ultimately show ?thesis by (auto simp: oram_read_def oram_write_def run_read_scan run_write_scan Let_def)
qed

text \<open>Last write wins: after any sequence of writes, a slot reads as the hash of the value
  last written to an address that maps to it.\<close>

theorem oram_last_write:
  assumes "oram_wf r" and "a mod 256 = b mod 256" and "\<forall>(c, u)\<in>set later. c mod 256 \<noteq> b mod 256"
  shows "oram_get (fold (\<lambda>(a, v) r. oram_put xof r a v) (earlier @ (a, v) # later) r) b = oram_hash xof v"
  using assms by (rule oram.last_write_wins)

theorem oram_last_write_witness:
  "oram_get (fold (\<lambda>(a, v) r. oram_put (\<lambda>m i. of_nat (length m)) r a v) [(3, []), (259, [7]), (4, [])] oram_new) 3
     = oram_hash (\<lambda>m i. of_nat (length m)) [7]"
  using oram_last_write [OF oram_wf_new, of 259 3 "[(4, [])]" "\<lambda>m i. of_nat (length m)" "[(3, [])]" "[7]"]
  by simp

end
