(* ===== verification/Micro_VM.thy ===== *)
theory Micro_VM
  imports Shake
begin

unbundle bit_operations_syntax

text \<open>
  The bytecode machine of \<^verbatim>\<open>src/src/execution/vm.rs\<close>: opcodes, the operand stack
  of 128 words with its stack pointer and canary, the interpreter loop with its trace
  hash, and the bytecode builder. The interpreter is total (its program counter
  grows), every failure branch is a value, and \<open>execute\<close> returns the root together
  with the machine it leaves behind.

  The second half gives the abstract machine the code implements, a list of decoded
  instructions run on a list, and the simulation between the two.
\<close>

section \<open>Opcodes\<close>

datatype opcode = OpNop | OpAdd | OpXor | OpMul | OpDiv | OpPush | OpPop | OpDup | OpSwap
  | OpAnd | OpOr | OpNot | OpShl | OpShr | OpRot | OpEq | OpLt

definition from_u8 :: "byte \<Rightarrow> opcode option" where
  "from_u8 b =
     (if b = 0x00 then Some OpNop else if b = 0x01 then Some OpAdd
      else if b = 0x02 then Some OpXor else if b = 0x03 then Some OpMul
      else if b = 0x04 then Some OpDiv else if b = 0x05 then Some OpPush
      else if b = 0x06 then Some OpPop else if b = 0x07 then Some OpDup
      else if b = 0x08 then Some OpSwap else if b = 0x09 then Some OpAnd
      else if b = 0x0A then Some OpOr else if b = 0x0B then Some OpNot
      else if b = 0x0C then Some OpShl else if b = 0x0D then Some OpShr
      else if b = 0x0E then Some OpRot else if b = 0x0F then Some OpEq
      else if b = 0x10 then Some OpLt else None)"

text \<open>The discriminants of the \<open>repr(u8)\<close> enum, \<open>op as u8\<close>.\<close>

fun opcode_byte :: "opcode \<Rightarrow> byte" where
  "opcode_byte OpNop = 0x00" | "opcode_byte OpAdd = 0x01" | "opcode_byte OpXor = 0x02"
| "opcode_byte OpMul = 0x03" | "opcode_byte OpDiv = 0x04" | "opcode_byte OpPush = 0x05"
| "opcode_byte OpPop = 0x06" | "opcode_byte OpDup = 0x07" | "opcode_byte OpSwap = 0x08"
| "opcode_byte OpAnd = 0x09" | "opcode_byte OpOr = 0x0A" | "opcode_byte OpNot = 0x0B"
| "opcode_byte OpShl = 0x0C" | "opcode_byte OpShr = 0x0D" | "opcode_byte OpRot = 0x0E"
| "opcode_byte OpEq = 0x0F" | "opcode_byte OpLt = 0x10"

definition has_immediate :: "opcode \<Rightarrow> bool" where
  "has_immediate p \<longleftrightarrow> p = OpPush"

definition MAX_CODE :: nat where "MAX_CODE = 4096"
definition STACK_DEPTH :: nat where "STACK_DEPTH = 128"

section \<open>The machine\<close>

record micro_vm =
  stack :: "u64 list"
  sp :: nat
  canary :: u64

definition with_canary :: "u64 \<Rightarrow> micro_vm" where
  "with_canary c = \<lparr>stack = replicate STACK_DEPTH 0, sp = 0, canary = c\<rparr>"

text \<open>\<open>MicroVM::new\<close>: a failing \<open>getrandom\<close> is ignored and leaves the bytes zero.\<close>

definition vm_new :: "bytes option \<Rightarrow> micro_vm" where
  "vm_new rnd = with_canary (from_le_bytes (case rnd of None \<Rightarrow> zeros 8 | Some bs \<Rightarrow> bs))"

definition vm_default :: micro_vm where
  "vm_default = with_canary 1"

definition vm_push :: "micro_vm \<Rightarrow> u64 \<Rightarrow> bool \<times> micro_vm" where
  "vm_push vm v =
     (if STACK_DEPTH \<le> sp vm then (False, vm)
      else (True, vm\<lparr>stack := (stack vm)[sp vm := v], sp := sp vm + 1\<rparr>))"

definition vm_pop :: "micro_vm \<Rightarrow> u64 option \<times> micro_vm" where
  "vm_pop vm =
     (if sp vm = 0 then (None, vm)
      else (Some (stack vm ! (sp vm - 1)),
            vm\<lparr>stack := (stack vm)[sp vm - 1 := 0], sp := sp vm - 1\<rparr>))"

definition wipe_state :: "micro_vm \<Rightarrow> micro_vm" where
  "wipe_state vm = vm\<lparr>stack := map (\<lambda>_. 0) (stack vm), sp := 0\<rparr>"

definition vm_drop :: "micro_vm \<Rightarrow> micro_vm" where
  "vm_drop vm = (wipe_state vm)\<lparr>canary := 0\<rparr>"

text \<open>The constant-time binary operations, \<open>None\<close> for opcodes that are not binary.\<close>

fun binary_op :: "opcode \<Rightarrow> u64 \<Rightarrow> u64 \<Rightarrow> u64 option" where
  "binary_op OpAdd a b = Some (a + b)"
| "binary_op OpXor a b = Some (a XOR b)"
| "binary_op OpMul a b = Some (a * b)"
| "binary_op OpDiv a b =
     (let is_nonzero = drop_bit 63 (b OR (0 - b));
          safe_b = b OR (1 - is_nonzero);
          raw = a div safe_b
      in Some (raw AND (0 - is_nonzero)))"
| "binary_op OpAnd a b = Some (a AND b)"
| "binary_op OpOr a b = Some (a OR b)"
| "binary_op OpShl a b = Some (push_bit (unat (b AND 63)) a)"
| "binary_op OpShr a b = Some (drop_bit (unat (b AND 63)) a)"
| "binary_op OpEq a b =
     (let diff = a XOR b in Some (drop_bit 63 (diff OR (0 - diff)) XOR 1))"
| "binary_op OpLt a b = Some (of_bool (a < b))"
| "binary_op _ a b = None"

text \<open>
  The arms of the interpreter's \<open>match\<close>, after the opcode byte has been absorbed and the
  program counter advanced. \<open>Inl\<close> is the machine at a failure branch, before its
  \<open>wipe_state\<close>.
\<close>

type_synonym step_out = "micro_vm + micro_vm \<times> shake256 \<times> nat"

definition exec_binary :: "opcode \<Rightarrow> micro_vm \<Rightarrow> shake256 \<Rightarrow> nat \<Rightarrow> step_out" where
  "exec_binary op vm trace pc =
     (case vm_pop vm of
        (None, vm) \<Rightarrow> Inl vm
      | (Some b, vm) \<Rightarrow>
          (case vm_pop vm of
             (None, vm) \<Rightarrow> Inl vm
           | (Some a, vm) \<Rightarrow>
               (case binary_op op a b of
                  None \<Rightarrow> Inl vm
                | Some result \<Rightarrow>
                    (let trace = update trace (u64_le result); (ok, vm) = vm_push vm result
                     in if ok then Inr (vm, trace, pc) else Inl vm))))"

fun exec_op :: "bytes \<Rightarrow> opcode \<Rightarrow> micro_vm \<Rightarrow> shake256 \<Rightarrow> nat \<Rightarrow> step_out" where
  "exec_op code OpNop vm trace pc = Inr (vm, trace, pc)"
| "exec_op code OpPush vm trace pc =
     (if length code < pc + 8 then Inl vm
      else (let b = take 8 (drop pc code);
                v = from_le_bytes b;
                trace = update trace b;
                (ok, vm) = vm_push vm v
            in if ok then Inr (vm, trace, pc + 8) else Inl vm))"
| "exec_op code OpPop vm trace pc =
     (case vm_pop vm of
        (None, vm) \<Rightarrow> Inl vm
      | (Some _, vm) \<Rightarrow> Inr (vm, trace, pc))"
| "exec_op code OpDup vm trace pc =
     (if sp vm = 0 then Inl vm
      else (let top = stack vm ! (sp vm - 1); (ok, vm) = vm_push vm top
            in if ok then Inr (vm, trace, pc) else Inl vm))"
| "exec_op code OpSwap vm trace pc =
     (if sp vm < 2 then Inl vm
      else Inr (vm\<lparr>stack := (stack vm)[sp vm - 1 := stack vm ! (sp vm - 2),
                                       sp vm - 2 := stack vm ! (sp vm - 1)]\<rparr>, trace, pc))"
| "exec_op code OpRot vm trace pc =
     (if sp vm < 2 then Inr (vm, trace, pc)
      else (let bottom = stack vm ! 0;
                st = fold (\<lambda>i st. st[i := st ! Suc i]) [0..<sp vm - 1] (stack vm)
            in Inr (vm\<lparr>stack := st[sp vm - 1 := bottom]\<rparr>, trace, pc)))"
| "exec_op code OpNot vm trace pc =
     (case vm_pop vm of
        (None, vm) \<Rightarrow> Inl vm
      | (Some a, vm) \<Rightarrow>
          (let result = NOT a; trace = update trace (u64_le result); (ok, vm) = vm_push vm result
           in if ok then Inr (vm, trace, pc) else Inl vm))"
| "exec_op code op vm trace pc = exec_binary op vm trace pc"

text \<open>One iteration of the loop, at a program counter inside the code.\<close>

definition vm_step :: "bytes \<Rightarrow> micro_vm \<Rightarrow> shake256 \<Rightarrow> nat \<Rightarrow> step_out" where
  "vm_step code vm trace pc =
     (case from_u8 (code ! pc) of
        None \<Rightarrow> Inl vm
      | Some op \<Rightarrow> exec_op code op vm (update trace [code ! pc]) (pc + 1))"

lemma exec_op_pc: "exec_op code op vm trace pc = Inr (vm', trace', pc') \<Longrightarrow> pc \<le> pc'"
  by (cases op)
     (auto simp: exec_binary_def Let_def split: option.splits if_splits prod.splits)

lemma vm_step_pc: "vm_step code vm trace pc = Inr (vm', trace', pc') \<Longrightarrow> pc < pc'"
  by (auto simp: vm_step_def dest!: exec_op_pc split: option.splits)

text \<open>The \<open>while pc < code.len()\<close> loop.\<close>

function vm_loop :: "bytes \<Rightarrow> micro_vm \<Rightarrow> shake256 \<Rightarrow> nat \<Rightarrow> micro_vm + micro_vm \<times> shake256" where
  "vm_loop code vm trace pc =
     (if pc < length code then
        (case vm_step code vm trace pc of
           Inl vm' \<Rightarrow> Inl vm'
         | Inr (vm', trace', pc') \<Rightarrow> vm_loop code vm' trace' pc')
      else Inr (vm, trace))"
  by pat_completeness auto
termination
  by (relation "measure (\<lambda>(code, vm, trace, pc). length code - pc)") (auto dest: vm_step_pc)

declare vm_loop.simps [simp del]

definition vm_trace_tag :: bytes where
  "vm_trace_tag = ascii ''veil7:vm-trace:v2''"

definition bad_canary :: "u64 \<Rightarrow> bool" where
  "bad_canary c \<longleftrightarrow> c = 0 \<or> c = - 1"

definition execute :: "xof \<Rightarrow> micro_vm \<Rightarrow> bytes \<Rightarrow> bytes \<times> micro_vm" where
  "execute xof vm code =
     (if code = [] \<or> MAX_CODE < length code then (zeros 64, vm)
      else if from_u8 (code ! 0) = None then (zeros 64, vm)
      else if bad_canary (canary vm) then (zeros 64, vm)
      else
        (let vm0 = vm\<lparr>sp := 0, stack := map (\<lambda>_. 0) (stack vm)\<rparr>;
             trace = update shake_new vm_trace_tag
         in case vm_loop code vm0 trace 0 of
              Inl vm' \<Rightarrow> (zeros 64, wipe_state vm')
            | Inr (vm', trace') \<Rightarrow>
                if bad_canary (canary vm') then (zeros 64, wipe_state vm')
                else (squeeze xof (update trace' (usize_le (sp vm'))) 64, wipe_state vm')))"

section \<open>The bytecode builder\<close>

record bytecode_builder =
  bb_code :: bytes

definition bb_new :: bytecode_builder where "bb_new = \<lparr>bb_code = []\<rparr>"

definition bb_default :: bytecode_builder where "bb_default = bb_new"

definition bb_op :: "bytecode_builder \<Rightarrow> byte \<Rightarrow> bytecode_builder" where
  "bb_op b x = b\<lparr>bb_code := bb_code b @ [x]\<rparr>"

definition bb_push :: "bytecode_builder \<Rightarrow> u64 \<Rightarrow> bytecode_builder" where
  "bb_push b v = (let b = bb_op b (opcode_byte OpPush) in b\<lparr>bb_code := bb_code b @ u64_le v\<rparr>)"

text \<open>The sixteen parameterless methods \<open>nop\<close>, \<open>add\<close>, \<dots>, \<open>lt\<close> append their opcode.\<close>

definition bb_plain :: "opcode \<Rightarrow> bytecode_builder \<Rightarrow> bytecode_builder" where
  "bb_plain p b = bb_op b (opcode_byte p)"

definition bb_build :: "bytecode_builder \<Rightarrow> bytes" where
  "bb_build b = bb_code b"

section \<open>The abstract machine\<close>

text \<open>Decoded instructions: an immediate push, or an opcode without operand.\<close>

datatype instr = Imm u64 | Plain opcode

fun instr_bytes :: "instr \<Rightarrow> bytes" where
  "instr_bytes (Imm v) = opcode_byte OpPush # u64_le v"
| "instr_bytes (Plain p) = [opcode_byte p]"

fun decode :: "bytes \<Rightarrow> instr list option" where
  "decode [] = Some []"
| "decode (b # bs) =
     (case from_u8 b of
        None \<Rightarrow> None
      | Some p \<Rightarrow>
          if has_immediate p then
            (if length bs < 8 then None
             else map_option ((#) (Imm (from_le_bytes (take 8 bs)))) (decode (drop 8 bs)))
          else map_option ((#) (Plain p)) (decode bs))"

text \<open>What the arithmetic opcodes mean.\<close>

fun binary_spec :: "opcode \<Rightarrow> u64 \<Rightarrow> u64 \<Rightarrow> u64 option" where
  "binary_spec OpAdd a b = Some (a + b)"
| "binary_spec OpXor a b = Some (a XOR b)"
| "binary_spec OpMul a b = Some (a * b)"
| "binary_spec OpDiv a b = Some (if b = 0 then 0 else a div b)"
| "binary_spec OpAnd a b = Some (a AND b)"
| "binary_spec OpOr a b = Some (a OR b)"
| "binary_spec OpShl a b = Some (push_bit (unat b mod 64) a)"
| "binary_spec OpShr a b = Some (drop_bit (unat b mod 64) a)"
| "binary_spec OpEq a b = Some (if a = b then 1 else 0)"
| "binary_spec OpLt a b = Some (if unat a < unat b then 1 else 0)"
| "binary_spec _ a b = None"

text \<open>
  One instruction on a stack with its top last: the new stack and the bytes the result
  adds to the trace, or \<open>None\<close> for underflow and overflow.
\<close>

fun instr_sem :: "instr \<Rightarrow> u64 list \<Rightarrow> (u64 list \<times> bytes) option" where
  "instr_sem (Imm v) st = (if length st < STACK_DEPTH then Some (st @ [v], []) else None)"
| "instr_sem (Plain OpNop) st = Some (st, [])"
| "instr_sem (Plain OpPush) st = None"
| "instr_sem (Plain OpPop) st = (if st = [] then None else Some (butlast st, []))"
| "instr_sem (Plain OpDup) st =
     (if st \<noteq> [] \<and> length st < STACK_DEPTH then Some (st @ [last st], []) else None)"
| "instr_sem (Plain OpSwap) st =
     (if length st < 2 then None
      else Some (take (length st - 2) st @ [st ! (length st - 1), st ! (length st - 2)], []))"
| "instr_sem (Plain OpRot) st = Some (if length st < 2 then st else tl st @ [hd st], [])"
| "instr_sem (Plain OpNot) st =
     (if st = [] then None else Some (butlast st @ [NOT (last st)], u64_le (NOT (last st))))"
| "instr_sem (Plain p) st =
     (if length st < 2 then None
      else map_option (\<lambda>r. (take (length st - 2) st @ [r], u64_le r))
             (binary_spec p (st ! (length st - 2)) (st ! (length st - 1))))"

text \<open>A program: the final stack and the whole trace.\<close>

fun run :: "instr list \<Rightarrow> u64 list \<Rightarrow> (u64 list \<times> bytes) option" where
  "run [] st = Some (st, [])"
| "run (i # is) st =
     (case instr_sem i st of
        None \<Rightarrow> None
      | Some (st', out) \<Rightarrow>
          map_option (\<lambda>(st'', tr). (st'', instr_bytes i @ out @ tr)) (run is st'))"

definition vm_message :: "u64 list \<Rightarrow> bytes \<Rightarrow> bytes" where
  "vm_message st tr = vm_trace_tag @ tr @ usize_le (length st)"

definition vm_spec :: "xof \<Rightarrow> bytes \<Rightarrow> bytes option" where
  "vm_spec xof code =
     (if code = [] \<or> MAX_CODE < length code then None
      else case decode code of
        None \<Rightarrow> None
      | Some is \<Rightarrow> map_option (\<lambda>(st, tr). shake256_ema xof 64 (vm_message st tr)) (run is []))"

section \<open>The constant-time operations are correct\<close>

lemma nonzero_bit:
  "drop_bit 63 ((b :: u64) OR (0 - b)) = of_bool (b \<noteq> 0)"
proof (cases "b = 0")
  case False
  have "bit b 63 \<or> bit (- b) 63"
  proof (rule ccontr)
    assume a: "\<not> ?thesis"
    have lt: "unat x < 2 ^ 63" if "\<not> bit x 63" for x :: u64
    proof -
      have "take_bit 63 x = x"
      proof (rule bit_word_eqI)
        fix n assume "n < LENGTH(64)"
        then have "n < 63 \<or> n = 63" by auto
        with that show "bit (take_bit 63 x) n = bit x n" by (auto simp: bit_simps)
      qed
      then show ?thesis by (metis take_bit_nat_less_exp unsigned_take_bit_eq)
    qed
    from a have "unat b < 2 ^ 63" "unat (- b) < 2 ^ 63"
      using lt [of b] lt [of "- b"] by blast+
    moreover have "(unat b + unat (- b)) mod 2 ^ 64 = 0"
      using unat_word_ariths(1) [of b "- b"] by simp
    ultimately have "unat b = 0" by simp
    with False show False by (simp add: unat_eq_zero)
  qed
  moreover have "drop_bit 63 (b OR - b) = of_bool (bit (b OR - b) 63)"
  proof (rule bit_word_eqI)
    fix n assume "n < LENGTH(64)"
    have "\<not> bit x (63 + n)" if "0 < n" for x :: u64
      using bit_imp_le_length [of x "63 + n"] that by auto
    then show "bit (drop_bit 63 (b OR - b)) n = bit (of_bool (bit (b OR - b) 63) :: u64) n"
      by (cases "n = 0") (auto simp: bit_simps bit_1_iff)
  qed
  ultimately show ?thesis using False by (simp add: bit_or_iff)
qed simp

lemma and_63: "unat ((b :: u64) AND 63) = unat b mod 64"
proof -
  have "b AND 63 = take_bit 6 b" by (simp add: take_bit_eq_mask mask_eq_exp_minus_1)
  then have "unat (b AND 63) = take_bit 6 (unat b)" by (simp only: unsigned_take_bit_eq)
  then show ?thesis by (simp add: take_bit_eq_mod)
qed

lemma binary_op_correct: "binary_op p a b = binary_spec p a b"
proof (cases p)
  case OpDiv
  show ?thesis
    unfolding OpDiv binary_op.simps binary_spec.simps Let_def nonzero_bit
    by (cases "b = 0") simp_all
next
  case OpEq
  show ?thesis
    unfolding OpEq binary_op.simps binary_spec.simps Let_def nonzero_bit
    by (cases "a = b") (auto simp: xor_eq_0_iff)
qed (simp_all add: and_63 word_less_nat_alt)

section \<open>Decoding and encoding\<close>

lemma from_u8_opcode_byte [simp]: "from_u8 (opcode_byte p) = Some p"
  by (cases p) (simp_all add: from_u8_def)

lemma from_u8_Some: "from_u8 b = Some p \<Longrightarrow> b = opcode_byte p"
  by (auto simp: from_u8_def split: if_splits)

lemma opcode_byte_inj [simp]: "opcode_byte p = opcode_byte q \<longleftrightarrow> p = q"
  by (metis from_u8_opcode_byte option.inject)

definition plain_ok :: "instr \<Rightarrow> bool" where
  "plain_ok i \<longleftrightarrow> i \<noteq> Plain OpPush"

lemma decode_instr_bytes:
  "plain_ok i \<Longrightarrow> decode (instr_bytes i @ bs) = map_option ((#) i) (decode bs)"
  by (cases i) (auto simp: plain_ok_def has_immediate_def simp del: opcode_byte.simps)

lemma decode_encode: "list_all plain_ok is \<Longrightarrow> decode (concat (map instr_bytes is)) = Some is"
  by (induction "is") (simp_all add: decode_instr_bytes)

lemma encode_decode:
  "decode code = Some is \<Longrightarrow> code = concat (map instr_bytes is) \<and> list_all plain_ok is"
proof (induction code arbitrary: "is" rule: decode.induct)
  case (2 b bs)
  from "2.prems" obtain p where p: "from_u8 b = Some p" by (auto split: option.splits)
  then have b: "b = opcode_byte p" by (rule from_u8_Some)
  show ?case
  proof (cases "has_immediate p")
    case True
    with 2 p obtain js where js: "\<not> length bs < 8" "decode (drop 8 bs) = Some js"
      "is = Imm (from_le_bytes (take 8 bs)) # js" by (auto split: if_splits)
    with 2 p True have "drop 8 bs = concat (map instr_bytes js) \<and> list_all plain_ok js" by simp
    moreover have "u64_le (from_le_bytes (take 8 bs)) = take 8 bs"
      using js(1) by simp
    moreover have "bs = take 8 bs @ drop 8 bs" by simp
    ultimately have "bs = u64_le (from_le_bytes (take 8 bs)) @ concat (map instr_bytes js)"
      by metis
    with js b True \<open>drop 8 bs = _ \<and> _\<close> show ?thesis
      by (simp add: has_immediate_def plain_ok_def [of "Imm _"])
  next
    case False
    with 2 p b show ?thesis by (auto simp: has_immediate_def plain_ok_def)
  qed
qed simp

section \<open>Simulation\<close>

text \<open>The machine that holds a given abstract stack: the unused slots are zero.\<close>

definition vm_of :: "u64 \<Rightarrow> u64 list \<Rightarrow> micro_vm" where
  "vm_of c st = \<lparr>stack = st @ replicate (STACK_DEPTH - length st) 0, sp = length st, canary = c\<rparr>"

lemma vm_of_sel [simp]:
  "sp (vm_of c st) = length st" "canary (vm_of c st) = c"
  "stack (vm_of c st) = st @ replicate (STACK_DEPTH - length st) 0"
  by (simp_all add: vm_of_def)

lemma vm_push_of:
  "length st \<le> STACK_DEPTH \<Longrightarrow> vm_push (vm_of c st) v =
     (if length st < STACK_DEPTH then (True, vm_of c (st @ [v])) else (False, vm_of c st))"
proof -
  have "(st @ replicate n 0)[length st := v] = st @ v # replicate (n - 1) 0" if "0 < n" for n
    using that by (cases n) (simp_all add: list_update_append)
  then show ?thesis
    by (auto simp: vm_push_def vm_of_def)
qed

lemma vm_pop_of:
  "length st \<le> STACK_DEPTH \<Longrightarrow> vm_pop (vm_of c st) =
     (if st = [] then (None, vm_of c st) else (Some (last st), vm_of c (butlast st)))"
proof (cases st rule: rev_cases)
  case (snoc xs x)
  assume "length st \<le> STACK_DEPTH"
  with snoc have "Suc (STACK_DEPTH - length st) = STACK_DEPTH - length xs" by simp
  then have "0 # replicate (STACK_DEPTH - length st) 0 = replicate (STACK_DEPTH - length xs) (0 :: u64)"
    by (metis replicate_Suc)
  with snoc show ?thesis
    by (simp add: vm_pop_def vm_of_def nth_append list_update_append)
qed (simp add: vm_pop_def vm_of_def)

lemma swap_of:
  assumes "2 \<le> length st"
  shows "(st @ zs)[length st - 1 := (st @ zs) ! (length st - 2), length st - 2 := (st @ zs) ! (length st - 1)] =
    (take (length st - 2) st @ [st ! (length st - 1), st ! (length st - 2)]) @ zs"
proof -
  from assms obtain xs a b where st: "st = xs @ [a, b]"
    by (metis (no_types, opaque_lifting) One_nat_def Suc_le_length_iff append.assoc append_Cons append_Nil
        length_rev numeral_2_eq_2 rev.simps(2) rev_rev_ident)
  then show ?thesis by (simp add: nth_append list_update_append)
qed

lemma rot_shift:
  "n < length xs \<Longrightarrow>
     fold (\<lambda>i st. st[i := st ! Suc i]) [0..<n] xs = take n (tl xs) @ drop n xs"
proof (induction n)
  case (Suc n)
  then have "fold (\<lambda>i st. st[i := st ! Suc i]) [0..<n] xs = take n (tl xs) @ drop n xs" (is "?f = ?g")
    by simp
  moreover have "?g[n := ?g ! Suc n] = take (Suc n) (tl xs) @ drop (Suc n) xs"
  proof (rule nth_equalityI)
    fix i assume "i < length (?g[n := ?g ! Suc n])"
    then have "i < length xs" using Suc.prems by simp
    with Suc.prems show "?g[n := ?g ! Suc n] ! i = (take (Suc n) (tl xs) @ drop (Suc n) xs) ! i"
      by (auto simp: nth_append nth_list_update nth_tl less_Suc_eq)
  qed (use Suc.prems in simp)
  ultimately show ?case by simp
qed (cases xs; simp)

lemma rot_of:
  assumes "2 \<le> length st"
  shows "(fold (\<lambda>i st. st[i := st ! Suc i]) [0..<length st - 1] (st @ zs))[length st - 1 := (st @ zs) ! 0] =
    (tl st @ [hd st]) @ zs"
proof -
  from assms obtain a xs where st: "st = a # xs" "xs \<noteq> []" by (cases st) force+
  then have "drop (length xs) (a # xs @ zs) = last xs # zs"
    by (cases xs rule: rev_cases) simp_all
  with st show ?thesis by (simp add: rot_shift list_update_append)
qed

lemma STACK_DEPTH_pos: "2 \<le> STACK_DEPTH"
  by (simp add: STACK_DEPTH_def)

text \<open>The head of the code at a program counter: the instruction decoded there.\<close>

definition fetch :: "bytes \<Rightarrow> nat \<Rightarrow> instr option" where
  "fetch code pc =
     (case from_u8 (code ! pc) of
        None \<Rightarrow> None
      | Some p \<Rightarrow>
          if has_immediate p then
            (if length code < pc + 9 then None
             else Some (Imm (from_le_bytes (take 8 (drop (pc + 1) code)))))
          else Some (Plain p))"

lemma decode_drop:
  "pc < length code \<Longrightarrow> decode (drop pc code) =
     (case fetch code pc of None \<Rightarrow> None
      | Some i \<Rightarrow> map_option ((#) i) (decode (drop (pc + length (instr_bytes i)) code)))"
proof -
  assume pc: "pc < length code"
  have "length code - Suc pc < 8 \<longleftrightarrow> length code < pc + 9" by auto
  then show ?thesis
    by (subst Cons_nth_drop_Suc [OF pc, symmetric])
       (simp add: fetch_def add.commute split: option.split)
qed

text \<open>One iteration of the interpreter is one instruction of the abstract machine.\<close>

lemma binary_step:
  assumes "length st \<le> STACK_DEPTH"
  shows "exec_binary p (vm_of c st) trace pc =
     (if length st < 2 then Inl (vm_of c []) else
      case binary_spec p (st ! (length st - 2)) (st ! (length st - 1)) of
        None \<Rightarrow> Inl (vm_of c (take (length st - 2) st))
      | Some r \<Rightarrow> Inr (vm_of c (take (length st - 2) st @ [r]), update trace (u64_le r), pc))"
proof (cases "length st < 2")
  case True
  then consider "st = []" | x where "st = [x]"
    by (cases st; cases "tl st") auto
  then show ?thesis
    using STACK_DEPTH_pos by cases (simp_all add: exec_binary_def vm_pop_of)
next
  case False
  then obtain xs a b where st: "st = xs @ [a, b]"
    by (metis (no_types, opaque_lifting) One_nat_def Suc_le_length_iff append.assoc append_Cons append_Nil
        length_rev linorder_not_less numeral_2_eq_2 rev.simps(2) rev_rev_ident)
  with assms show ?thesis
    by (auto simp: exec_binary_def vm_pop_of vm_push_of butlast_append nth_append binary_op_correct
             split: option.split)
qed

definition vm_fails :: "u64 \<Rightarrow> micro_vm + 'b \<Rightarrow> bool" where
  "vm_fails c r \<longleftrightarrow> (\<exists>st. r = Inl (vm_of c st) \<and> length st \<le> STACK_DEPTH)"

lemma vm_fails_Inl [simp]: "length st \<le> STACK_DEPTH \<Longrightarrow> vm_fails c (Inl (vm_of c st))"
  by (auto simp: vm_fails_def)

definition step_result :: "u64 \<Rightarrow> shake256 \<Rightarrow> nat \<Rightarrow> (u64 list \<times> bytes) option \<Rightarrow> step_out \<Rightarrow> bool" where
  "step_result c trace pc sem r \<longleftrightarrow>
     (case sem of
        None \<Rightarrow> vm_fails c r
      | Some (st', out) \<Rightarrow> r = Inr (vm_of c st', update trace out, pc) \<and> length st' \<le> STACK_DEPTH)"

lemma vm_of_swap:
  "2 \<le> length st \<Longrightarrow>
   (vm_of c st)\<lparr>stack := (st @ zs)[length st - 1 := (st @ zs) ! (length st - 2),
                                  length st - 2 := (st @ zs) ! (length st - 1)]\<rparr> =
   \<lparr>stack = (take (length st - 2) st @ [st ! (length st - 1), st ! (length st - 2)]) @ zs,
    sp = length st, canary = c\<rparr>"
  by (simp only: swap_of) (simp add: vm_of_def)

lemma exec_swap:
  "length st \<le> STACK_DEPTH \<Longrightarrow>
   step_result c trace pc (instr_sem (Plain OpSwap) st) (exec_op code OpSwap (vm_of c st) trace pc)"
  using vm_of_swap [of st "replicate (STACK_DEPTH - length st) 0" c]
  by (cases "length st < 2") (simp add: step_result_def, auto simp: step_result_def vm_of_def)

lemma exec_rot:
  "length st \<le> STACK_DEPTH \<Longrightarrow>
   step_result c trace pc (instr_sem (Plain OpRot) st) (exec_op code OpRot (vm_of c st) trace pc)"
  using rot_of [of st "replicate (STACK_DEPTH - length st) 0"]
  by (cases "length st < 2") (simp add: step_result_def, auto simp: step_result_def vm_of_def Let_def)

lemma exec_plain:
  assumes "length st \<le> STACK_DEPTH" and "p \<noteq> OpPush"
  shows "step_result c trace pc (instr_sem (Plain p) st) (exec_op code p (vm_of c st) trace pc)"
proof (cases "p = OpSwap \<or> p = OpRot")
  case True
  with assms show ?thesis using exec_swap exec_rot by blast
next
  case False
  with assms STACK_DEPTH_pos show ?thesis
    by (cases p)
       (auto simp: step_result_def binary_step vm_pop_of vm_push_of nth_append last_conv_nth Let_def
             split: option.splits)
qed

lemma exec_imm:
  assumes "length st \<le> STACK_DEPTH" and "pc + 8 \<le> length code"
  defines "b \<equiv> take 8 (drop pc code)"
  shows "step_result c (update trace b) (pc + 8) (instr_sem (Imm (from_le_bytes b)) st)
     (exec_op code OpPush (vm_of c st) trace pc)"
  using assms by (auto simp: step_result_def vm_push_of Let_def)

lemma vm_step_simulates:
  assumes "length st \<le> STACK_DEPTH" and "pc < length code"
  shows "case fetch code pc of
      None \<Rightarrow> vm_fails c (vm_step code (vm_of c st) trace pc)
    | Some i \<Rightarrow> step_result c (update trace (instr_bytes i)) (pc + length (instr_bytes i))
                 (instr_sem i st) (vm_step code (vm_of c st) trace pc)"
proof (cases "from_u8 (code ! pc)")
  case None
  with assms show ?thesis by (simp add: fetch_def vm_step_def)
next
  case (Some p)
  then have b: "code ! pc = opcode_byte p" by (rule from_u8_Some)
  show ?thesis
  proof (cases "p = OpPush")
    case False
    with Some b assms show ?thesis
      using exec_plain [of st p c "update trace [code ! pc]" "pc + 1" code]
      by (simp add: fetch_def has_immediate_def vm_step_def)
  next
    case True
    with Some b assms show ?thesis
      using exec_imm [of st "pc + 1" code c "update trace [code ! pc]"]
      by (auto simp: fetch_def has_immediate_def vm_step_def update_update add.commute)
  qed
qed

text \<open>The loop from a program counter is the abstract run of what is decoded from there.\<close>

definition loop_result ::
  "u64 \<Rightarrow> shake256 \<Rightarrow> (u64 list \<times> bytes) option \<Rightarrow> micro_vm + micro_vm \<times> shake256 \<Rightarrow> bool" where
  "loop_result c trace sem r \<longleftrightarrow>
     (case sem of
        None \<Rightarrow> vm_fails c r
      | Some (st', tr) \<Rightarrow> r = Inr (vm_of c st', update trace tr) \<and> length st' \<le> STACK_DEPTH)"

lemma vm_loop_simulates:
  assumes "length st \<le> STACK_DEPTH"
  shows "loop_result c trace (Option.bind (decode (drop pc code)) (\<lambda>is. run is st))
           (vm_loop code (vm_of c st) trace pc)"
  using assms
proof (induction "length code - pc" arbitrary: st trace pc rule: less_induct)
  case less
  show ?case
  proof (cases "pc < length code")
    case False
    with less.prems show ?thesis by (simp add: loop_result_def vm_loop.simps)
  next
    case True
    note sim = vm_step_simulates [OF less.prems True, of c trace]
    note unfold = decode_drop [OF True] vm_loop.simps [of code "vm_of c st" trace pc]
    show ?thesis
    proof (cases "fetch code pc")
      case None
      with sim True show ?thesis
        by (auto simp: unfold loop_result_def vm_fails_def)
    next
      case (Some i)
      show ?thesis
      proof (cases "instr_sem i st")
        case None
        with sim True Some show ?thesis
          by (cases "decode (drop (pc + length (instr_bytes i)) code)")
             (auto simp: unfold loop_result_def vm_fails_def step_result_def)
      next
        case (Some r)
        then obtain st' out where r: "instr_sem i st = Some (st', out)" by (cases r) auto
        let ?pc = "pc + length (instr_bytes i)" and ?tr = "update trace (instr_bytes i @ out)"
        from sim r \<open>fetch code pc = Some i\<close>
        have step: "vm_step code (vm_of c st) trace pc = Inr (vm_of c st', ?tr, ?pc)"
          and len: "length st' \<le> STACK_DEPTH"
          by (simp_all add: step_result_def update_update)
        have "length code - ?pc < length code - pc" using True by (cases i) auto
        from less.hyps [OF this len, of ?tr]
        show ?thesis using True step r \<open>fetch code pc = Some i\<close>
          by (auto simp: unfold loop_result_def vm_fails_def update_update split: option.splits
                Option.bind_splits)
      qed
    qed
  qed
qed

section \<open>What the machine computes\<close>

lemma vm_of_Nil: "vm_of c [] = with_canary c"
  by (simp add: vm_of_def with_canary_def)

lemma wipe_vm_of: "length st \<le> STACK_DEPTH \<Longrightarrow> wipe_state (vm_of c st) = with_canary c"
  by (simp add: wipe_state_def vm_of_def with_canary_def map_replicate_const flip: replicate_add)

lemma canary_with_canary [simp]: "canary (with_canary c) = c"
  by (simp add: with_canary_def)

lemma length_stack_with_canary [simp]: "length (stack (with_canary c)) = STACK_DEPTH"
  by (simp add: with_canary_def)

lemma execute_reset:
  "length (stack vm) = STACK_DEPTH \<Longrightarrow> vm\<lparr>sp := 0, stack := map (\<lambda>_. 0) (stack vm)\<rparr> = with_canary (canary vm)"
  by (simp add: with_canary_def map_replicate_const)

lemma decode_bad_head: "code \<noteq> [] \<Longrightarrow> from_u8 (code ! 0) = None \<Longrightarrow> decode code = None"
  by (cases code) simp_all

definition vm_root :: "xof \<Rightarrow> bytes \<Rightarrow> bytes" where
  "vm_root xof code = (case vm_spec xof code of None \<Rightarrow> zeros 64 | Some r \<Rightarrow> r)"

lemma execute_with_canary:
  "execute xof (with_canary c) code =
     (if bad_canary c then zeros 64 else vm_root xof code, with_canary c)"
proof (cases "code = [] \<or> MAX_CODE < length code \<or> from_u8 (code ! 0) = None \<or> bad_canary c")
  case True
  then show ?thesis
    by (auto simp: execute_def vm_root_def vm_spec_def decode_bad_head)
next
  case False
  let ?t = "update shake_new vm_trace_tag"
  have reset: "(with_canary c)\<lparr>sp := 0, stack := map (\<lambda>_. 0) (stack (with_canary c))\<rparr> = vm_of c []"
    using execute_reset [of "with_canary c"] by (simp add: vm_of_Nil with_canary_def)
  have "loop_result c ?t (Option.bind (decode code) (\<lambda>is. run is [])) (vm_loop code (vm_of c []) ?t 0)"
    using vm_loop_simulates [of "[]" c ?t 0 code] by simp
  with False show ?thesis
    by (auto simp: execute_def reset Let_def loop_result_def vm_fails_def vm_root_def vm_spec_def
          vm_message_def squeeze_eq wipe_vm_of split: option.splits)
qed

text \<open>The trace determines the instructions: what is absorbed is uniquely decodable.\<close>

lemma instr_bytes_prefix:
  "instr_bytes i @ xs = instr_bytes j @ ys \<Longrightarrow> plain_ok i \<Longrightarrow> plain_ok j \<Longrightarrow> i = j \<and> xs = ys"
  by (cases i; cases j) (auto simp: plain_ok_def simp del: opcode_byte.simps)

lemma run_trace_inj:
  assumes "run is st = Some (s1, tr)" and "run js st = Some (s2, tr)"
    and "list_all plain_ok is" and "list_all plain_ok js"
  shows "is = js"
  using assms
proof (induction "is" arbitrary: js st tr)
  case Nil
  then show ?case by (cases js; cases "hd js") (auto split: option.splits)
next
  case (Cons i "is")
  have "tr \<noteq> []" using Cons.prems(1) by (cases i) (auto split: option.splits)
  then obtain j js' where js: "js = j # js'" using Cons.prems(2) by (cases js) auto
  from Cons.prems(1) obtain st1 out1 tr1 where 1: "instr_sem i st = Some (st1, out1)"
    "run is st1 = Some (s1, tr1)" "tr = instr_bytes i @ out1 @ tr1" by (auto split: option.splits)
  from Cons.prems(2) js obtain st2 out2 tr2 where 2: "instr_sem j st = Some (st2, out2)"
    "run js' st2 = Some (s2, tr2)" "tr = instr_bytes j @ out2 @ tr2" by (auto split: option.splits)
  from 1 2 js Cons.prems have "i = j" and "out1 @ tr1 = out2 @ tr2"
    by (auto dest: instr_bytes_prefix)
  with 1 2 have "st1 = st2" "tr1 = tr2" by auto
  with Cons.IH [of st1 tr1 js'] 1 2 js Cons.prems \<open>i = j\<close> show ?case by simp
qed

lemma vm_message_inj:
  "vm_message s1 t1 = vm_message s2 t2 \<Longrightarrow> t1 = t2"
  unfolding vm_message_def by (simp add: append_eq_append_conv)

fun bb_instr :: "instr \<Rightarrow> bytecode_builder \<Rightarrow> bytecode_builder" where
  "bb_instr (Imm v) b = bb_push b v"
| "bb_instr (Plain p) b = bb_plain p b"

lemma bb_code_instr: "bb_code (bb_instr i b) = bb_code b @ instr_bytes i"
  by (cases i) (simp_all add: bb_push_def bb_plain_def bb_op_def Let_def)

lemma bb_code_fold: "bb_code (fold bb_instr is b) = bb_code b @ concat (map instr_bytes is)"
  by (induction "is" arbitrary: b) (simp_all add: bb_code_instr)

lemma bb_build_instrs: "bb_build (fold bb_instr is bb_new) = concat (map instr_bytes is)"
  by (simp add: bb_build_def bb_code_fold bb_new_def)

section \<open>Reachable states\<close>

text \<open>The states the loop of \<open>execute\<close> goes through.\<close>

inductive vm_reach :: "bytes \<Rightarrow> u64 \<Rightarrow> micro_vm \<Rightarrow> shake256 \<Rightarrow> nat \<Rightarrow> bool" for code c where
  start: "vm_reach code c (with_canary c) (update shake_new vm_trace_tag) 0"
| step: "vm_reach code c vm trace pc \<Longrightarrow> pc < length code \<Longrightarrow>
    vm_step code vm trace pc = Inr (vm', trace', pc') \<Longrightarrow> vm_reach code c vm' trace' pc'"

definition vm_inv :: "u64 \<Rightarrow> micro_vm \<Rightarrow> bool" where
  "vm_inv c vm \<longleftrightarrow> length (stack vm) = STACK_DEPTH \<and> sp vm \<le> STACK_DEPTH \<and>
     drop (sp vm) (stack vm) = replicate (STACK_DEPTH - sp vm) 0 \<and> canary vm = c"

lemma vm_inv_iff: "vm_inv c vm \<longleftrightarrow> (\<exists>st. length st \<le> STACK_DEPTH \<and> vm = vm_of c st)"
proof
  assume inv: "vm_inv c vm"
  then have "stack vm = take (sp vm) (stack vm) @ replicate (STACK_DEPTH - sp vm) 0"
    by (metis append_take_drop_id vm_inv_def)
  with inv have "vm = vm_of c (take (sp vm) (stack vm))"
    by (cases vm) (simp add: vm_inv_def vm_of_def)
  with inv show "\<exists>st. length st \<le> STACK_DEPTH \<and> vm = vm_of c st"
    by (metis length_take min.coboundedI2 vm_inv_def min.absorb2 min.commute)
qed (auto simp: vm_inv_def)

lemma vm_step_inv:
  assumes "vm_inv c vm" and "pc < length code" and "vm_step code vm trace pc = Inr (vm', trace', pc')"
  shows "vm_inv c vm' \<and> pc' \<le> length code"
proof -
  from assms(1) obtain st where st: "length st \<le> STACK_DEPTH" "vm = vm_of c st"
    by (auto simp: vm_inv_iff)
  from vm_step_simulates [OF st(1) assms(2), of c trace] assms(2,3) st(2) show ?thesis
    by (auto simp: step_result_def vm_inv_iff fetch_def vm_fails_def split: option.splits if_splits)
qed

section \<open>Iterations\<close>

text \<open>The loop with a bound on its iterations: \<open>None\<close> when the bound is too small.\<close>

fun vm_loop_fuel :: "nat \<Rightarrow> bytes \<Rightarrow> micro_vm \<Rightarrow> shake256 \<Rightarrow> nat \<Rightarrow> (micro_vm + micro_vm \<times> shake256) option" where
  "vm_loop_fuel 0 code vm trace pc = (if pc < length code then None else Some (Inr (vm, trace)))"
| "vm_loop_fuel (Suc n) code vm trace pc =
     (if pc < length code then
        (case vm_step code vm trace pc of
           Inl vm' \<Rightarrow> Some (Inl vm')
         | Inr (vm', trace', pc') \<Rightarrow> vm_loop_fuel n code vm' trace' pc')
      else Some (Inr (vm, trace)))"

lemma vm_loop_fuel_enough:
  "length code - pc \<le> n \<Longrightarrow> vm_loop_fuel n code vm trace pc = Some (vm_loop code vm trace pc)"
proof (induction n arbitrary: vm trace pc)
  case 0
  then show ?case by (simp add: vm_loop.simps)
next
  case (Suc n)
  show ?case
  proof (cases "pc < length code")
    case True
    have "vm_loop_fuel n code vm' trace' pc' = Some (vm_loop code vm' trace' pc')"
      if "vm_step code vm trace pc = Inr (vm', trace', pc')" for vm' trace' pc'
      using vm_step_pc [OF that] Suc.prems by (intro Suc.IH) simp
    with True show ?thesis
      by (subst vm_loop.simps) (auto split: sum.split)
  qed (simp add: vm_loop.simps)
qed

section \<open>Properties\<close>

text \<open>C2. \<open>MicroVM::execute\<close> on a fresh machine implements the abstract machine: with a
  sane canary the root is the hash of the abstract run of the decoded program, and 64 zero
  bytes for empty, oversized, undecodable, underflowing or overflowing code; with a
  corrupted canary it is 64 zero bytes. Whatever happened, the machine it leaves is the
  wiped one, so the next execution starts from the same state, and the value of a sane
  canary does not show in the root.\<close>

theorem execute_refines:
  "execute xof (with_canary c) code =
     (if bad_canary c then zeros 64 else vm_root xof code, with_canary c)"
  by (rule execute_with_canary)

text \<open>A machine left dirty (any stack contents, any stack pointer) computes the same
  root as a fresh one with the same canary.\<close>

theorem execute_ignores_old_state:
  assumes "length (stack vm) = STACK_DEPTH"
  shows "fst (execute xof vm code) = fst (execute xof (with_canary (canary vm)) code)"
  using assms by (simp add: execute_def execute_reset Let_def split: sum.split)

theorem execute_ignores_old_state_witness:
  "fst (execute (\<lambda>m i. 0) \<lparr>stack = replicate 128 7, sp = 3, canary = 5\<rparr> [0x06]) =
   fst (execute (\<lambda>m i. 0) (with_canary 5) [0x06])"
  using execute_ignores_old_state [of "\<lparr>stack = replicate 128 7, sp = 3, canary = 5\<rparr>" "\<lambda>m i. 0" "[0x06]"]
  by (simp add: STACK_DEPTH_def)

text \<open>C24. Execution integrity: two programs that run to completion and whose roots agree
  are the same byte string, as long as the hash does not collide on the two absorbed
  traces. The trace (opcode bytes, immediates, results) is uniquely decodable.\<close>

theorem vm_root_binds_code:
  assumes "decode code1 = Some is1" and "run is1 [] = Some (st1, tr1)"
    and "decode code2 = Some is2" and "run is2 [] = Some (st2, tr2)"
    and "code1 \<noteq> []" and "code2 \<noteq> []" and "length code1 \<le> MAX_CODE" and "length code2 \<le> MAX_CODE"
    and "\<not> bad_canary c" and "\<not> bad_canary c'"
    and "collision_free xof 64 {vm_message st1 tr1, vm_message st2 tr2}"
    and "fst (execute xof (with_canary c) code1) = fst (execute xof (with_canary c') code2)"
  shows "code1 = code2"
proof -
  from assms have "shake256_ema xof 64 (vm_message st1 tr1) = shake256_ema xof 64 (vm_message st2 tr2)"
    by (simp add: execute_with_canary vm_root_def vm_spec_def)
  with assms(11) have "vm_message st1 tr1 = vm_message st2 tr2"
    by (auto dest: collision_freeD)
  then have "tr1 = tr2" by (rule vm_message_inj)
  with assms(1-4) have "is1 = is2" by (metis run_trace_inj encode_decode)
  with assms(1,3) show ?thesis by (metis encode_decode)
qed

theorem vm_root_binds_code_witness:
  "fst (execute (\<lambda>m i. of_nat (length m)) (with_canary 5) [0x00]) \<noteq>
   fst (execute (\<lambda>m i. of_nat (length m)) (with_canary 9) [0x00, 0x00])"
proof -
  let ?xof = "(\<lambda>m i. of_nat (length m)) :: xof"
  have "collision_free ?xof 64 {vm_message [] [0], vm_message [] [0, 0]}"
    by (rule collision_free_pairI [of 0]) (simp_all add: vm_message_def vm_trace_tag_def)
  with vm_root_binds_code [of "[0x00]" "[Plain OpNop]" "[]" "[0]" "[0x00, 0x00]" "[Plain OpNop, Plain OpNop]" "[]"
      "[0, 0]" 5 9 ?xof]
  show ?thesis
    by (auto simp: from_u8_def has_immediate_def MAX_CODE_def bad_canary_def)
qed

text \<open>C23. Stack safety: in every state the interpreter reaches, the stack has its 128
  slots, the stack pointer stays within them, the slots above it are zero (popped values
  are wiped), the canary is untouched and the program counter does not pass the end of the
  code, so no access of the loop is out of range.\<close>

theorem vm_stack_safe:
  "vm_reach code c vm trace pc \<Longrightarrow>
     length (stack vm) = STACK_DEPTH \<and> sp vm \<le> STACK_DEPTH \<and>
     (\<forall>i < STACK_DEPTH. sp vm \<le> i \<longrightarrow> stack vm ! i = 0) \<and> canary vm = c \<and> pc \<le> length code"
proof -
  assume "vm_reach code c vm trace pc"
  then have "vm_inv c vm \<and> pc \<le> length code"
  proof induction
    case start
    show ?case by (auto simp: vm_inv_def with_canary_def)
  qed (use vm_step_inv in blast)
  moreover from this obtain st where "vm = vm_of c st" by (auto simp: vm_inv_iff)
  ultimately show ?thesis by (auto simp: vm_inv_def nth_append)
qed

theorem vm_stack_safe_witness:
  "\<exists>vm trace. vm_step [0x05, 9, 0, 0, 0, 0, 0, 0, 0] (with_canary 5) (update shake_new vm_trace_tag) 0
       = Inr (vm, trace, 9) \<and> sp vm = 1 \<and> sp vm \<le> STACK_DEPTH \<and> stack vm ! 1 = 0"
proof -
  let ?code = "[0x05, 9, 0, 0, 0, 0, 0, 0, 0] :: bytes"
  obtain vm trace where
    s: "vm_step ?code (with_canary 5) (update shake_new vm_trace_tag) 0 = Inr (vm, trace, 9)" "sp vm = 1"
    by (simp add: vm_step_def from_u8_def vm_push_def with_canary_def STACK_DEPTH_def)
  have "vm_reach ?code 5 vm trace 9" by (rule vm_reach.step [OF vm_reach.start _ s(1)]) simp
  from vm_stack_safe [OF this] s show ?thesis by (auto simp: STACK_DEPTH_def)
qed

text \<open>C14. The interpreter always halts: no program can loop. From any machine state and any program
  counter the loop returns a result after at most one iteration per byte of code that is
  left, whatever the bytes are.\<close>

theorem vm_loop_terminates:
  "vm_loop_fuel (length code - pc) code vm trace pc = Some (vm_loop code vm trace pc)"
  by (rule vm_loop_fuel_enough) simp

text \<open>C32. The branch-free arithmetic of the interpreter means what the opcodes promise:
  division by zero is zero, comparison is unsigned, equality gives 0 or 1, shifts are
  taken modulo 64, addition and multiplication wrap.\<close>

theorem constant_time_ops_correct:
  "binary_op p a b = binary_spec p a b"
  by (rule binary_op_correct)

text \<open>Builder round trip: the bytes \<open>BytecodeBuilder\<close> emits for a sequence of
  \<open>push\<close> calls and parameterless instructions decode to exactly that sequence, so the
  root of an accepted built program is the hash of the run of those instructions.\<close>

theorem builder_roundtrip:
  assumes "list_all plain_ok is"
  shows "decode (bb_build (fold bb_instr is bb_new)) = Some is"
  using assms by (simp add: bb_build_instrs decode_encode)

theorem builder_roundtrip_witness:
  "decode (bb_build (bb_plain OpAdd (bb_push (bb_push bb_new 2) 3))) = Some [Imm 2, Imm 3, Plain OpAdd]"
  using builder_roundtrip [of "[Imm 2, Imm 3, Plain OpAdd]"]
  by (simp add: plain_ok_def)

end
