(* ===== verification/Memlock.thy ===== *)
theory Memlock
  imports Prelude
begin

text \<open>
  Layer L0, \<^verbatim>\<open>src/src/layers/l0_memlock.rs\<close>: wiping and poisoning, canaries, the
  memory-lock budget, and \<open>Locked\<close> buffers. Buffers are allocated, pinned, counted,
  filled, wiped, unpinned and uncounted by any number of threads, so besides the
  sequential \<open>locked_new\<close> and \<open>locked_drop\<close> there is a step relation whose steps are the
  atomic accesses to shared state. The kernel's \<open>mlock\<close> and \<open>munlock\<close> and the addresses
  the allocator hands out are parameters.
\<close>

section \<open>Wiping\<close>

definition zeroize_bytes :: "bytes \<Rightarrow> bytes" where
  "zeroize_bytes bs = map (\<lambda>_. 0) bs"

text \<open>Raw memory for the pointer variants: a write at each of \<open>len\<close> addresses.\<close>

definition zeroize_ptr :: "(nat \<Rightarrow> byte) \<Rightarrow> nat \<Rightarrow> nat \<Rightarrow> (nat \<Rightarrow> byte)" where
  "zeroize_ptr mem ptr len = fold (\<lambda>i m. m(ptr + i := 0)) [0..<len] mem"

text \<open>A slice is the address of its first byte and its length.\<close>

definition zeroize_slice :: "(nat \<Rightarrow> byte) \<Rightarrow> nat \<times> nat \<Rightarrow> (nat \<Rightarrow> byte)" where
  "zeroize_slice mem sl = (let ptr = fst sl in zeroize_ptr mem ptr (snd sl))"

definition zeroize_u64 :: "u64 \<Rightarrow> u64" where
  "zeroize_u64 w = 0"

definition POISON_PATTERN :: byte where "POISON_PATTERN = 0xDE"

definition poison_bytes :: "bytes \<Rightarrow> bytes" where
  "poison_bytes bs = map (\<lambda>_. POISON_PATTERN) bs"

definition zeroize_and_poison :: "bytes \<Rightarrow> bytes" where
  "zeroize_and_poison bs = zeroize_bytes (poison_bytes (zeroize_bytes bs))"

section \<open>Canaries\<close>

definition CANARY_VALUE :: u64 where "CANARY_VALUE = 0xDEADBEEFCAFEBABE"
definition CANARY :: u64 where "CANARY = 0xDEADBEEFCAFEBABE"

text \<open>\<open>to_ne_bytes\<close> on the little-endian targets.\<close>

definition plant_stack_canary :: "bytes \<Rightarrow> bytes" where
  "plant_stack_canary canary = map snd (zip canary (u64_le CANARY_VALUE))"

definition validate_stack_canary :: "bytes \<Rightarrow> bool" where
  "validate_stack_canary canary \<longleftrightarrow> canary = u64_le CANARY_VALUE"

definition wipe_stack_canary :: "bytes \<Rightarrow> bytes" where
  "wipe_stack_canary canary = map (\<lambda>_. 0) canary"

definition check_canary :: "u64 \<Rightarrow> bool" where
  "check_canary canary \<longleftrightarrow> canary = CANARY"

section \<open>The budget\<close>

text \<open>
  The threshold \<open>(limit as f64 * 0.8) as usize\<close>. A 64-bit float holds 53 significant
  bits, and both the conversion and the product round to the nearest, ties to even. The
  float \<open>0.8\<close> is \<open>7205759403792794 / 2 ^ 53\<close>; the values stay far from the exponent
  limits, so rounding commutes with the scaling by \<open>2 ^ 53\<close>. The cast back truncates and
  saturates.
\<close>

fun bit_len :: "nat \<Rightarrow> nat" where
  "bit_len n = (if n = 0 then 0 else bit_len (n div 2) + 1)"

declare bit_len.simps [simp del]

definition round53 :: "nat \<Rightarrow> nat" where
  "round53 x =
     (let e = bit_len x - 53; q = x div 2 ^ e; r = x mod 2 ^ e
      in if e = 0 then x
         else if 2 * r > 2 ^ e \<or> 2 * r = 2 ^ e \<and> odd q then (q + 1) * 2 ^ e
         else q * 2 ^ e)"

definition mlock_threshold :: "nat \<Rightarrow> nat" where
  "mlock_threshold limit = min (2 ^ 64 - 1) (round53 (round53 limit * 7205759403792794) div 2 ^ 53)"

section \<open>Buffers\<close>

text \<open>
  Where a buffer stands in \<open>new\<close> or \<open>drop\<close>: past the budget check, pinned but not yet
  counted, handed to its owner (with the \<open>locked\<close> flag), wiped, unpinned, gone.
\<close>

datatype buffer_phase = Checked | Mlocked | Live bool | Wiped | Unlocked | Freed

record buffer =
  lb_base :: nat
  lb_buf :: bytes
  lb_phase :: buffer_phase

text \<open>The process: the global counter, the resource limit, the pages the kernel keeps in RAM, and the buffers.\<close>

record process =
  usage :: u64
  rlimit :: "nat option"
  pinned :: "nat set"
  buffers :: "buffer list"

record kernel =
  k_mlock :: "nat \<Rightarrow> nat \<Rightarrow> nat set \<Rightarrow> nat set"
  k_munlock :: "nat \<Rightarrow> nat \<Rightarrow> nat set \<Rightarrow> nat set"

definition get_locked_memory_usage :: "process \<Rightarrow> nat" where
  "get_locked_memory_usage st = unat (usage st)"

definition is_approaching_mlock_limit :: "process \<Rightarrow> bool" where
  "is_approaching_mlock_limit st =
     (case rlimit st of
        None \<Rightarrow> False
      | Some limit \<Rightarrow> get_locked_memory_usage st > mlock_threshold limit)"

definition set_buffer :: "nat \<Rightarrow> buffer \<Rightarrow> process \<Rightarrow> process" where
  "set_buffer i b st = st\<lparr>buffers := (buffers st)[i := b]\<rparr>"

text \<open>The atomic steps of \<open>Locked::new\<close>.\<close>

definition alloc_check :: "nat \<Rightarrow> nat \<Rightarrow> process \<Rightarrow> process" where
  "alloc_check addr n st =
     st\<lparr>buffers := buffers st @
        [\<lparr>lb_base = addr, lb_buf = replicate n 0, lb_phase = (if is_approaching_mlock_limit st then Live False else Checked)\<rparr>]\<rparr>"

definition do_mlock :: "kernel \<Rightarrow> bool \<Rightarrow> nat \<Rightarrow> process \<Rightarrow> process" where
  "do_mlock K ok i st =
     (let b = buffers st ! i in
      if ok then (set_buffer i (b\<lparr>lb_phase := Mlocked\<rparr>) st)\<lparr>pinned := k_mlock K (lb_base b) (length (lb_buf b)) (pinned st)\<rparr>
      else set_buffer i (b\<lparr>lb_phase := Live False\<rparr>) st)"

definition count_up :: "nat \<Rightarrow> process \<Rightarrow> process" where
  "count_up i st =
     (let b = buffers st ! i in
      (set_buffer i (b\<lparr>lb_phase := Live True\<rparr>) st)\<lparr>usage := usage st + of_nat (length (lb_buf b))\<rparr>)"

text \<open>\<open>fill_from\<close>, with its length check.\<close>

definition fill_from :: "nat \<Rightarrow> bytes \<Rightarrow> process \<Rightarrow> bool \<times> process" where
  "fill_from i src st =
     (let b = buffers st ! i in
      if length src \<noteq> length (lb_buf b) then (False, st)
      else (True, set_buffer i (b\<lparr>lb_buf := src\<rparr>) st))"

text \<open>The atomic steps of \<open>Drop\<close>.\<close>

definition wipe_buffer :: "nat \<Rightarrow> process \<Rightarrow> process" where
  "wipe_buffer i st =
     (let b = buffers st ! i in
      set_buffer i (b\<lparr>lb_buf := zeroize_and_poison (lb_buf b), lb_phase := (if lb_phase b = Live True then Wiped else Freed)\<rparr>) st)"

definition do_munlock :: "kernel \<Rightarrow> nat \<Rightarrow> process \<Rightarrow> process" where
  "do_munlock K i st =
     (let b = buffers st ! i in
      (set_buffer i (b\<lparr>lb_phase := Unlocked\<rparr>) st)\<lparr>pinned := k_munlock K (lb_base b) (length (lb_buf b)) (pinned st)\<rparr>)"

definition count_down :: "nat \<Rightarrow> process \<Rightarrow> process" where
  "count_down i st =
     (let b = buffers st ! i in
      (set_buffer i (b\<lparr>lb_phase := Freed\<rparr>) st)\<lparr>usage := usage st - of_nat (length (lb_buf b))\<rparr>)"

text \<open>The two operations as one thread runs them alone. \<open>ok\<close> is the kernel's answer to \<open>mlock\<close>.\<close>

definition locked_new :: "kernel \<Rightarrow> bool \<Rightarrow> nat \<Rightarrow> nat \<Rightarrow> process \<Rightarrow> nat \<times> process" where
  "locked_new K ok addr n st =
     (let i = length (buffers st); st = alloc_check addr n st in
      if lb_phase (buffers st ! i) = Checked then
        (let st = do_mlock K ok i st in (i, if ok then count_up i st else st))
      else (i, st))"

definition locked_default :: "kernel \<Rightarrow> bool \<Rightarrow> nat \<Rightarrow> nat \<Rightarrow> process \<Rightarrow> nat \<times> process" where
  "locked_default K ok addr n st = locked_new K ok addr n st"

definition as_bytes :: "nat \<Rightarrow> process \<Rightarrow> bytes" where
  "as_bytes i st = lb_buf (buffers st ! i)"

definition is_locked :: "nat \<Rightarrow> process \<Rightarrow> bool" where
  "is_locked i st \<longleftrightarrow> lb_phase (buffers st ! i) = Live True"

definition locked_drop :: "kernel \<Rightarrow> nat \<Rightarrow> process \<Rightarrow> process" where
  "locked_drop K i st =
     (let was_locked = is_locked i st; st = wipe_buffer i st in
      if was_locked then count_down i (do_munlock K i st) else st)"

text \<open>
  Interleavings. \<open>allowed\<close> is what is known of the addresses the allocator returns.
\<close>

inductive step :: "kernel \<Rightarrow> (process \<Rightarrow> nat \<Rightarrow> nat \<Rightarrow> bool) \<Rightarrow> process \<Rightarrow> process \<Rightarrow> bool"
  for K allowed where
  alloc: "allowed st addr n \<Longrightarrow> step K allowed st (alloc_check addr n st)"
| mlock: "i < length (buffers st) \<Longrightarrow> lb_phase (buffers st ! i) = Checked \<Longrightarrow> step K allowed st (do_mlock K ok i st)"
| count: "i < length (buffers st) \<Longrightarrow> lb_phase (buffers st ! i) = Mlocked \<Longrightarrow> step K allowed st (count_up i st)"
| fill: "i < length (buffers st) \<Longrightarrow> lb_phase (buffers st ! i) = Live l \<Longrightarrow> step K allowed st (snd (fill_from i src st))"
| wipe: "i < length (buffers st) \<Longrightarrow> lb_phase (buffers st ! i) = Live l \<Longrightarrow> step K allowed st (wipe_buffer i st)"
| munlock: "i < length (buffers st) \<Longrightarrow> lb_phase (buffers st ! i) = Wiped \<Longrightarrow> step K allowed st (do_munlock K i st)"
| uncount: "i < length (buffers st) \<Longrightarrow> lb_phase (buffers st ! i) = Unlocked \<Longrightarrow> step K allowed st (count_down i st)"

definition process_start :: "nat option \<Rightarrow> process" where
  "process_start limit = \<lparr>usage = 0, rlimit = limit, pinned = {}, buffers = []\<rparr>"

abbreviation reaches :: "kernel \<Rightarrow> (process \<Rightarrow> nat \<Rightarrow> nat \<Rightarrow> bool) \<Rightarrow> process \<Rightarrow> process \<Rightarrow> bool" where
  "reaches K allowed \<equiv> (step K allowed)\<^sup>*\<^sup>*"

section \<open>What the kernel and the allocator promise\<close>

text \<open>
  Pages are \<open>4096\<close> bytes. \<open>mlock\<close> pins every page that holds part of the range, and
  \<open>munlock\<close> releases every such page: locks do not nest.
\<close>

definition pages :: "nat \<Rightarrow> nat \<Rightarrow> nat set" where
  "pages addr n = {p. addr div 4096 \<le> p \<and> p * 4096 < addr + n}"

definition posix_locking :: "kernel \<Rightarrow> bool" where
  "posix_locking K \<longleftrightarrow>
     (\<forall>a n P. k_mlock K a n P = P \<union> pages a n \<and> k_munlock K a n P = P - pages a n)"

definition posix_kernel :: kernel where
  "posix_kernel = \<lparr>k_mlock = \<lambda>a n P. P \<union> pages a n, k_munlock = \<lambda>a n P. P - pages a n\<rparr>"

text \<open>Every allocator keeps the bytes of live allocations apart, but not their pages.\<close>

definition bytes_apart :: "process \<Rightarrow> nat \<Rightarrow> nat \<Rightarrow> bool" where
  "bytes_apart st addr n \<longleftrightarrow>
     list_all (\<lambda>b. lb_phase b = Freed \<or> addr + n \<le> lb_base b \<or> lb_base b + length (lb_buf b) \<le> addr) (buffers st)"

section \<open>Wiping and canaries\<close>

lemma zeroize_bytes_eq [simp]: "zeroize_bytes bs = zeros (length bs)"
  by (simp add: zeroize_bytes_def map_replicate_const)

lemma zeroize_and_poison_eq [simp]: "zeroize_and_poison bs = zeros (length bs)"
  by (simp add: zeroize_and_poison_def poison_bytes_def)

lemma zeroize_ptr_eq: "zeroize_ptr mem ptr len a = (if ptr \<le> a \<and> a < ptr + len then 0 else mem a)"
  by (induction len) (auto simp: zeroize_ptr_def)

lemma canary_cycle:
  assumes "length c = 8"
  shows "validate_stack_canary (plant_stack_canary c)" and "\<not> validate_stack_canary (wipe_stack_canary c)"
proof -
  show "validate_stack_canary (plant_stack_canary c)"
    using assms by (simp add: validate_stack_canary_def plant_stack_canary_def map_snd_zip)
  have "from_le_bytes (wipe_stack_canary c) = (0 :: u64)"
    using assms by (intro bit_word_eqI) (auto simp: bit_from_le_bytes wipe_stack_canary_def)
  then show "\<not> validate_stack_canary (wipe_stack_canary c)"
    by (auto simp: validate_stack_canary_def CANARY_VALUE_def)
qed

section \<open>Rounding\<close>

lemma bit_len_0 [simp]: "bit_len 0 = 0"
  by (simp add: bit_len.simps)

lemma bit_len_bounds: "0 < n \<Longrightarrow> 2 ^ (bit_len n - 1) \<le> n \<and> n < 2 ^ bit_len n \<and> 0 < bit_len n"
proof (induction n rule: bit_len.induct)
  case (1 n)
  show ?case
  proof (cases "n div 2 = 0")
    case True
    with 1 have "n = 1" by simp
    then show ?thesis by (simp add: bit_len.simps)
  next
    case False
    with 1 have "2 ^ (bit_len (n div 2) - 1) \<le> n div 2 \<and> n div 2 < 2 ^ bit_len (n div 2) \<and> 0 < bit_len (n div 2)"
      by simp
    moreover have "bit_len n = bit_len (n div 2) + 1" using 1 by (simp add: bit_len.simps [of n])
    ultimately show ?thesis by (cases "bit_len (n div 2)") auto
  qed
qed

text \<open>Rounding is never off by more than one part in \<open>2 ^ 53\<close>.\<close>

lemma round53_upper: "round53 x * 2 ^ 53 \<le> x * (2 ^ 53 + 1)"
proof (cases "bit_len x - 53 = 0")
  case True
  then show ?thesis by (simp add: round53_def Let_def)
next
  case False
  define e where "e = bit_len x - 53"
  define q where "q = x div 2 ^ e"
  define r where "r = x mod 2 ^ e"
  have x: "x = q * 2 ^ e + r" unfolding q_def r_def by (rule div_mult_mod_eq [symmetric])
  have "0 < x" using False by (cases "x = 0") simp_all
  with bit_len_bounds [of x] False have "2 ^ (e + 52) \<le> x" by (simp add: e_def)
  then have big: "2 ^ 52 * 2 ^ e \<le> x" by (simp add: power_add)
  have "round53 x = (if 2 * r > 2 ^ e \<or> 2 * r = 2 ^ e \<and> odd q then (q + 1) * 2 ^ e else q * 2 ^ e)"
    using False unfolding round53_def Let_def e_def [symmetric] q_def [symmetric] r_def [symmetric] by simp
  then have "2 * round53 x \<le> 2 * x + 2 ^ e"
    by (subst (2) x) (auto simp: algebra_simps)
  with big show ?thesis by (simp add: power_add)
qed

lemma mlock_threshold_le: "mlock_threshold limit \<le> limit"
proof -
  let ?a = "round53 limit" and ?b = "round53 (round53 limit * 7205759403792794)"
  have "?b * 2 ^ 53 \<le> ?a * 7205759403792794 * (2 ^ 53 + 1)" by (rule round53_upper)
  then have "?b * 2 ^ 53 * 2 ^ 53 \<le> ?a * 2 ^ 53 * (7205759403792794 * (2 ^ 53 + 1))" by simp
  also have "\<dots> \<le> limit * (2 ^ 53 + 1) * (7205759403792794 * (2 ^ 53 + 1))"
    using round53_upper [of limit] by (rule mult_right_mono) simp
  also have "\<dots> \<le> limit * (2 ^ 53 * 2 ^ 53 * 2 ^ 53)" by simp
  finally have "?b \<le> limit * 2 ^ 53" by simp
  then have "?b div 2 ^ 53 \<le> limit" by (metis div_le_mono nonzero_mult_div_cancel_right power_not_zero zero_neq_numeral)
  then show ?thesis by (simp add: mlock_threshold_def)
qed

section \<open>Invariants of every interleaving\<close>

definition counted :: "buffer \<Rightarrow> nat" where
  "counted b = (if lb_phase b \<in> {Live True, Wiped, Unlocked} then length (lb_buf b) else 0)"

definition counted_bytes :: "process \<Rightarrow> nat" where
  "counted_bytes st = sum_list (map counted (buffers st))"

definition count_inv :: "process \<Rightarrow> bool" where
  "count_inv st \<longleftrightarrow> usage st = of_nat (counted_bytes st)"

text \<open>Only a buffer in its owner's hands holds anything but zeros.\<close>

definition clean_inv :: "process \<Rightarrow> bool" where
  "clean_inv st \<longleftrightarrow> (\<forall>b \<in> set (buffers st). lb_phase b \<notin> range Live \<longrightarrow> lb_buf b = zeros (length (lb_buf b)))"

abbreviation own_pages :: "buffer \<Rightarrow> nat set" where
  "own_pages b \<equiv> pages (lb_base b) (length (lb_buf b))"

text \<open>The pages of buffers that hold a lock, and the buffers that are past their \<open>munlock\<close>.\<close>

definition locked_pages :: "process \<Rightarrow> nat set" where
  "locked_pages st = (\<Union>b \<in> {b \<in> set (buffers st). lb_phase b \<in> {Mlocked, Live True, Wiped}}. own_pages b)"

definition past_unlock :: "nat \<Rightarrow> process \<Rightarrow> bool" where
  "past_unlock k st \<longleftrightarrow> k < length (buffers st) \<and> lb_phase (buffers st ! k) \<in> {Unlocked, Freed}"

text \<open>The pages of buffers dropped between two states.\<close>

definition dropped_pages :: "process \<Rightarrow> process \<Rightarrow> nat set" where
  "dropped_pages st st' = (\<Union>k \<in> {k. past_unlock k st' \<and> \<not> past_unlock k st}. own_pages (buffers st' ! k))"

text \<open>Bytes in use for the budget: counted, or past the check and not yet counted.\<close>

definition in_flight :: "buffer \<Rightarrow> bool" where
  "in_flight b \<longleftrightarrow> lb_phase b \<in> {Checked, Mlocked}"

definition flights :: "process \<Rightarrow> nat" where
  "flights st = length (filter in_flight (buffers st))"

definition budget_weight :: "buffer \<Rightarrow> nat" where
  "budget_weight b = (if in_flight b then length (lb_buf b) else counted b)"

definition budget_inv :: "nat \<Rightarrow> nat \<Rightarrow> nat \<Rightarrow> process \<Rightarrow> bool" where
  "budget_inv limit N B st \<longleftrightarrow> rlimit st = Some limit \<and> list_all (\<lambda>b. length (lb_buf b) \<le> N) (buffers st) \<and>
     sum_list (map budget_weight (buffers st)) \<le> B"

lemmas step_defs = alloc_check_def do_mlock_def count_up_def fill_from_def wipe_buffer_def
  do_munlock_def count_down_def set_buffer_def Let_def

lemma step_buffers:
  shows buffers_mlock: "buffers (do_mlock K ok i st) =
      (buffers st)[i := (buffers st ! i)\<lparr>lb_phase := (if ok then Mlocked else Live False)\<rparr>]"
    and buffers_count_up: "buffers (count_up i st) = (buffers st)[i := (buffers st ! i)\<lparr>lb_phase := Live True\<rparr>]"
    and buffers_fill: "buffers (snd (fill_from i src st)) = (buffers st)[i := (buffers st ! i)
      \<lparr>lb_buf := (if length src = length (lb_buf (buffers st ! i)) then src else lb_buf (buffers st ! i))\<rparr>]"
    and buffers_wipe: "buffers (wipe_buffer i st) = (buffers st)[i := (buffers st ! i)
      \<lparr>lb_buf := zeros (length (lb_buf (buffers st ! i))),
       lb_phase := (if lb_phase (buffers st ! i) = Live True then Wiped else Freed)\<rparr>]"
    and buffers_munlock: "buffers (do_munlock K i st) = (buffers st)[i := (buffers st ! i)\<lparr>lb_phase := Unlocked\<rparr>]"
    and buffers_count_down: "buffers (count_down i st) = (buffers st)[i := (buffers st ! i)\<lparr>lb_phase := Freed\<rparr>]"
  by (simp_all add: step_defs)

lemma step_usage:
  "usage (do_mlock K ok i st) = usage st" "usage (snd (fill_from i src st)) = usage st"
  "usage (wipe_buffer i st) = usage st" "usage (do_munlock K i st) = usage st"
  "usage (count_up i st) = usage st + of_nat (length (lb_buf (buffers st ! i)))"
  "usage (count_down i st) = usage st - of_nat (length (lb_buf (buffers st ! i)))"
  by (simp_all add: step_defs)

lemma step_pinned:
  "pinned (snd (fill_from i src st)) = pinned st" "pinned (wipe_buffer i st) = pinned st"
  "pinned (count_up i st) = pinned st" "pinned (count_down i st) = pinned st"
  "pinned (do_munlock K i st) = k_munlock K (lb_base (buffers st ! i)) (length (lb_buf (buffers st ! i))) (pinned st)"
  "pinned (do_mlock K ok i st) =
     (if ok then k_mlock K (lb_base (buffers st ! i)) (length (lb_buf (buffers st ! i))) (pinned st) else pinned st)"
  by (simp_all add: step_defs)

lemma count_inv_set:
  assumes inv: "count_inv st" and i: "i < length (buffers st)"
    and st': "buffers st' = (buffers st)[i := b]"
    and use: "usage st' + of_nat (counted (buffers st ! i)) = usage st + of_nat (counted b)"
  shows "count_inv st'"
proof -
  have "counted (buffers st ! i) \<le> sum_list (map counted (buffers st))"
    using i member_le_sum_list [of "counted (buffers st ! i)" "map counted (buffers st)"] by force
  then have "counted_bytes st' + counted (buffers st ! i) = counted_bytes st + counted b"
    using i by (simp add: counted_bytes_def st' map_update sum_list_update)
  then have "of_nat (counted_bytes st') + of_nat (counted (buffers st ! i)) = (usage st + of_nat (counted b) :: u64)"
    using inv by (metis count_inv_def of_nat_add)
  then have "usage st' = of_nat (counted_bytes st')" using use by (metis add_right_cancel)
  then show ?thesis by (simp add: count_inv_def)
qed

lemma count_inv_step: "step K al st st' \<Longrightarrow> count_inv st \<Longrightarrow> count_inv st'"
proof (induction rule: step.induct)
  case (alloc st addr n)
  then show ?case by (simp add: count_inv_def counted_bytes_def alloc_check_def counted_def)
next
  case (mlock i st ok)
  then show ?case
    by (auto simp: step_usage counted_def intro!: count_inv_set [OF _ _ buffers_mlock])
next
  case (count i st)
  then show ?case
    by (auto simp: step_usage counted_def intro!: count_inv_set [OF _ _ buffers_count_up])
next
  case (fill i st l src)
  then show ?case
    by (auto simp: step_usage counted_def intro!: count_inv_set [OF _ _ buffers_fill])
next
  case (wipe i st l)
  then show ?case
    by (auto simp: step_usage counted_def intro!: count_inv_set [OF _ _ buffers_wipe])
next
  case (munlock i st)
  then show ?case
    by (auto simp: step_usage counted_def intro!: count_inv_set [OF _ _ buffers_munlock])
next
  case (uncount i st)
  then show ?case
    by (auto simp: step_usage counted_def intro!: count_inv_set [OF _ _ buffers_count_down])
qed

lemma clean_inv_set:
  "clean_inv st \<Longrightarrow> i < length (buffers st) \<Longrightarrow> buffers st' = (buffers st)[i := b] \<Longrightarrow>
     lb_phase b \<in> range Live \<or> lb_buf b = zeros (length (lb_buf b)) \<Longrightarrow> clean_inv st'"
  by (auto simp: clean_inv_def dest!: set_update_subset_insert [THEN subsetD])

lemma clean_inv_nth:
  "clean_inv st \<Longrightarrow> i < length (buffers st) \<Longrightarrow> lb_phase (buffers st ! i) \<notin> range Live \<Longrightarrow>
     lb_buf (buffers st ! i) = zeros (length (lb_buf (buffers st ! i)))"
  by (simp add: clean_inv_def)

lemma clean_inv_step: "step K al st st' \<Longrightarrow> clean_inv st \<Longrightarrow> clean_inv st'"
proof (induction rule: step.induct)
  case (alloc st addr n)
  then show ?case by (auto simp: clean_inv_def alloc_check_def)
next
  case (mlock i st ok)
  with clean_inv_nth [of st i] show ?case
    by (auto simp: image_def intro!: clean_inv_set [OF _ _ buffers_mlock])
next
  case (count i st)
  with clean_inv_nth [of st i] show ?case
    by (auto simp: image_def intro!: clean_inv_set [OF _ _ buffers_count_up])
next
  case (fill i st l src)
  with clean_inv_nth [of st i] show ?case
    by (auto simp: image_def intro!: clean_inv_set [OF _ _ buffers_fill])
next
  case (wipe i st l)
  with clean_inv_nth [of st i] show ?case
    by (auto simp: image_def intro!: clean_inv_set [OF _ _ buffers_wipe])
next
  case (munlock i st)
  with clean_inv_nth [of st i] show ?case
    by (auto simp: image_def intro!: clean_inv_set [OF _ _ buffers_munlock])
next
  case (uncount i st)
  with clean_inv_nth [of st i] show ?case
    by (auto simp: image_def intro!: clean_inv_set [OF _ _ buffers_count_down])
qed

section \<open>What stays pinned\<close>

text \<open>
  From one state to a later one, existing buffers keep their address range, a buffer that is
  past its \<open>munlock\<close> stays so, and a page is released only by the drop of a buffer on it.
\<close>

definition evolves :: "process \<Rightarrow> process \<Rightarrow> bool" where
  "evolves st st' \<longleftrightarrow> length (buffers st) \<le> length (buffers st') \<and>
     (\<forall>k < length (buffers st). own_pages (buffers st' ! k) = own_pages (buffers st ! k) \<and>
        (past_unlock k st \<longrightarrow> past_unlock k st')) \<and>
     pinned st \<subseteq> pinned st' \<union> dropped_pages st st'"

lemma evolves_refl: "evolves st st"
  by (simp add: evolves_def)

lemma evolves_past: "evolves st st' \<Longrightarrow> past_unlock k st \<Longrightarrow> past_unlock k st'"
  unfolding evolves_def past_unlock_def by blast

lemma evolves_own: "evolves st st' \<Longrightarrow> past_unlock k st \<Longrightarrow> own_pages (buffers st' ! k) = own_pages (buffers st ! k)"
  unfolding evolves_def past_unlock_def by blast

lemma evolves_trans:
  assumes "evolves st st'" and "evolves st' st''"
  shows "evolves st st''"
proof -
  have "dropped_pages st st' \<subseteq> dropped_pages st st''"
    using evolves_past [OF assms(2)] evolves_own [OF assms(2)] by (fastforce simp: dropped_pages_def)
  moreover have "dropped_pages st' st'' \<subseteq> dropped_pages st st''"
    using evolves_past [OF assms(1)] by (fastforce simp: dropped_pages_def)
  moreover have "pinned st \<subseteq> pinned st' \<union> dropped_pages st st'" "pinned st' \<subseteq> pinned st'' \<union> dropped_pages st' st''"
    using assms by (simp_all add: evolves_def)
  ultimately have "pinned st \<subseteq> pinned st'' \<union> dropped_pages st st''" by blast
  moreover have "own_pages (buffers st'' ! k) = own_pages (buffers st ! k)" if "k < length (buffers st)" for k
  proof -
    have "k < length (buffers st')" using that assms(1) by (simp add: evolves_def)
    with that assms show ?thesis by (simp add: evolves_def)
  qed
  moreover have "past_unlock k st''" if "past_unlock k st" for k
    using that evolves_past [OF assms(1)] evolves_past [OF assms(2)] by blast
  moreover have "length (buffers st) \<le> length (buffers st'')" using assms by (simp add: evolves_def)
  ultimately show ?thesis by (simp add: evolves_def)
qed

lemma evolves_set:
  assumes i: "i < length (buffers st)" and st': "buffers st' = (buffers st)[i := b]"
    and same: "own_pages b = own_pages (buffers st ! i)"
    and past: "lb_phase (buffers st ! i) \<in> {Unlocked, Freed} \<Longrightarrow> lb_phase b \<in> {Unlocked, Freed}"
    and kept: "pinned st \<subseteq> pinned st' \<or>
      pinned st \<subseteq> pinned st' \<union> own_pages b \<and> lb_phase b \<in> {Unlocked, Freed} \<and> lb_phase (buffers st ! i) \<notin> {Unlocked, Freed}"
  shows "evolves st st'"
proof -
  have "own_pages b \<subseteq> dropped_pages st st'"
    if "lb_phase b \<in> {Unlocked, Freed}" "lb_phase (buffers st ! i) \<notin> {Unlocked, Freed}"
    using i that by (auto simp: dropped_pages_def past_unlock_def st' intro!: exI [of _ i])
  with kept have "pinned st \<subseteq> pinned st' \<union> dropped_pages st st'" by blast
  moreover have "own_pages (buffers st' ! k) = own_pages (buffers st ! k) \<and> (past_unlock k st \<longrightarrow> past_unlock k st')"
    if "k < length (buffers st)" for k
    using i same past that by (cases "k = i") (auto simp: st' past_unlock_def)
  ultimately show ?thesis by (simp add: evolves_def st')
qed

lemma evolves_step:
  assumes K: "posix_locking K"
  shows "step K al st st' \<Longrightarrow> evolves st st'"
proof (induction rule: step.induct)
  case (alloc st addr n)
  then show ?case by (auto simp: evolves_def alloc_check_def nth_append past_unlock_def)
next
  case (mlock i st ok)
  with K show ?case
    by (cases ok) (auto simp: step_pinned posix_locking_def intro!: evolves_set [OF _ buffers_mlock])
next
  case (count i st)
  then show ?case by (auto simp: step_pinned intro!: evolves_set [OF _ buffers_count_up])
next
  case (fill i st l src)
  then show ?case by (auto simp: step_pinned split: if_splits intro!: evolves_set [OF _ buffers_fill])
next
  case (wipe i st l)
  then show ?case by (auto simp: step_pinned intro!: evolves_set [OF _ buffers_wipe])
next
  case (munlock i st)
  with K show ?case
    by (auto simp: step_pinned posix_locking_def intro!: evolves_set [OF _ buffers_munlock])
next
  case (uncount i st)
  then show ?case by (auto simp: step_pinned intro!: evolves_set [OF _ buffers_count_down])
qed

lemma reaches_evolves:
  assumes "posix_locking K" and "reaches K al st st'"
  shows "evolves st st'"
  using assms(2)
proof (induction rule: rtranclp_induct)
  case base
  show ?case by (rule evolves_refl)
next
  case (step st' st'')
  then show ?case using evolves_step [OF assms(1)] evolves_trans by blast
qed

text \<open>The other direction: no page is pinned that a buffer does not hold.\<close>

lemma locked_pages_set:
  assumes inv: "pinned st \<subseteq> locked_pages st" and i: "i < length (buffers st)"
    and st': "buffers st' = (buffers st)[i := b]"
    and hold: "lb_phase b \<in> {Mlocked, Live True, Wiped} \<and> pinned st' \<subseteq> pinned st \<union> own_pages b \<and>
        own_pages b = own_pages (buffers st ! i) \<or>
      lb_phase (buffers st ! i) \<notin> {Mlocked, Live True, Wiped} \<and> pinned st' \<subseteq> pinned st \<or>
      pinned st' \<subseteq> pinned st - own_pages (buffers st ! i)"
  shows "pinned st' \<subseteq> locked_pages st'"
proof
  fix p assume p: "p \<in> pinned st'"
  have b: "b \<in> set (buffers st')" using i by (simp add: st' set_update_memI)
  consider "lb_phase b \<in> {Mlocked, Live True, Wiped}" "p \<in> own_pages b"
    | "p \<in> pinned st" "p \<in> own_pages (buffers st ! i) \<longrightarrow> lb_phase (buffers st ! i) \<in> {Mlocked, Live True, Wiped} \<longrightarrow>
        lb_phase b \<in> {Mlocked, Live True, Wiped} \<and> p \<in> own_pages b"
    using hold p by blast
  then show "p \<in> locked_pages st'"
  proof cases
    case 1
    with b show ?thesis by (auto simp: locked_pages_def)
  next
    case 2
    with inv obtain k where k: "k < length (buffers st)" "lb_phase (buffers st ! k) \<in> {Mlocked, Live True, Wiped}"
      "p \<in> own_pages (buffers st ! k)"
      by (auto simp: locked_pages_def in_set_conv_nth)
    show ?thesis
    proof (cases "k = i")
      case True
      with 2 k b show ?thesis by (auto simp: locked_pages_def)
    next
      case False
      with k have "buffers st ! k \<in> set (buffers st')" unfolding st' by (metis length_list_update nth_list_update_neq nth_mem)
      with k show ?thesis by (auto simp: locked_pages_def)
    qed
  qed
qed

lemma locked_pages_step:
  assumes K: "posix_locking K"
  shows "step K al st st' \<Longrightarrow> pinned st \<subseteq> locked_pages st \<Longrightarrow> pinned st' \<subseteq> locked_pages st'"
proof (induction rule: step.induct)
  case (alloc st addr n)
  then show ?case by (auto simp: locked_pages_def alloc_check_def)
next
  case (mlock i st ok)
  with K show ?case
    by (intro locked_pages_set [OF _ _ buffers_mlock]) (auto simp: step_pinned posix_locking_def)
next
  case (count i st)
  then show ?case by (intro locked_pages_set [OF _ _ buffers_count_up]) (auto simp: step_pinned)
next
  case (fill i st l src)
  then show ?case by (cases l) (intro locked_pages_set [OF _ _ buffers_fill]; auto simp: step_pinned)+
next
  case (wipe i st l)
  then show ?case by (cases l) (intro locked_pages_set [OF _ _ buffers_wipe]; auto simp: step_pinned)+
next
  case (munlock i st)
  with K show ?case
    by (intro locked_pages_set [OF _ _ buffers_munlock]) (auto simp: step_pinned posix_locking_def)
next
  case (uncount i st)
  then show ?case by (intro locked_pages_set [OF _ _ buffers_count_down]) (auto simp: step_pinned)
qed

lemma reaches_locked_pages:
  assumes "posix_locking K" and "reaches K al (process_start limit) st"
  shows "pinned st \<subseteq> locked_pages st"
  using assms(2)
proof (induction rule: rtranclp_induct)
  case base
  show ?case by (simp add: process_start_def)
next
  case (step st st')
  then show ?case using locked_pages_step [OF assms(1)] by blast
qed

section \<open>How far the budget can be overrun\<close>

lemma budget_inv_set:
  assumes inv: "budget_inv limit N B st" and i: "i < length (buffers st)"
    and st': "buffers st' = (buffers st)[i := b]" "rlimit st' = rlimit st"
    and b: "length (lb_buf b) = length (lb_buf (buffers st ! i))" "budget_weight b \<le> budget_weight (buffers st ! i)"
  shows "budget_inv limit N B st'"
proof -
  let ?w = "map budget_weight (buffers st)"
  have "budget_weight (buffers st ! i) \<le> sum_list ?w"
    using i member_le_sum_list [of "budget_weight (buffers st ! i)" ?w] by force
  then have "sum_list (?w[i := budget_weight b]) \<le> sum_list ?w"
    using i b(2) by (simp add: sum_list_update)
  moreover have "length (lb_buf b) \<le> N"
    using inv i b(1) by (simp add: budget_inv_def list_all_length)
  ultimately show ?thesis
    using inv i by (auto simp: budget_inv_def st' map_update list_all_length nth_list_update)
qed

text \<open>The check reads the counter: what was counted then is below the threshold, and what is
  in flight is bounded by the number of allocations in flight.\<close>

lemma in_flight_bytes:
  "list_all (\<lambda>b. length (lb_buf b) \<le> N) bs \<Longrightarrow>
     sum_list (map budget_weight bs) \<le> sum_list (map counted bs) + length (filter in_flight bs) * N"
  by (induction bs) (auto simp: budget_weight_def in_flight_def counted_def)

lemma counted_le_weight: "sum_list (map counted bs) \<le> sum_list (map budget_weight bs)"
  by (rule sum_list_mono) (auto simp: budget_weight_def in_flight_def counted_def)

lemma budget_inv_alloc:
  assumes inv: "budget_inv limit N (mlock_threshold limit + k * N) st" and "count_inv st" and "n \<le> N"
    and flights: "flights (alloc_check addr n st) \<le> k" and bound: "mlock_threshold limit + k * N < 2 ^ 64"
  shows "budget_inv limit N (mlock_threshold limit + k * N) (alloc_check addr n st)"
proof (cases "is_approaching_mlock_limit st")
  case True
  with inv assms(3) show ?thesis
    by (simp add: budget_inv_def alloc_check_def budget_weight_def in_flight_def counted_def)
next
  case False
  have "counted_bytes st < 2 ^ 64"
    using inv bound counted_le_weight [of "buffers st"] by (simp add: budget_inv_def counted_bytes_def)
  then have "unat (usage st) = counted_bytes st"
    using assms(2) by (simp add: count_inv_def unat_of_nat take_bit_nat_eq_self)
  with False inv have "counted_bytes st \<le> mlock_threshold limit"
    by (simp add: is_approaching_mlock_limit_def budget_inv_def get_locked_memory_usage_def)
  moreover let ?bs = "buffers (alloc_check addr n st)"
  have sizes: "list_all (\<lambda>b. length (lb_buf b) \<le> N) ?bs"
    using inv assms(3) by (simp add: budget_inv_def alloc_check_def)
  have "sum_list (map counted ?bs) = counted_bytes st"
    using False by (simp add: alloc_check_def counted_bytes_def counted_def)
  moreover have "length (filter in_flight ?bs) * N \<le> k * N"
    using mult_le_mono1 [OF flights, of N] by (simp only: flights_def)
  ultimately have "sum_list (map budget_weight ?bs) \<le> mlock_threshold limit + k * N"
    using in_flight_bytes [OF sizes] by linarith
  then show ?thesis
    using inv sizes by (simp add: budget_inv_def) (simp add: alloc_check_def)
qed

lemma step_rlimit:
  "rlimit (do_mlock K ok i st) = rlimit st" "rlimit (count_up i st) = rlimit st"
  "rlimit (snd (fill_from i src st)) = rlimit st" "rlimit (wipe_buffer i st) = rlimit st"
  "rlimit (do_munlock K i st) = rlimit st" "rlimit (count_down i st) = rlimit st"
  by (simp_all add: step_defs)

lemmas budget_weights = budget_weight_def in_flight_def counted_def

lemma budget_inv_step:
  assumes "step K (\<lambda>_ _ n. n \<le> N) st st'" and "flights st' \<le> k" and "mlock_threshold limit + k * N < 2 ^ 64"
    and "count_inv st" and "budget_inv limit N (mlock_threshold limit + k * N) st"
  shows "budget_inv limit N (mlock_threshold limit + k * N) st'"
  using assms
proof (induction rule: step.induct)
  case (alloc st addr n)
  then show ?case by (intro budget_inv_alloc)
next
  case (mlock i st ok)
  then show ?case
    by (intro budget_inv_set [OF _ _ buffers_mlock step_rlimit(1)]) (auto simp: budget_weights)
next
  case (count i st)
  then show ?case
    by (intro budget_inv_set [OF _ _ buffers_count_up step_rlimit(2)]) (auto simp: budget_weights)
next
  case (fill i st l src)
  then show ?case
    by (intro budget_inv_set [OF _ _ buffers_fill step_rlimit(3)]) (auto simp: budget_weights)
next
  case (wipe i st l)
  then show ?case
    by (intro budget_inv_set [OF _ _ buffers_wipe step_rlimit(4)]) (auto simp: budget_weights)
next
  case (munlock i st)
  then show ?case
    by (intro budget_inv_set [OF _ _ buffers_munlock step_rlimit(5)]) (auto simp: budget_weights)
next
  case (uncount i st)
  then show ?case
    by (intro budget_inv_set [OF _ _ buffers_count_down step_rlimit(6)]) (auto simp: budget_weights)
qed

text \<open>Runs in which at most \<open>k\<close> allocations of at most \<open>N\<close> bytes are in flight at any moment.\<close>

abbreviation reaches_within :: "kernel \<Rightarrow> nat \<Rightarrow> nat \<Rightarrow> process \<Rightarrow> process \<Rightarrow> bool" where
  "reaches_within K N k \<equiv> (\<lambda>st st'. step K (\<lambda>_ _ n. n \<le> N) st st' \<and> flights st' \<le> k)\<^sup>*\<^sup>*"

lemma reaches_within_inv:
  assumes "reaches_within K N k (process_start (Some limit)) st" and "mlock_threshold limit + k * N < 2 ^ 64"
  shows "count_inv st \<and> budget_inv limit N (mlock_threshold limit + k * N) st"
  using assms(1)
proof (induction rule: rtranclp_induct)
  case base
  show ?case by (simp add: process_start_def count_inv_def counted_bytes_def budget_inv_def)
next
  case (step st st')
  then show ?case using count_inv_step budget_inv_step [OF _ _ assms(2)] by blast
qed

section \<open>What every interleaving keeps\<close>

lemma reaches_inv:
  assumes "reaches K al (process_start limit) st"
  shows "count_inv st \<and> clean_inv st"
  using assms
proof (induction rule: rtranclp_induct)
  case base
  show ?case by (simp add: process_start_def count_inv_def counted_bytes_def clean_inv_def)
next
  case (step st st')
  then show ?case using count_inv_step clean_inv_step by blast
qed

section \<open>The sequential operations\<close>

lemma posix_kernel_ok: "posix_locking posix_kernel"
  by (simp add: posix_locking_def posix_kernel_def)

lemma locked_new_run:
  assumes "al st addr n"
  shows "reaches K al st (snd (locked_new K ok addr n st))"
proof -
  let ?i = "length (buffers st)" and ?a = "alloc_check addr n st"
  have alloc: "step K al st ?a" using assms by (rule step.alloc)
  have i: "?i < length (buffers ?a)" by (simp add: alloc_check_def)
  show ?thesis
  proof (cases "lb_phase (buffers ?a ! ?i) = Checked")
    case True
    let ?m = "do_mlock K ok ?i ?a"
    have m: "step K al ?a ?m" using i True by (rule step.mlock)
    have "step K al ?m (count_up ?i ?m)" if ok
      using i that by (intro step.count) (simp_all add: buffers_mlock)
    with alloc m True show ?thesis
      by (auto simp: locked_new_def Let_def intro: rtranclp.rtrancl_into_rtrancl r_into_rtranclp)
  next
    case False
    with alloc show ?thesis by (auto simp: locked_new_def Let_def)
  qed
qed

lemma locked_drop_run:
  assumes "i < length (buffers st)" and "lb_phase (buffers st ! i) = Live l"
  shows "reaches K al st (locked_drop K i st)"
proof -
  let ?w = "wipe_buffer i st"
  have w: "step K al st ?w" using assms by (rule step.wipe)
  show ?thesis
  proof (cases l)
    case True
    have u: "step K al ?w (do_munlock K i ?w)"
      using assms True by (intro step.munlock) (simp_all add: buffers_wipe)
    have "step K al (do_munlock K i ?w) (count_down i (do_munlock K i ?w))"
      using assms by (intro step.uncount) (simp_all add: buffers_munlock buffers_wipe)
    with w u True assms show ?thesis
      by (auto simp: locked_drop_def Let_def is_locked_def intro: rtranclp.rtrancl_into_rtrancl r_into_rtranclp)
  next
    case False
    with w assms show ?thesis by (auto simp: locked_drop_def Let_def is_locked_def)
  qed
qed

lemma locked_new_eq:
  assumes "rlimit st = Some limit"
  shows "locked_new K ok addr n st =
    (let lockable = (unat (usage st) \<le> mlock_threshold limit); pin = (ok \<and> lockable)
     in (length (buffers st),
         st\<lparr>usage := usage st + (if pin then of_nat n else 0),
            pinned := (if pin then k_mlock K addr n (pinned st) else pinned st),
            buffers := buffers st @ [\<lparr>lb_base = addr, lb_buf = zeros n, lb_phase = Live pin\<rparr>]\<rparr>))"
  using assms
  by (auto simp: locked_new_def Let_def step_defs is_approaching_mlock_limit_def
      get_locked_memory_usage_def nth_append)

section \<open>Properties\<close>

text \<open>C7. The budget counter and the contents, under every interleaving of any number of threads and
  whatever the kernel and the allocator do: the global counter is the total size of the
  buffers whose \<open>mlock\<close> succeeded and that are not yet fully dropped, and a buffer that is
  still being set up, or has been wiped, unpinned or freed, holds only zeros.\<close>

theorem memlock_counter_exact:
  assumes "reaches K al (process_start limit) st"
  shows "usage st = of_nat (counted_bytes st) \<and>
    list_all (\<lambda>b. lb_phase b \<in> {Live False, Live True} \<or> lb_buf b = zeros (length (lb_buf b))) (buffers st)"
  using reaches_inv [OF assms] by (auto simp: count_inv_def clean_inv_def list_all_iff)

theorem memlock_counter_exact_witness:
  "usage (snd (locked_new posix_kernel True 0 64 (process_start None))) = 64"
proof -
  have "reaches posix_kernel (\<lambda>_ _ _. True) (process_start None) (snd (locked_new posix_kernel True 0 64 (process_start None)))"
    by (rule locked_new_run) simp
  from memlock_counter_exact [OF this] show ?thesis
    by (simp add: locked_new_def Let_def step_defs process_start_def is_approaching_mlock_limit_def
        counted_bytes_def counted_def)
qed

text \<open>C19. Secrets stay in RAM until a buffer on the same page is dropped, for any allocator: once
  \<open>mlock\<close> has succeeded for a buffer, then in every later state of every interleaving each
  of its pages is pinned, unless some buffer on that page has been dropped since, which is
  another buffer as long as this one is in its owner's hands. And nothing stays pinned
  needlessly: every pinned page belongs to a buffer that still holds its lock. The kernel
  is POSIX's: \<open>munlock\<close> releases whole pages.\<close>

theorem memlock_pages_pinned:
  assumes "posix_locking K" and "reaches K al (process_start limit) st"
    and "i < length (buffers st)" and "lb_phase (buffers st ! i) = Checked"
    and "reaches K al (do_mlock K True i st) st'"
  shows "own_pages (buffers st' ! i) \<subseteq> pinned st' \<union> dropped_pages st st' \<and>
    (past_unlock i st' \<or> dropped_pages st st' =
       (\<Union>k \<in> {k. k \<noteq> i \<and> past_unlock k st' \<and> \<not> past_unlock k st}. own_pages (buffers st' ! k))) \<and>
    pinned st' \<subseteq> locked_pages st'"
proof -
  let ?m = "do_mlock K True i st"
  have m: "step K al st ?m" using assms(3,4) by (rule step.mlock)
  have ev: "evolves ?m st'" and ev0: "evolves st ?m"
    using assms(1,5) m reaches_evolves evolves_step by blast+
  have "own_pages (buffers st' ! i) = own_pages (buffers ?m ! i)"
    using ev assms(3) by (simp add: evolves_def buffers_mlock)
  also have "\<dots> \<subseteq> pinned ?m"
    using assms(1,3) by (simp add: buffers_mlock step_pinned posix_locking_def)
  also have "\<dots> \<subseteq> pinned st' \<union> dropped_pages ?m st'" using ev by (simp add: evolves_def)
  also have "dropped_pages ?m st' \<subseteq> dropped_pages st st'"
    using evolves_past [OF ev0] by (fastforce simp: dropped_pages_def)
  finally have "own_pages (buffers st' ! i) \<subseteq> pinned st' \<union> dropped_pages st st'" by auto
  moreover have "past_unlock i st' \<or> dropped_pages st st' =
      (\<Union>k \<in> {k. k \<noteq> i \<and> past_unlock k st' \<and> \<not> past_unlock k st}. own_pages (buffers st' ! k))"
    unfolding dropped_pages_def by blast
  moreover have "reaches K al (process_start limit) st'"
    using assms(2,5) m by (meson converse_rtranclp_into_rtranclp rtranclp_trans)
  ultimately show ?thesis using reaches_locked_pages [OF assms(1)] by blast
qed

theorem memlock_pages_pinned_witness:
  "let st = snd (locked_new posix_kernel True 0 64 (process_start None));
       st1 = alloc_check 64 64 st; st' = locked_drop posix_kernel 0 (count_up 1 (do_mlock posix_kernel True 1 st1))
   in is_locked 1 st' \<and> own_pages (buffers st' ! 1) \<subseteq> pinned st' \<union> own_pages (buffers st' ! 0) \<and> pinned st' \<subseteq> {0}"
proof -
  let ?K = posix_kernel and ?al = "\<lambda>_ _ _. True"
  define st where "st = snd (locked_new ?K True 0 64 (process_start None))"
  define st1 where "st1 = alloc_check 64 64 st"
  define m where "m = do_mlock ?K True 1 st1"
  define st' where "st' = locked_drop ?K 0 (count_up 1 m)"
  let ?buf = "\<lambda>addr ph. \<lparr>lb_base = addr, lb_buf = zeros 64, lb_phase = ph\<rparr>"
  have b1: "buffers st1 = [?buf 0 (Live True), ?buf 64 Checked]"
    by (simp add: st1_def st_def locked_new_def Let_def step_defs process_start_def is_approaching_mlock_limit_def)
  then have m: "buffers m = [?buf 0 (Live True), ?buf 64 Mlocked]" by (simp add: m_def step_buffers)
  then have b': "buffers st' = [?buf 0 Freed, ?buf 64 (Live True)]"
    by (simp add: st'_def locked_drop_def is_locked_def Let_def step_buffers)
  have "reaches ?K ?al (process_start None) st" unfolding st_def by (rule locked_new_run) simp
  also have "step ?K ?al st st1" unfolding st1_def by (rule step.alloc) simp
  finally have r: "reaches ?K ?al (process_start None) st1" .
  have "step ?K ?al m (count_up 1 m)" by (rule step.count) (simp_all add: m)
  moreover have "reaches ?K ?al (count_up 1 m) st'"
    unfolding st'_def by (rule locked_drop_run) (simp_all add: step_buffers m)
  ultimately have "reaches ?K ?al (do_mlock ?K True 1 st1) st'"
    unfolding m_def [symmetric] by (rule converse_rtranclp_into_rtranclp)
  from memlock_pages_pinned [OF posix_kernel_ok r _ _ this]
  have main: "own_pages (buffers st' ! 1) \<subseteq> pinned st' \<union> dropped_pages st1 st'" "pinned st' \<subseteq> locked_pages st'"
    by (simp_all add: b1)
  have "{k. past_unlock k st' \<and> \<not> past_unlock k st1} = {0}"
    by (auto simp: past_unlock_def b1 b' less_Suc_eq)
  then have "dropped_pages st1 st' = own_pages (buffers st' ! 0)" by (simp add: dropped_pages_def)
  moreover have "locked_pages st' \<subseteq> pages 64 64" by (auto simp: locked_pages_def b')
  moreover have "pages 64 64 \<subseteq> {0}" by (auto simp: pages_def)
  moreover have "is_locked 1 st'" by (simp add: is_locked_def b')
  ultimately have "is_locked 1 st' \<and> own_pages (buffers st' ! 1) \<subseteq> pinned st' \<union> own_pages (buffers st' ! 0) \<and> pinned st' \<subseteq> {0}"
    using main by auto
  then show ?thesis unfolding st'_def m_def st1_def st_def Let_def .
qed

text \<open>Page sharing breaks the promise of \<open>is_locked\<close>: locks do not nest, so dropping one locked
  buffer releases every page it touches, and any other locked buffer with bytes on such
  a page still reports itself locked although that page may now be swapped out.\<close>

theorem locked_drop_unpins_neighbour:
  assumes "posix_locking K" and "i < length (buffers st)" and "j < length (buffers st)" and "i \<noteq> j"
    and "is_locked i st" and "is_locked j st"
    and "p \<in> pages (lb_base (buffers st ! i)) (length (lb_buf (buffers st ! i)))"
    and "p \<in> pages (lb_base (buffers st ! j)) (length (lb_buf (buffers st ! j)))"
  shows "is_locked j (locked_drop K i st) \<and> buffers (locked_drop K i st) ! j = buffers st ! j \<and>
    p \<notin> pinned (locked_drop K i st)"
  using assms
  by (simp add: locked_drop_def is_locked_def Let_def step_buffers step_pinned posix_locking_def)

theorem locked_drop_unpins_neighbour_witness:
  "let st1 = snd (locked_new posix_kernel True 0 64 (process_start None));
       st2 = snd (locked_new posix_kernel True 64 64 st1)
   in bytes_apart st1 64 64 \<and> is_locked 1 (locked_drop posix_kernel 0 st2) \<and>
      0 \<notin> pinned (locked_drop posix_kernel 0 st2)"
proof -
  let ?st1 = "snd (locked_new posix_kernel True 0 64 (process_start None))"
  let ?st2 = "snd (locked_new posix_kernel True 64 64 ?st1)"
  have 1: "?st1 = \<lparr>usage = 64, rlimit = None, pinned = pages 0 64,
      buffers = [\<lparr>lb_base = 0, lb_buf = zeros 64, lb_phase = Live True\<rparr>]\<rparr>"
    by (simp add: locked_new_def Let_def step_defs process_start_def is_approaching_mlock_limit_def posix_kernel_def)
  have 2: "buffers ?st2 = [\<lparr>lb_base = 0, lb_buf = zeros 64, lb_phase = Live True\<rparr>, \<lparr>lb_base = 64, lb_buf = zeros 64, lb_phase = Live True\<rparr>]"
    unfolding 1 by (simp add: locked_new_def Let_def step_defs is_approaching_mlock_limit_def)
  have "0 \<in> pages 0 64" "0 \<in> pages 64 64" by (simp_all add: pages_def)
  then have "is_locked 1 (locked_drop posix_kernel 0 ?st2) \<and> 0 \<notin> pinned (locked_drop posix_kernel 0 ?st2)"
    using locked_drop_unpins_neighbour [OF posix_kernel_ok, of 0 ?st2 1 0] 2 by (simp add: is_locked_def)
  moreover have "bytes_apart ?st1 64 64" unfolding 1 by (simp add: bytes_apart_def)
  ultimately show ?thesis by (simp add: Let_def)
qed

text \<open>C20. How far the lock budget can be overrun: the check of \<open>new\<close> and the count are two steps, so
  several threads can pass the check on the same counter value. If at most \<open>k\<close> allocations,
  of at most \<open>N\<close> bytes each, are past the check and not yet counted at any moment, then in
  every interleaving with creations and drops the counter never exceeds the threshold
  \<open>0.8 * limit\<close> (as the floats compute it, never above the limit) by more than \<open>k * N\<close>,
  and it never wraps.\<close>

theorem budget_overrun_bounded:
  assumes "reaches_within K N k (process_start (Some limit)) st" and "mlock_threshold limit + k * N < 2 ^ 64"
  shows "get_locked_memory_usage st = counted_bytes st \<and>
    get_locked_memory_usage st \<le> mlock_threshold limit + k * N \<and> mlock_threshold limit \<le> limit"
proof -
  from reaches_within_inv [OF assms] have "count_inv st" and "budget_inv limit N (mlock_threshold limit + k * N) st"
    by simp_all
  then have c: "counted_bytes st \<le> mlock_threshold limit + k * N"
    using counted_le_weight [of "buffers st"] by (simp add: budget_inv_def counted_bytes_def)
  with assms(2) \<open>count_inv st\<close> have "get_locked_memory_usage st = counted_bytes st"
    by (simp add: get_locked_memory_usage_def count_inv_def unat_of_nat take_bit_nat_eq_self)
  with c show ?thesis by (simp add: mlock_threshold_le)
qed

text \<open>Two threads that pass the check together: under a limit of 100 bytes, whose threshold is
  80, three buffers of 64 bytes are counted, 192 bytes, below the bound of 208.\<close>

definition race :: process where
  "race =
     (let st = count_up 0 (do_mlock posix_kernel True 0 (alloc_check 0 64 (process_start (Some 100))));
          st = alloc_check 128 64 (alloc_check 64 64 st)
      in count_up 2 (do_mlock posix_kernel True 2 (count_up 1 (do_mlock posix_kernel True 1 st))))"

lemma threshold_100: "mlock_threshold 100 = 80"
  by (simp add: mlock_threshold_def round53_def bit_len.simps Let_def)

lemma race_steps:
  "reaches_within posix_kernel 64 2 (process_start (Some 100)) race" "get_locked_memory_usage race = 192"
proof -
  let ?K = posix_kernel and ?s = "process_start (Some 100)"
  let ?buf = "\<lambda>addr ph. \<lparr>lb_base = addr, lb_buf = zeros 64, lb_phase = ph\<rparr>"
  define a where "a = alloc_check 0 64 ?s"
  define b where "b = do_mlock ?K True 0 a"
  define c where "c = count_up 0 b"
  define d where "d = alloc_check 64 64 c"
  define e where "e = alloc_check 128 64 d"
  define f where "f = do_mlock ?K True 1 e"
  define g where "g = count_up 1 f"
  define h where "h = do_mlock ?K True 2 g"
  have race: "race = count_up 2 h"
    by (simp add: race_def a_def b_def c_def d_def e_def f_def g_def h_def Let_def)
  have a: "buffers a = [?buf 0 Checked]" "usage a = 0" "rlimit a = Some 100"
    by (simp_all add: a_def alloc_check_def process_start_def is_approaching_mlock_limit_def get_locked_memory_usage_def)
  have b: "buffers b = [?buf 0 Mlocked]" "usage b = 0" "rlimit b = Some 100"
    by (simp_all add: b_def step_buffers step_usage step_rlimit a)
  have c: "buffers c = [?buf 0 (Live True)]" "usage c = 64" "rlimit c = Some 100"
    by (simp_all add: c_def step_buffers step_usage step_rlimit b)
  have d: "buffers d = [?buf 0 (Live True), ?buf 64 Checked]" "usage d = 64" "rlimit d = Some 100"
    by (simp_all add: d_def alloc_check_def is_approaching_mlock_limit_def get_locked_memory_usage_def threshold_100 c)
  have e: "buffers e = [?buf 0 (Live True), ?buf 64 Checked, ?buf 128 Checked]" "usage e = 64"
    by (simp_all add: e_def alloc_check_def is_approaching_mlock_limit_def get_locked_memory_usage_def threshold_100 d)
  have f: "buffers f = [?buf 0 (Live True), ?buf 64 Mlocked, ?buf 128 Checked]" "usage f = 64"
    by (simp_all add: f_def step_buffers step_usage e)
  have g: "buffers g = [?buf 0 (Live True), ?buf 64 (Live True), ?buf 128 Checked]" "usage g = 128"
    by (simp_all add: g_def step_buffers step_usage f)
  have h: "buffers h = [?buf 0 (Live True), ?buf 64 (Live True), ?buf 128 Mlocked]" "usage h = 128"
    by (simp_all add: h_def step_buffers step_usage g)
  have r: "buffers race = [?buf 0 (Live True), ?buf 64 (Live True), ?buf 128 (Live True)]" "usage race = 192"
    by (simp_all add: race step_buffers step_usage h)
  show "get_locked_memory_usage race = 192" by (simp add: get_locked_memory_usage_def r)
  define R where "R = (\<lambda>st st'. step ?K (\<lambda>_ _ n. n \<le> 64) st st' \<and> flights st' \<le> 2)"
  have fl: "flights a \<le> 2" "flights b \<le> 2" "flights c \<le> 2" "flights d \<le> 2" "flights e \<le> 2"
    "flights f \<le> 2" "flights g \<le> 2" "flights h \<le> 2" "flights race \<le> 2"
    by (simp_all add: flights_def in_flight_def a b c d e f g h r)
  have "R\<^sup>*\<^sup>* ?s ?s" by simp
  also have "R ?s a" using fl(1) by (auto simp: R_def a_def intro: step.alloc)
  also have "R a b" using fl(2) by (auto simp: R_def b_def a intro: step.mlock)
  also have "R b c" using fl(3) by (auto simp: R_def c_def b intro: step.count)
  also have "R c d" using fl(4) by (auto simp: R_def d_def intro: step.alloc)
  also have "R d e" using fl(5) by (auto simp: R_def e_def intro: step.alloc)
  also have "R e f" using fl(6) by (auto simp: R_def f_def e intro: step.mlock)
  also have "R f g" using fl(7) by (auto simp: R_def g_def f intro: step.count)
  also have "R g h" using fl(8) by (auto simp: R_def h_def g intro: step.mlock)
  also have "R h race" using fl(9) by (auto simp: R_def race h intro: step.count)
  finally show "reaches_within ?K 64 2 ?s race" unfolding R_def .
qed

theorem budget_overrun_bounded_witness:
  "reaches_within posix_kernel 64 2 (process_start (Some 100)) race \<and>
   100 < get_locked_memory_usage race \<and> get_locked_memory_usage race \<le> 80 + 2 * 64"
  using budget_overrun_bounded [OF race_steps(1)] race_steps threshold_100 by simp

end
