(* ===== verification/Pipeline.thy ===== *)
theory Pipeline
  imports Attestation Entropy Oram Micro_VM Relations Memlock
begin

text \<open>
  The orchestration of \<^verbatim>\<open>src/src/pipeline.rs\<close>: one stateless iteration from seed to
  verdict, the generic relation pipeline, the variants that harvest entropy, the ORAM
  and MicroVM variants, and batches. The destructors that run at the end of an iteration
  (of the seed, the keys and the signature) change only memory the caller cannot reach any
  more; they are modelled with their types.
\<close>

section \<open>One iteration\<close>

record claim =
  cl_bytes :: bytes
  cl_personalization :: bytes

definition claim_new :: "bytes \<Rightarrow> claim" where
  "claim_new bs = \<lparr>cl_bytes = bs, cl_personalization = []\<rparr>"

text \<open>\<open>verify_once_with_seed\<close>: L2 keys, L3 commitment, L4 proof, L5 verification, L7 verdict.\<close>

definition verify_once_with_seed :: "libcrux \<Rightarrow> xof \<Rightarrow> prover \<Rightarrow> verifier \<Rightarrow> seed \<Rightarrow> claim \<Rightarrow> verdict result" where
  "verify_once_with_seed lib xof prover verifier seed cl =
     res_bind (derive_keys lib xof seed) (\<lambda>keys.
       let c = commit xof keys (cl_bytes cl)
       in res_bind (prover keys c) (\<lambda>proof.
          res_bind (verifier keys (cl_bytes cl) proof) (\<lambda>valid.
            Inr (verdict_new xof valid c))))"

section \<open>The generic relation pipeline\<close>

definition prove_and_verify_with_entropy ::
  "xof \<Rightarrow> ('w, 's, 'p) relation \<Rightarrow> 'w \<Rightarrow> bytes \<Rightarrow> verdict result outcome" where
  "prove_and_verify_with_entropy xof R w entropy =
     (case prove R w entropy of
        Inl e \<Rightarrow> Done (Inl e)
      | Inr (stmt, proof) \<Rightarrow>
          (case verify R stmt proof of
             Panic \<Rightarrow> Panic
           | Done (Inl e) \<Rightarrow> Done (Inl e)
           | Done (Inr valid) \<Rightarrow>
               (let t = transcript_new xof (protocol_label R);
                    t = bind_statement R stmt t;
                    digest = fst (challenge_array xof t 32 (ascii ''verdict:statement-digest''))
                in Done (Inr (from_statement_digest xof valid digest)))))"

section \<open>Variants that harvest their own entropy\<close>

text \<open>The default scheme: ML-DSA-65 prover and verifier.\<close>

definition verify_default :: "libcrux \<Rightarrow> xof \<Rightarrow> seed \<Rightarrow> claim \<Rightarrow> verdict result" where
  "verify_default lib xof seed cl =
     verify_once_with_seed lib xof (mldsa_prover lib xof) (mldsa_verifier lib xof) seed cl"

definition verify_once :: "libcrux \<Rightarrow> xof \<Rightarrow> claim \<Rightarrow> world \<Rightarrow> verdict result \<times> world" where
  "verify_once lib xof cl w =
     (case harvest xof (cl_personalization cl) w of
        (Inl e, w) \<Rightarrow> (Inl e, w)
      | (Inr seed, w) \<Rightarrow> (verify_default lib xof seed cl, w))"

definition verify_once_with ::
  "libcrux \<Rightarrow> xof \<Rightarrow> prover \<Rightarrow> verifier \<Rightarrow> claim \<Rightarrow> world \<Rightarrow> verdict result \<times> world" where
  "verify_once_with lib xof prover verifier cl w =
     (case harvest xof (cl_personalization cl) w of
        (Inl e, w) \<Rightarrow> (Inl e, w)
      | (Inr seed, w) \<Rightarrow> (verify_once_with_seed lib xof prover verifier seed cl, w))"

definition prove_and_verify ::
  "xof \<Rightarrow> ('w, 's, 'p) relation \<Rightarrow> 'w \<Rightarrow> bytes \<Rightarrow> world \<Rightarrow> verdict result outcome \<times> world" where
  "prove_and_verify xof R wit entropy_personalization w =
     (case harvest xof entropy_personalization w of
        (Inl e, w) \<Rightarrow> (Done (Inl e), w)
      | (Inr seed, w) \<Rightarrow> (prove_and_verify_with_entropy xof R wit seed, w))"

definition verify_once_with_oram :: "libcrux \<Rightarrow> xof \<Rightarrow> claim \<Rightarrow> world \<Rightarrow> verdict result \<times> world" where
  "verify_once_with_oram lib xof cl w =
     (case harvest xof (cl_personalization cl) w of
        (Inl e, w) \<Rightarrow> (Inl e, w)
      | (Inr seed, w) \<Rightarrow>
          (let ram = oram_new;
               ram = oram_put xof ram 0 seed;
               seed_from_oram = oram_get ram 0
           in (verify_default lib xof seed_from_oram cl, w)))"

definition verify_once_with_vm :: "libcrux \<Rightarrow> xof \<Rightarrow> claim \<Rightarrow> world \<Rightarrow> verdict result \<times> world" where
  "verify_once_with_vm lib xof cl w =
     (let (rnd, w) = getrandom 8 w;
          vm = vm_new rnd;
          root = fst (execute xof vm (cl_bytes cl));
          seed_bytes = take 32 root @ take 32 root
      in (verify_default lib xof seed_bytes cl, w))"

section \<open>Batches\<close>

fun batch_loop :: "libcrux \<Rightarrow> xof \<Rightarrow> nat \<Rightarrow> claim list \<Rightarrow> choice \<Rightarrow> shake256 \<Rightarrow> world \<Rightarrow> (choice \<times> shake256) result \<times> world" where
  "batch_loop lib xof i [] all_valid h w = (Inr (all_valid, h), w)"
| "batch_loop lib xof i (cl # cls) all_valid h w =
     (case verify_once lib xof cl w of
        (Inl e, w) \<Rightarrow> (Inl e, w)
      | (Inr v, w) \<Rightarrow>
          (let all_valid = choice_and all_valid (choice_of (is_valid_bool v));
               h = update h BATCH_STEP;
               h = update h (usize_le i);
               h = update h (v_transcript v)
           in batch_loop lib xof (i + 1) cls all_valid h w))"

definition verify_batch :: "libcrux \<Rightarrow> xof \<Rightarrow> claim list \<Rightarrow> world \<Rightarrow> verdict result \<times> world" where
  "verify_batch lib xof claims w =
     (if claims = [] then (Inl Crypto, w)
      else case batch_loop lib xof 0 claims (Choice 1) (update shake_new BATCH_HEAD) w of
        (Inl e, w) \<Rightarrow> (Inl e, w)
      | (Inr (all_valid, h), w) \<Rightarrow> (Inr (from_batch all_valid (squeeze xof h 32)), w))"

section \<open>Attestation\<close>

definition commit_message :: "ephemeral_keys \<Rightarrow> bytes \<Rightarrow> bytes" where
  "commit_message keys cl = COMMITMENT @ kem_pk keys @ dsa_vk keys @ cl"

lemma commit_eq: "commitment_bytes (commit xof keys cl) = shake256_ema xof 32 (commit_message keys cl)"
  by (simp add: commit_def squeeze_eq COMMITMENT_LEN_def commit_message_def kem_pk_bytes_def dsa_vk_bytes_def)

lemma kem_roundtrip_correct:
  "kem_correct lib \<Longrightarrow> kem_roundtrip lib xof (keys_of lib xof seed) c = Inr (choice_of True)"
  by (auto simp: kem_roundtrip_def kem_encapsulate_def kem_decapsulate_def keys_of_sel kem_correct_def ct_eq_def Let_def
        split: prod.split) (metis fst_conv snd_conv)+

text \<open>The signature an iteration makes: over the commitment, with derived randomness.\<close>

definition iteration_sig :: "libcrux \<Rightarrow> xof \<Rightarrow> seed \<Rightarrow> bytes \<Rightarrow> bytes option" where
  "iteration_sig lib xof seed cl =
     (let keys = keys_of lib xof seed; c = commit xof keys cl
      in sign lib (dsa_sk keys) (commitment_bytes c) SIG_CTX (derive_sig_randomness xof c))"

lemma prove_then_verify:
  assumes "libcrux_correct lib" and "iteration_sig lib xof seed cl = Some s"
  shows "mldsa_prover lib xof (keys_of lib xof seed) (commit xof (keys_of lib xof seed) cl) = Inr \<lparr>pr_sig = s\<rparr>"
    and "mldsa_verifier lib xof (keys_of lib xof seed) cl \<lparr>pr_sig = s\<rparr> = Inr (choice_of True)"
proof -
  have "verify_sig lib (dsa_vk (keys_of lib xof seed)) m c s"
    if "sign lib (dsa_sk (keys_of lib xof seed)) m c r = Some s" for m c r
    using assms(1) that by (simp add: libcrux_correct_def dsa_correct_def keys_of_sel)
  moreover have "kem_roundtrip lib xof (keys_of lib xof seed) c = Inr (choice_of True)" for c
    using assms(1) by (simp add: libcrux_correct_def kem_roundtrip_correct)
  ultimately show "mldsa_verifier lib xof (keys_of lib xof seed) cl \<lparr>pr_sig = s\<rparr> = Inr (choice_of True)"
    using assms(2) by (simp add: mldsa_verifier_def iteration_sig_def sig_ctx_def Let_def)
  show "mldsa_prover lib xof (keys_of lib xof seed) (commit xof (keys_of lib xof seed) cl) = Inr \<lparr>pr_sig = s\<rparr>"
    using assms(2) by (simp add: mldsa_prover_def iteration_sig_def dsa_sign_def Let_def)
qed

text \<open>An honest proof shown with another claim: only the signature decides.\<close>

lemma verifier_decides:
  assumes "libcrux_correct lib"
  shows "mldsa_verifier lib xof (keys_of lib xof seed) cl pf =
    Inr (choice_of (verify_sig lib (dsa_vk (keys_of lib xof seed))
      (commitment_bytes (commit xof (keys_of lib xof seed) cl)) SIG_CTX (pr_sig pf)))"
  using assms by (simp add: mldsa_verifier_def kem_roundtrip_correct libcrux_correct_def sig_ctx_def Let_def)

text \<open>
  The two ways a proof for one claim can pass for another: the commitments collide, or the
  signature library accepts the signature of one message on a different message.
\<close>

definition commitment_collision :: "xof \<Rightarrow> ephemeral_keys \<Rightarrow> bytes \<Rightarrow> bytes \<Rightarrow> bool" where
  "commitment_collision xof keys cl cl' \<longleftrightarrow>
     commit_message keys cl \<noteq> commit_message keys cl' \<and>
     shake256_ema xof 32 (commit_message keys cl) = shake256_ema xof 32 (commit_message keys cl')"

definition signature_forgery :: "libcrux \<Rightarrow> xof \<Rightarrow> ephemeral_keys \<Rightarrow> bytes \<Rightarrow> bytes \<Rightarrow> bytes \<Rightarrow> bool" where
  "signature_forgery lib xof keys cl cl' s \<longleftrightarrow>
     (let m = commitment_bytes (commit xof keys cl); m' = commitment_bytes (commit xof keys cl')
      in m' \<noteq> m \<and> sign lib (dsa_sk keys) m SIG_CTX (derive_sig_randomness xof (commit xof keys cl)) = Some s \<and>
         verify_sig lib (dsa_vk keys) m' SIG_CTX s)"

lemma verify_default_eq:
  assumes "libcrux_correct lib"
  shows "verify_default lib xof seed cl =
    (case iteration_sig lib xof seed (cl_bytes cl) of
       None \<Rightarrow> Inl Crypto
     | Some _ \<Rightarrow> Inr (verdict_new xof (choice_of True) (commit xof (keys_of lib xof seed) (cl_bytes cl))))"
proof (cases "iteration_sig lib xof seed (cl_bytes cl)")
  case None
  then show ?thesis
    using derive_keys_correct [OF assms, of xof seed]
    by (auto simp: verify_default_def verify_once_with_seed_def mldsa_prover_def dsa_sign_def iteration_sig_def Let_def
        split: option.split)
next
  case (Some s)
  then show ?thesis
    using derive_keys_correct [OF assms, of xof seed] prove_then_verify [OF assms Some]
    by (simp add: verify_default_def verify_once_with_seed_def Let_def)
qed

section \<open>Batches as sequences of iterations\<close>

fun verify_all :: "libcrux \<Rightarrow> xof \<Rightarrow> claim list \<Rightarrow> world \<Rightarrow> verdict list result \<times> world" where
  "verify_all lib xof [] w = (Inr [], w)"
| "verify_all lib xof (cl # cls) w =
     (case verify_once lib xof cl w of
        (Inl e, w) \<Rightarrow> (Inl e, w)
      | (Inr v, w) \<Rightarrow>
          (case verify_all lib xof cls w of
             (Inl e, w) \<Rightarrow> (Inl e, w)
           | (Inr vs, w) \<Rightarrow> (Inr (v # vs), w)))"

definition batch_chunk :: "nat \<times> bytes \<Rightarrow> bytes" where
  "batch_chunk c = BATCH_STEP @ usize_le (fst c) @ snd c"

definition batch_message :: "bytes list \<Rightarrow> bytes" where
  "batch_message ts = BATCH_HEAD @ concat (map batch_chunk (enumerate 0 ts))"

interpretation batch: prefix_code batch_chunk "\<lambda>c. fst c < 2 ^ 64 \<and> length (snd c) = 32"
proof unfold_locales
  fix a b :: "nat \<times> bytes" and xs ys
  assume ok: "fst a < 2 ^ 64 \<and> length (snd a) = 32" "fst b < 2 ^ 64 \<and> length (snd b) = 32"
    and eq: "batch_chunk a @ xs = batch_chunk b @ ys"
  from eq ok have "usize_le (fst a) = usize_le (fst b)" "snd a = snd b"
    by (simp_all add: batch_chunk_def append_eq_append_conv)
  with ok show "a = b" by (simp add: usize_le_inj prod_eq_iff)
next
  fix a show "batch_chunk a \<noteq> []" by (simp add: batch_chunk_def BATCH_STEP_def ascii_def)
qed

lemma batch_message_inj:
  assumes "list_all (\<lambda>t. length t = 32) ts" and "list_all (\<lambda>t. length t = 32) ts'"
    and "length ts < 2 ^ 64" and "length ts' < 2 ^ 64" and "batch_message ts = batch_message ts'"
  shows "ts = ts'"
proof -
  have ok: "list_all (\<lambda>c. fst c < 2 ^ 64 \<and> length (snd c) = 32) (enumerate 0 us)"
    if "list_all (\<lambda>t. length t = 32) us" "length us < 2 ^ 64" for us :: "bytes list"
    using that by (auto simp: list_all_iff in_set_enumerate_eq)
  have "enumerate 0 ts = enumerate 0 ts'"
    using batch.enc_list_inj [OF ok ok] assms by (simp add: batch_message_def)
  then show ?thesis by (metis map_snd_enumerate)
qed

text \<open>Every verdict of the default scheme is a proper bit with a 32-byte transcript.\<close>

definition verdict_wf :: "verdict \<Rightarrow> bool" where
  "verdict_wf v \<longleftrightarrow> choice_wf (v_valid v) \<and> length (v_transcript v) = 32"

lemma mldsa_verifier_wf: "mldsa_verifier lib xof keys cl pf = Inr c \<Longrightarrow> choice_wf c"
  by (auto simp: mldsa_verifier_def kem_roundtrip_def Let_def intro!: choice_wf_and split: prod.splits)

lemma verify_default_wf: "verify_default lib xof seed cl = Inr v \<Longrightarrow> verdict_wf v"
  by (auto simp: verify_default_def verify_once_with_seed_def res_bind_Inr_iff Let_def
        verdict_new_def verdict_wf_def mldsa_verifier_wf)

lemma verify_once_wf: "verify_once lib xof cl w = (Inr v, w') \<Longrightarrow> verdict_wf v"
  by (auto simp: verify_once_def verify_default_wf split: prod.splits sum.splits)

lemma verify_all_wf: "verify_all lib xof cls w = (Inr vs, w') \<Longrightarrow> list_all verdict_wf vs \<and> length vs = length cls"
  by (induction cls arbitrary: w vs) (auto simp: verify_once_wf split: prod.splits sum.splits)

lemma batch_loop_eq:
  "batch_loop lib xof i cls (choice_of b) h w =
     (case verify_all lib xof cls w of
        (Inl e, w) \<Rightarrow> (Inl e, w)
      | (Inr vs, w) \<Rightarrow> (Inr (choice_of (b \<and> list_all is_valid_bool vs),
           update h (concat (map batch_chunk (enumerate i (map v_transcript vs))))), w))"
proof (induction cls arbitrary: i b h w)
  case Nil
  show ?case by simp
next
  case (Cons cl cls)
  obtain r w1 where r: "verify_once lib xof cl w = (r, w1)" by (metis prod.exhaust)
  obtain r2 w2 where r2: "verify_all lib xof cls w1 = (r2, w2)" by (metis prod.exhaust)
  show ?case
    by (cases r; cases r2) (simp_all add: r r2 Cons.IH batch_chunk_def update_update conj_assoc)
qed

lemma verify_batch_eq:
  "verify_batch lib xof claims w =
     (if claims = [] then (Inl Crypto, w)
      else case verify_all lib xof claims w of
        (Inl e, w) \<Rightarrow> (Inl e, w)
      | (Inr vs, w) \<Rightarrow> (Inr \<lparr>v_valid = choice_of (list_all is_valid_bool vs),
                           v_transcript = shake256_ema xof 32 (batch_message (map v_transcript vs))\<rparr>, w))"
  by (simp add: verify_batch_def Choice_1 batch_loop_eq from_batch_def squeeze_eq batch_message_def
        split: prod.split sum.split)

section \<open>Harvests that succeed\<close>

text \<open>A machine whose random source answers with zeros and whose clock stands still.\<close>

definition quiet_world :: world where
  "quiet_world = \<lparr>os_random = \<lambda>k n. Some (zeros n), clock_nanos = \<lambda>_. 0, probe_addr = \<lambda>_. 0, calls = 0\<rparr>"

lemma harvest_succeeds:
  assumes "\<forall>k. os_random w k 48 \<noteq> None"
  obtains seed where "harvest xof p w = (Inr seed, w\<lparr>calls := calls w + 12\<rparr>)"
  using mix_rounds_eq [of 12 w xof p] assms
  by (auto simp: harvest_def MIX_ITERATIONS_def SEED_LEN_def)

lemma verify_once_live:
  assumes "libcrux_correct lib" and "\<forall>seed b. iteration_sig lib xof seed b \<noteq> None" and "\<forall>k. os_random w k 48 \<noteq> None"
  obtains seed where "harvest xof (cl_personalization cl) w = (Inr seed, w\<lparr>calls := calls w + 12\<rparr>)"
    and "verify_once lib xof cl w =
      (Inr (verdict_new xof (choice_of True) (commit xof (keys_of lib xof seed) (cl_bytes cl))), w\<lparr>calls := calls w + 12\<rparr>)"
proof -
  obtain seed where h: "harvest xof (cl_personalization cl) w = (Inr seed, w\<lparr>calls := calls w + 12\<rparr>)"
    using assms(3) by (rule harvest_succeeds)
  moreover obtain sig where "iteration_sig lib xof seed (cl_bytes cl) = Some sig"
    using assms(2) by fast
  ultimately show thesis
    by (intro that) (simp_all add: verify_once_def verify_default_eq [OF assms(1)])
qed

lemma is_valid_verdict_new [simp]: "is_valid_bool (verdict_new xof (choice_of b) c) = b"
  by (simp add: verdict_new_def is_valid_bool_def choice_of_def Let_def)

section \<open>Honest relations\<close>

text \<open>
  What the generic pipeline does with any relation that keeps the contract. The lemmas
  are proved once here; the root theory interprets the locale on each relation.
\<close>

locale relation_pipeline = relation_scheme R holds
  for R :: "('w, 's, 'p) relation" and holds :: "'w \<Rightarrow> bool"
begin

text \<open>The verdict of an honest run: valid, with the digest of the statement.\<close>

definition honest_verdict :: "xof \<Rightarrow> 'w \<Rightarrow> verdict" where
  "honest_verdict xof w =
     from_statement_digest xof (choice_of True)
       (fst (challenge_array xof
          (bind_statement R (statement_from_witness R w) (transcript_new xof (protocol_label R)))
          32 (ascii ''verdict:statement-digest'')))"

lemma pipeline_complete:
  assumes "holds w"
  shows "prove_and_verify_with_entropy xof R w e = Done (Inr (honest_verdict xof w))"
proof -
  from honest_run [OF assms] obtain p where
    "prove R w e = Inr (statement_from_witness R w, p)"
    "verify R (statement_from_witness R w) p = Done (Inr (choice_of True))" by metis
  then show ?thesis by (simp add: prove_and_verify_with_entropy_def honest_verdict_def Let_def)
qed

lemma pipeline_valid:
  "holds w \<Longrightarrow> \<exists>v. (\<forall>e. prove_and_verify_with_entropy xof R w e = Done (Inr v)) \<and> is_valid_bool v"
  using pipeline_complete
  by (auto simp: honest_verdict_def from_statement_digest_def is_valid_bool_def choice_of_def Let_def)

lemma pipeline_harvested:
  assumes "holds wit" and "\<forall>k. os_random w k 48 \<noteq> None"
  shows "\<exists>v w'. prove_and_verify xof R wit p w = (Done (Inr v), w') \<and> is_valid_bool v"
proof -
  obtain seed where "harvest xof p w = (Inr seed, w\<lparr>calls := calls w + 12\<rparr>)"
    using assms(2) by (rule harvest_succeeds)
  with pipeline_valid [OF assms(1), of xof] show ?thesis by (auto simp: prove_and_verify_def)
qed

end

lemma demo_signs: "\<exists>s. iteration_sig demo_libcrux xof seed cl = Some s"
  by (simp add: iteration_sig_def demo_libcrux_def Let_def)

section \<open>Properties\<close>

text \<open>C8. One iteration, end to end: with a correct signature and KEM library, an iteration on
  any seed and claim either reports \<open>Crypto\<close>, exactly when signing fails, or emits a verdict
  that is valid and whose transcript is the hash of the commitment to the two ephemeral
  public keys and the claim. It never emits an invalid verdict for its own proof.\<close>

theorem iteration_exact:
  assumes "libcrux_correct lib"
  shows "verify_default lib xof seed cl =
    (case iteration_sig lib xof seed (cl_bytes cl) of
       None \<Rightarrow> Inl Crypto
     | Some _ \<Rightarrow> Inr \<lparr>v_valid = choice_of True,
         v_transcript = shake256_ema xof 32
           (TRANSCRIPT @ shake256_ema xof 32 (commit_message (keys_of lib xof seed) (cl_bytes cl)))\<rparr>)"
  using verify_default_eq [OF assms, of xof seed cl]
  by (simp add: verdict_new_def squeeze_eq commit_eq split: option.split)

theorem iteration_exact_witness:
  "\<exists>v. verify_default demo_libcrux (\<lambda>m i. 7) (zeros 64) (claim_new [1, 2]) = Inr v \<and> v_valid v = choice_of True"
  using iteration_exact [OF demo_libcrux_correct, of "\<lambda>m i. 7" "zeros 64" "claim_new [1, 2]"]
    demo_signs [of "\<lambda>m i. 7" "zeros 64" "cl_bytes (claim_new [1, 2])"]
  by auto

text \<open>C27. A verdict is bound to the claim and to the identity: if two iterations, on any seeds
  and with any provers and verifiers, emit verdicts with the same transcript, they attested
  the same claim bytes under the same KEM and signature public keys (no hash collision on
  the two commitments and on the two transcripts).\<close>

theorem verdict_binds_claim:
  assumes "verify_once_with_seed lib xof pr ve s cl = Inr v" and "verify_once_with_seed lib xof pr' ve' s' cl' = Inr v'"
    and "v_transcript v = v_transcript v'"
    and "collision_free xof 32 {TRANSCRIPT @ shake256_ema xof 32 (commit_message (keys_of lib xof s) (cl_bytes cl)),
           TRANSCRIPT @ shake256_ema xof 32 (commit_message (keys_of lib xof s') (cl_bytes cl'))}"
    and "collision_free xof 32 {commit_message (keys_of lib xof s) (cl_bytes cl),
           commit_message (keys_of lib xof s') (cl_bytes cl')}"
  shows "cl_bytes cl = cl_bytes cl' \<and> kem_pk (keys_of lib xof s) = kem_pk (keys_of lib xof s') \<and>
    dsa_vk (keys_of lib xof s) = dsa_vk (keys_of lib xof s')"
proof -
  have run: "length (kem_pk (keys_of lib xof s)) = KEM_PK_SIZE \<and> length (dsa_vk (keys_of lib xof s)) = DSA_VK_SIZE \<and>
      v_transcript v = shake256_ema xof 32 (TRANSCRIPT @ shake256_ema xof 32 (commit_message (keys_of lib xof s) (cl_bytes cl)))"
    if "verify_once_with_seed lib xof pr ve s cl = Inr v" for pr ve s cl v
    using that by (auto simp: verify_once_with_seed_def res_bind_Inr_iff Let_def derive_keys_eq verdict_new_def squeeze_eq commit_eq
        split: if_splits)
  note r = run [OF assms(1)] run [OF assms(2)]
  with assms(3,4) have "shake256_ema xof 32 (commit_message (keys_of lib xof s) (cl_bytes cl)) =
      shake256_ema xof 32 (commit_message (keys_of lib xof s') (cl_bytes cl'))"
    by (auto dest: collision_freeD)
  with assms(5) have "commit_message (keys_of lib xof s) (cl_bytes cl) = commit_message (keys_of lib xof s') (cl_bytes cl')"
    by (auto dest: collision_freeD)
  with r show ?thesis by (simp add: commit_message_def)
qed

theorem verdict_binds_claim_witness:
  "\<not> (\<exists>v v'. verify_once_with_seed demo_libcrux (\<lambda>m i. last m) (mldsa_prover demo_libcrux (\<lambda>m i. last m))
        (mldsa_verifier demo_libcrux (\<lambda>m i. last m)) (zeros 64) (claim_new [1]) = Inr v \<and>
      verify_once_with_seed demo_libcrux (\<lambda>m i. last m) (mldsa_prover demo_libcrux (\<lambda>m i. last m))
        (mldsa_verifier demo_libcrux (\<lambda>m i. last m)) (zeros 64) (claim_new [2]) = Inr v' \<and>
      v_transcript v = v_transcript v')"
proof -
  let ?xof = "(\<lambda>m i. last m) :: xof" and ?k = "keys_of demo_libcrux (\<lambda>m i. last m) (zeros 64)"
  have e: "shake256_ema ?xof 32 m = replicate 32 (last m)" for m
    by (simp add: shake256_ema_def map_replicate_const)
  have "collision_free ?xof 32 {commit_message ?k [1], commit_message ?k [2]}"
    by (rule collision_free_pairI [of 0]) (simp_all add: commit_message_def)
  moreover have "collision_free ?xof 32 {TRANSCRIPT @ shake256_ema ?xof 32 (commit_message ?k [1]),
      TRANSCRIPT @ shake256_ema ?xof 32 (commit_message ?k [2])}"
    by (rule collision_free_pairI [of 0]) (simp_all add: e commit_message_def)
  ultimately show ?thesis
    using verdict_binds_claim [of demo_libcrux ?xof _ _ "zeros 64" "claim_new [1]" _ _ _ "zeros 64" "claim_new [2]"]
    by (fastforce simp: claim_new_def)
qed

text \<open>C9. A proof is good for its claim only, as a reduction: the proof the prover made for one
  claim is accepted by the verifier, under the same keys, for that claim, and for another
  claim exactly when the two commitments are a collision of the hash, or when the signature
  library accepts the signature made on one commitment for the other, different one. What
  is assumed of the library is only that it verifies its own signatures and opens its own
  ciphertexts.\<close>

theorem proof_binds_claim:
  assumes "libcrux_correct lib"
    and "mldsa_prover lib xof (keys_of lib xof seed) (commit xof (keys_of lib xof seed) cl) = Inr pf"
  shows "mldsa_verifier lib xof (keys_of lib xof seed) cl' pf =
    Inr (choice_of (cl' = cl \<or> commitment_collision xof (keys_of lib xof seed) cl cl' \<or>
      signature_forgery lib xof (keys_of lib xof seed) cl cl' (pr_sig pf)))"
proof -
  let ?k = "keys_of lib xof seed"
  let ?m = "commitment_bytes (commit xof ?k cl)" and ?m' = "commitment_bytes (commit xof ?k cl')"
  from assms(2) obtain s where s: "iteration_sig lib xof seed cl = Some s" and pf: "pf = \<lparr>pr_sig = s\<rparr>"
    by (auto simp: mldsa_prover_def iteration_sig_def dsa_sign_def res_bind_Inr_iff Let_def split: option.splits)
  then have signed: "sign lib (dsa_sk ?k) ?m SIG_CTX (derive_sig_randomness xof (commit xof ?k cl)) = Some s"
    by (simp add: iteration_sig_def Let_def)
  have own: "verify_sig lib (dsa_vk ?k) ?m SIG_CTX s"
    using prove_then_verify(2) [OF assms(1) s] by (simp add: verifier_decides [OF assms(1)])
  have "verify_sig lib (dsa_vk ?k) ?m' SIG_CTX s \<longleftrightarrow>
      cl' = cl \<or> commitment_collision xof ?k cl cl' \<or> signature_forgery lib xof ?k cl cl' s"
  proof (cases "?m' = ?m")
    case True
    then have "cl' = cl \<or> commitment_collision xof ?k cl cl'"
      by (auto simp: commitment_collision_def commit_eq commit_message_def)
    with True own show ?thesis by auto
  next
    case False
    with signed show ?thesis
      by (auto simp: commitment_collision_def commit_eq signature_forgery_def Let_def)
  qed
  then show ?thesis by (simp add: verifier_decides [OF assms(1)] pf)
qed

theorem proof_binds_claim_witness:
  "\<exists>pf. mldsa_prover demo_libcrux (\<lambda>m i. last m) (keys_of demo_libcrux (\<lambda>m i. last m) [])
       (commit (\<lambda>m i. last m) (keys_of demo_libcrux (\<lambda>m i. last m) []) [1]) = Inr pf \<and>
     mldsa_verifier demo_libcrux (\<lambda>m i. last m) (keys_of demo_libcrux (\<lambda>m i. last m) []) [1] pf = Inr (choice_of True) \<and>
     mldsa_verifier demo_libcrux (\<lambda>m i. last m) (keys_of demo_libcrux (\<lambda>m i. last m) []) [2] pf = Inr (choice_of False)"
proof -
  let ?x = "(\<lambda>m i. last m) :: xof" and ?k = "keys_of demo_libcrux (\<lambda>m i. last m) []"
  obtain s where "iteration_sig demo_libcrux ?x [] [1] = Some s" using demo_signs by blast
  then have pf: "mldsa_prover demo_libcrux ?x ?k (commit ?x ?k [1]) = Inr \<lparr>pr_sig = s\<rparr>"
    by (rule prove_then_verify(1) [OF demo_libcrux_correct])
  have c: "commitment_bytes (commit ?x ?k [b]) = replicate 32 b" for b
    by (simp add: commit_eq commit_message_def shake256_ema_def map_replicate_const)
  have no_collision: "\<not> commitment_collision ?x ?k [1] [2]"
    by (simp add: commitment_collision_def flip: commit_eq) (simp add: c)
  have no_forgery: "\<not> signature_forgery demo_libcrux ?x ?k [1] [2] s"
  proof
    assume "signature_forgery demo_libcrux ?x ?k [1] [2] s"
    moreover have "sign demo_libcrux sk m ctxt r = Some (pad_to 3309 (m @ ctxt @ sk))"
      and "verify_sig demo_libcrux vk m ctxt s \<longleftrightarrow> s = pad_to 3309 (m @ ctxt @ vk)" for sk vk m ctxt r
      by (simp_all add: demo_libcrux_def)
    ultimately have "pad_to 3309 (replicate 32 1 @ SIG_CTX @ dsa_sk ?k) = pad_to 3309 (replicate 32 2 @ SIG_CTX @ dsa_vk ?k)"
      by (simp add: signature_forgery_def c Let_def)
    then have "take 32 (pad_to 3309 (replicate 32 1 @ SIG_CTX @ dsa_sk ?k)) =
        take 32 (pad_to 3309 (replicate 32 2 @ SIG_CTX @ dsa_vk ?k))"
      by simp
    then show False by (simp add: pad_to_def min_def)
  qed
  show ?thesis
    using proof_binds_claim [OF demo_libcrux_correct pf, of "[1]"] proof_binds_claim [OF demo_libcrux_correct pf, of "[2]"]
      pf no_collision no_forgery by auto
qed

text \<open>C15. Batches: an empty batch is an error; otherwise the claims are verified one after the
  other on fresh entropy, the first error aborts the batch with that error, and if none
  occurs the verdict is valid exactly when every single verdict is, with a transcript that
  hashes the indexed transcripts.\<close>

theorem verify_batch_spec:
  "verify_batch lib xof claims w =
     (if claims = [] then (Inl Crypto, w)
      else case verify_all lib xof claims w of
        (Inl e, w) \<Rightarrow> (Inl e, w)
      | (Inr vs, w) \<Rightarrow> (Inr \<lparr>v_valid = choice_of (list_all is_valid_bool vs),
                           v_transcript = shake256_ema xof 32 (batch_message (map v_transcript vs))\<rparr>, w))"
  by (rule verify_batch_eq)

text \<open>A batch transcript determines the transcripts of its members, their number and their
  order: the framing by tag and index is uniquely decodable (no hash collision on the two
  absorbed strings, fewer than \<open>2^64\<close> members).\<close>

theorem batch_transcript_binds:
  assumes "list_all (\<lambda>t. length t = 32) ts" and "list_all (\<lambda>t. length t = 32) ts'"
    and "length ts < 2 ^ 64" and "length ts' < 2 ^ 64"
    and "collision_free xof 32 {batch_message ts, batch_message ts'}"
    and "shake256_ema xof 32 (batch_message ts) = shake256_ema xof 32 (batch_message ts')"
  shows "ts = ts'"
  using assms(5,6) batch_message_inj [OF assms(1-4)] by (auto dest: collision_freeD)

theorem batch_transcript_binds_witness:
  "shake256_ema (\<lambda>m i. last m) 32 (batch_message [zeros 32]) \<noteq> shake256_ema (\<lambda>m i. last m) 32 (batch_message [replicate 32 1])"
proof -
  have "collision_free (\<lambda>m i. last m) 32 {batch_message [zeros 32], batch_message [replicate 32 1]}"
    by (rule collision_free_pairI [of 0]) (simp_all add: batch_message_def batch_chunk_def)
  with batch_transcript_binds [of "[zeros 32]" "[replicate 32 1]" "\<lambda>m i. last m"] show ?thesis by auto
qed

text \<open>The MicroVM variant does not harvest entropy: its seed is the first half of the VM root,
  twice, and for every claim the VM rejects it is 64 zero bytes, whatever the operating
  system returns. All such claims share one key pair.\<close>

theorem vm_variant_seed:
  assumes "vm_spec xof (cl_bytes cl) = None"
  shows "verify_once_with_vm lib xof cl w = (verify_default lib xof (zeros 64) cl, w\<lparr>calls := calls w + 1\<rparr>)"
proof -
  have "fst (execute xof (with_canary c) (cl_bytes cl)) = zeros 64" for c
    using assms by (simp add: execute_with_canary vm_root_def)
  moreover have "take 32 (zeros 64) @ take 32 (zeros 64) = zeros 64" by (simp flip: replicate_add)
  ultimately show ?thesis
    by (simp add: verify_once_with_vm_def getrandom_def vm_new_def)
qed

theorem vm_variant_seed_witness:
  "\<exists>w. verify_once_with_vm demo_libcrux (\<lambda>m i. 7) (claim_new [0xFF]) w =
     (verify_default demo_libcrux (\<lambda>m i. 7) (zeros 64) (claim_new [0xFF]), w\<lparr>calls := calls w + 1\<rparr>)"
  using vm_variant_seed [of "\<lambda>m i. 7" "claim_new [0xFF]" demo_libcrux]
  by (simp add: vm_spec_def claim_new_def from_u8_def)

text \<open>The ORAM variant runs on the hash of the harvested seed: what is read back from the
  oblivious memory is not the seed that was written but its \<open>oram_hash\<close>.\<close>

theorem oram_variant_seed:
  assumes "harvest xof (cl_personalization cl) w = (Inr seed, w')"
  shows "verify_once_with_oram lib xof cl w = (verify_default lib xof (oram_hash xof seed) cl, w')"
  using assms oram.get_put_same [OF oram_wf_new, of 0 0 xof seed]
  by (simp add: verify_once_with_oram_def)

theorem oram_variant_seed_witness:
  "\<exists>seed w'. verify_once_with_oram demo_libcrux (\<lambda>m i. 7) (claim_new []) quiet_world =
     (verify_default demo_libcrux (\<lambda>m i. 7) (oram_hash (\<lambda>m i. 7) seed) (claim_new []), w')"
proof -
  obtain seed w' where "harvest (\<lambda>m i. 7) (cl_personalization (claim_new [])) quiet_world = (Inr seed, w')"
    by (rule harvest_succeeds [of quiet_world "\<lambda>m i. 7" "cl_personalization (claim_new [])"])
       (simp add: quiet_world_def, blast)
  from oram_variant_seed [OF this, of demo_libcrux] show ?thesis by blast
qed

lemma verify_all_honest:
  assumes "libcrux_correct lib" and "\<forall>seed b. iteration_sig lib xof seed b \<noteq> None"
    and "\<forall>k. os_random w k 48 \<noteq> None"
  shows "\<exists>vs w'. verify_all lib xof claims w = (Inr vs, w') \<and> list_all is_valid_bool vs"
  using assms(3)
proof (induction claims arbitrary: w)
  case (Cons cl cls)
  obtain c where "verify_once lib xof cl w = (Inr (verdict_new xof (choice_of True) c), w\<lparr>calls := calls w + 12\<rparr>)"
    by (rule verify_once_live [OF assms(1,2) Cons.prems, of cl])
  with Cons.IH [of "w\<lparr>calls := calls w + 12\<rparr>"] Cons.prems show ?case by auto
qed simp

text \<open>Liveness of a batch: if the operating system's generator and the signature library do
  not fail, every non-empty batch of claims gets a valid verdict.\<close>

theorem batch_live:
  assumes "libcrux_correct lib" and "\<forall>seed b. iteration_sig lib xof seed b \<noteq> None"
    and "\<forall>k. os_random w k 48 \<noteq> None" and "claims \<noteq> []"
  shows "\<exists>v w'. verify_batch lib xof claims w = (Inr v, w') \<and> is_valid_bool v"
proof -
  from verify_all_honest [OF assms(1-3)] obtain vs w' where
    "verify_all lib xof claims w = (Inr vs, w')" "list_all is_valid_bool vs" by blast
  with assms(4) show ?thesis by (simp add: verify_batch_eq is_valid_bool_def choice_of_def)
qed

theorem batch_live_witness:
  "\<exists>v w'. verify_batch demo_libcrux (\<lambda>m i. 7) [claim_new [1], claim_new []] quiet_world = (Inr v, w') \<and> is_valid_bool v"
  using batch_live [OF demo_libcrux_correct, of "\<lambda>m i. 7" quiet_world "[claim_new [1], claim_new []]"]
    demo_signs [of "\<lambda>m i. 7"] by (auto simp: quiet_world_def)

end
