(* ===== verification/Ml_Dsa_Relation.thy ===== *)
theory Ml_Dsa_Relation
  imports Relations Backend Memlock
begin

text \<open>
  Knowledge of an ML-DSA-65 signing key as a relation, \<^verbatim>\<open>src/src/relations/ml_dsa.rs\<close>, over
  the signature library as a parameter. Its contract holds for the seeds whose signature
  the library produces, when the library is correct.
\<close>

definition mldsa_proto :: bytes where
  "mldsa_proto = ascii ''veil7:relation:ml-dsa-65-knowledge:v1''"

definition mldsa_ctx :: bytes where
  "mldsa_ctx = ascii ''veil7:rel:mldsa:ctx:v1''"

record mldsa_statement =
  mds_vk :: bytes

record mldsa_witness =
  mdw_seed :: bytes

record mldsa_proof =
  mdp_sig :: bytes

definition mldsa_witness_drop :: "mldsa_witness \<Rightarrow> mldsa_witness" where
  "mldsa_witness_drop w = w\<lparr>mdw_seed := zeroize_bytes (mdw_seed w)\<rparr>"

definition mldsa_proof_drop :: "mldsa_proof \<Rightarrow> mldsa_proof" where
  "mldsa_proof_drop p = p\<lparr>mdp_sig := zeroize_bytes (mdp_sig p)\<rparr>"

definition derive_signing_randomness :: "xof \<Rightarrow> bytes \<Rightarrow> bytes \<Rightarrow> bytes" where
  "derive_signing_randomness xof seed chal =
     (let h = update shake_new (ascii ''veil7:rel:mldsa:sig-randomness:v1'');
          h = update h seed;
          h = update h chal
      in squeeze xof h 32)"

definition mldsa_bind_statement :: "xof \<Rightarrow> mldsa_statement \<Rightarrow> transcript \<Rightarrow> transcript" where
  "mldsa_bind_statement xof stmt t = absorb xof t (ascii ''mldsa:vk'') (mds_vk stmt)"

definition challenge_for :: "xof \<Rightarrow> mldsa_statement \<Rightarrow> bytes" where
  "challenge_for xof stmt =
     (let t = transcript_new xof mldsa_proto;
          t = mldsa_bind_statement xof stmt t
      in fst (challenge_array xof t 32 (ascii ''mldsa:challenge'')))"

definition mldsa_statement_from_witness :: "libcrux \<Rightarrow> mldsa_witness \<Rightarrow> mldsa_statement" where
  "mldsa_statement_from_witness lib w = \<lparr>mds_vk = fst (dsa_keygen lib (mdw_seed w))\<rparr>"

definition mldsa_prove ::
  "libcrux \<Rightarrow> xof \<Rightarrow> mldsa_witness \<Rightarrow> bytes \<Rightarrow> (mldsa_statement \<times> mldsa_proof) result" where
  "mldsa_prove lib xof w entropy =
     (let (vk, sk) = dsa_keygen lib (mdw_seed w);
          stmt = \<lparr>mds_vk = vk\<rparr>;
          msg = challenge_for xof stmt;
          sig_randomness = derive_signing_randomness xof (mdw_seed w) msg
      in res_bind (dsa_sign lib sk msg mldsa_ctx sig_randomness) (\<lambda>s. Inr (stmt, \<lparr>mdp_sig = s\<rparr>)))"

definition mldsa_verify ::
  "libcrux \<Rightarrow> xof \<Rightarrow> mldsa_statement \<Rightarrow> mldsa_proof \<Rightarrow> choice result outcome" where
  "mldsa_verify lib xof stmt pf =
     (let msg = challenge_for xof stmt
      in Done (Inr (choice_of (is_ok (dsa_verify lib (mds_vk stmt) msg mldsa_ctx (mdp_sig pf))))))"

definition mldsa_relation ::
  "libcrux \<Rightarrow> xof \<Rightarrow> (mldsa_witness, mldsa_statement, mldsa_proof) relation" where
  "mldsa_relation lib xof =
     \<lparr>protocol_label = mldsa_proto,
      statement_from_witness = mldsa_statement_from_witness lib,
      bind_statement = mldsa_bind_statement xof,
      prove = mldsa_prove lib xof,
      verify = mldsa_verify lib xof\<rparr>"

text \<open>The witnesses for which honest proofs exist.\<close>

definition mldsa_holds :: "libcrux \<Rightarrow> xof \<Rightarrow> mldsa_witness \<Rightarrow> bool" where
  "mldsa_holds lib xof w \<longleftrightarrow> dsa_correct lib \<and> is_ok (mldsa_prove lib xof w [])"

lemma mldsa_prove_cases:
  "mldsa_prove lib xof w e =
     (let kp = generate_dsa_key_pair lib (mdw_seed w);
          stmt = \<lparr>mds_vk = fst kp\<rparr>;
          msg = challenge_for xof stmt
      in case sign lib (snd kp) msg mldsa_ctx (derive_signing_randomness xof (mdw_seed w) msg) of
           None \<Rightarrow> Inl Crypto
         | Some s \<Rightarrow> Inr (stmt, \<lparr>mdp_sig = s\<rparr>))"
  by (simp add: mldsa_prove_def dsa_keygen_def dsa_sign_def Let_def split: prod.split option.split)

lemma mldsa_complete:
  "dsa_correct lib \<Longrightarrow> mldsa_prove lib xof w e = Inr (s, p) \<Longrightarrow>
     mldsa_verify lib xof s p = Done (Inr (choice_of True))"
  by (auto simp: mldsa_prove_cases mldsa_verify_def dsa_correct_def Let_def split: option.splits)

interpretation mldsa: relation_scheme "mldsa_relation lib xof" "mldsa_holds lib xof" for lib xof
proof unfold_locales
  show "verify (mldsa_relation lib xof) s p = Done (Inr (choice_of True))"
    if "mldsa_holds lib xof w" "prove (mldsa_relation lib xof) w e = Inr (s, p)" for w e s p
    using that mldsa_complete [of lib xof w e s p] by (simp add: mldsa_relation_def mldsa_holds_def)
qed (auto simp: mldsa_relation_def mldsa_prove_cases mldsa_verify_def mldsa_holds_def is_ok_def dsa_keygen_def
       mldsa_statement_from_witness_def Let_def split: option.splits sum.splits)

section \<open>Binding\<close>

text \<open>A signature proof is tied to its verifying key: the verifier's verdict is exactly the
  library's verdict on the challenge derived from that key alone, so the proof carries no
  choice of message; and two keys share a challenge only if the transcript hash collides.\<close>

lemma mldsa_challenge_binds_key:
  assumes "collision_free xof 64 {FS_ABSORB @ ts_state (transcript_new xof mldsa_proto) @ frame (ascii ''mldsa:vk'') @ frame v
      | v. v \<in> {vk, vk'}}"
    and "collision_free xof 32 {FS_SQUEEZE @ ts_state (mldsa_bind_statement xof \<lparr>mds_vk = v\<rparr> (transcript_new xof mldsa_proto))
      @ frame (ascii ''mldsa:challenge'') @ usize_le 32 | v. v \<in> {vk, vk'}}"
    and "length vk = length vk'"
  shows "challenge_for xof \<lparr>mds_vk = vk\<rparr> = challenge_for xof \<lparr>mds_vk = vk'\<rparr> \<longleftrightarrow> vk = vk'"
proof
  let ?st = "\<lambda>v. ts_state (mldsa_bind_statement xof \<lparr>mds_vk = v\<rparr> (transcript_new xof mldsa_proto))"
  assume "challenge_for xof \<lparr>mds_vk = vk\<rparr> = challenge_for xof \<lparr>mds_vk = vk'\<rparr>"
  then have "shake256_ema xof 32 (FS_SQUEEZE @ ?st vk @ frame (ascii ''mldsa:challenge'') @ usize_le 32) =
      shake256_ema xof 32 (FS_SQUEEZE @ ?st vk' @ frame (ascii ''mldsa:challenge'') @ usize_le 32)"
    by (simp add: challenge_for_def challenge_array_def challenge_def Let_def squeeze_eq)
  then have "?st vk = ?st vk'"
    using collision_freeD [OF assms(2)] by (auto simp: mldsa_bind_statement_def absorb_def Let_def)
  then have "shake256_ema xof 64 (FS_ABSORB @ ts_state (transcript_new xof mldsa_proto) @ frame (ascii ''mldsa:vk'') @ frame vk) =
      shake256_ema xof 64 (FS_ABSORB @ ts_state (transcript_new xof mldsa_proto) @ frame (ascii ''mldsa:vk'') @ frame vk')"
    by (simp add: mldsa_bind_statement_def absorb_def Let_def squeeze_eq STATE_LEN_def)
  then show "vk = vk'" using collision_freeD [OF assms(1)] assms(3) by (auto simp: frame_def)
qed simp

end
