(* ===== verification/Keccak_Ct.thy ===== *)
theory Keccak_Ct
  imports Shake Entropy Memlock
begin

text \<open>
  The masked sponge of \<^verbatim>\<open>src/src/keccak_ct.rs\<close>: a SHAKE256 hasher that absorbs its secret
  inputs combined with a mask stream derived from a per-hasher mask, a call counter and
  the length of the input.
\<close>

record ct_shake256 =
  ct_inner :: shake256
  ct_mask :: bytes
  ct_calls :: u64

definition with_mask :: "bytes \<Rightarrow> ct_shake256" where
  "with_mask msk = \<lparr>ct_inner = shake_new, ct_mask = msk, ct_calls = 0\<rparr>"

definition ct_new :: "world \<Rightarrow> ct_shake256 result \<times> world" where
  "ct_new w =
     (case getrandom 32 w of
        (None, w) \<Rightarrow> (Inl Entropy, w)
      | (Some msk, w) \<Rightarrow> (Inr \<lparr>ct_inner = shake_new, ct_mask = msk, ct_calls = 0\<rparr>, w))"

definition mask_stream :: "xof \<Rightarrow> bytes \<Rightarrow> u64 \<Rightarrow> nat \<Rightarrow> bytes" where
  "mask_stream xof msk call_counter n =
     (let h = update shake_new (ascii ''veil7:ct:mask-stream'');
          h = update h msk;
          h = update h (u64_le call_counter);
          h = update h (usize_le n)
      in squeeze xof h n)"

definition ct_update :: "xof \<Rightarrow> ct_shake256 \<Rightarrow> bytes \<Rightarrow> ct_shake256" where
  "ct_update xof h data =
     (let stream = mask_stream xof (ct_mask h) (ct_calls h) (length data);
          masked = xor_bytes data stream
      in h\<lparr>ct_inner := update (ct_inner h) masked, ct_calls := ct_calls h + 1\<rparr>)"

definition update_public :: "ct_shake256 \<Rightarrow> bytes \<Rightarrow> ct_shake256" where
  "update_public h data = h\<lparr>ct_inner := update (ct_inner h) data\<rparr>"

text \<open>\<open>ct_finalize(out)\<close> with \<open>out.len() = n\<close>: the bytes written and the hasher left behind.\<close>

definition ct_finalize :: "xof \<Rightarrow> ct_shake256 \<Rightarrow> nat \<Rightarrow> bytes \<times> ct_shake256" where
  "ct_finalize xof h n =
     (let inner = ct_inner h; h = h\<lparr>ct_inner := shake_new\<rparr>
      in (squeeze xof inner n, h\<lparr>ct_mask := zeroize_bytes (ct_mask h)\<rparr>))"

definition ct_finalize_array :: "xof \<Rightarrow> ct_shake256 \<Rightarrow> nat \<Rightarrow> bytes \<times> ct_shake256" where
  "ct_finalize_array xof h n = ct_finalize xof h n"

definition ct_drop :: "ct_shake256 \<Rightarrow> ct_shake256" where
  "ct_drop h = h\<lparr>ct_mask := zeroize_bytes (ct_mask h)\<rparr>"

definition ct_shake256 :: "xof \<Rightarrow> bytes \<Rightarrow> nat \<Rightarrow> world \<Rightarrow> bytes result \<times> world" where
  "ct_shake256 xof data n w =
     (case ct_new w of
        (Inl e, w) \<Rightarrow> (Inl e, w)
      | (Inr h, w) \<Rightarrow> (Inr (fst (ct_finalize xof (ct_update xof h data) n)), w))"

section \<open>What is absorbed\<close>

definition mask_message :: "bytes \<Rightarrow> nat \<Rightarrow> nat \<Rightarrow> bytes" where
  "mask_message msk k n = ascii ''veil7:ct:mask-stream'' @ msk @ usize_le k @ usize_le n"

lemma mask_stream_eq:
  "mask_stream xof msk (of_nat k) n =
     shake256_ema xof (min n 256) (mask_message msk k n) @ zeros (n - 256)"
  by (cases "n \<le> 256")
    (simp_all add: mask_stream_def Let_def squeeze_eq squeeze_long mask_message_def usize_le_def)

lemma length_mask_stream [simp]: "length (mask_stream xof msk c n) = n"
  by (simp add: mask_stream_def Let_def)

lemma ct_update_fields [simp]:
  "ct_mask (ct_update xof h d) = ct_mask h" "ct_calls (ct_update xof h d) = ct_calls h + 1"
  by (simp_all add: ct_update_def Let_def)

definition masked_chunk :: "xof \<Rightarrow> bytes \<Rightarrow> nat \<times> bytes \<Rightarrow> bytes" where
  "masked_chunk xof msk c = xor_bytes (snd c) (mask_stream xof msk (of_nat (fst c)) (length (snd c)))"

lemma ct_updates_absorb:
  "ct_calls h = of_nat k \<Longrightarrow>
   buf (ct_inner (fold (\<lambda>d h. ct_update xof h d) ds h)) =
     buf (ct_inner h) @ concat (map (masked_chunk xof (ct_mask h)) (enumerate k ds))"
proof (induction ds arbitrary: h k)
  case (Cons d ds)
  have "ct_calls (ct_update xof h d) = of_nat (Suc k)" using Cons.prems by simp
  from Cons.IH [OF this] Cons.prems show ?case
    by (simp add: ct_update_def masked_chunk_def Let_def)
qed simp

lemma masked_chunk_tail: "drop 256 (masked_chunk xof msk (k, d)) = drop 256 d"
  by (cases "length d \<le> 256") (simp_all add: masked_chunk_def drop_xor_bytes mask_stream_eq min_def)

lemma masked_chunk_invol:
  "xor_bytes (masked_chunk xof msk (k, d)) (mask_stream xof msk (of_nat k) (length d)) = d"
  by (simp add: masked_chunk_def xor_bytes_cancel)

section \<open>Properties\<close>

text \<open>The masked sponge: what a run of \<open>ct_update\<close> calls absorbs is each input combined with its
  own stream, taken from a message that no other call of the hasher uses (a different call
  number or length), so inputs of up to 256 bytes are fully masked; the mask only reaches
  that far, and of a longer input every byte from position 256 on is absorbed in the
  clear. Finalisation wipes the mask.\<close>

theorem ct_sponge_masks_prefix:
  assumes "i < j" and "j < length ds" and "length ds < 2 ^ 64" and "list_all (\<lambda>d. length d < 2 ^ 64) ds"
  shows "buf (ct_inner (fold (\<lambda>d h. ct_update xof h d) ds (with_mask msk))) =
       concat (map (masked_chunk xof msk) (enumerate 0 ds)) \<and>
     mask_message msk i (length (ds ! i)) \<noteq> mask_message msk j (length (ds ! j)) \<and>
     take 256 (masked_chunk xof msk (i, ds ! i)) =
       xor_bytes (take 256 (ds ! i)) (shake256_ema xof (min (length (ds ! i)) 256) (mask_message msk i (length (ds ! i)))) \<and>
     drop 256 (masked_chunk xof msk (i, ds ! i)) = drop 256 (ds ! i) \<and>
     ct_mask (snd (ct_finalize xof (fold (\<lambda>d h. ct_update xof h d) ds (with_mask msk)) n)) = zeros (length msk)"
proof (intro conjI)
  show "buf (ct_inner (fold (\<lambda>d h. ct_update xof h d) ds (with_mask msk))) =
       concat (map (masked_chunk xof msk) (enumerate 0 ds))"
    using ct_updates_absorb [of "with_mask msk" 0 xof ds] by (simp add: with_mask_def)
  show "mask_message msk i (length (ds ! i)) \<noteq> mask_message msk j (length (ds ! j))"
    using assms by (simp add: mask_message_def usize_le_inj append_eq_append_conv)
  show "take 256 (masked_chunk xof msk (i, ds ! i)) =
       xor_bytes (take 256 (ds ! i)) (shake256_ema xof (min (length (ds ! i)) 256) (mask_message msk i (length (ds ! i))))"
    by (cases "length (ds ! i) \<le> 256")
      (simp_all add: masked_chunk_def mask_stream_eq xor_bytes_def take_map take_zip min_def)
  show "drop 256 (masked_chunk xof msk (i, ds ! i)) = drop 256 (ds ! i)" by (rule masked_chunk_tail)
  have "ct_mask (fold (\<lambda>d h. ct_update xof h d) ds h) = ct_mask h" for h
    by (induction ds arbitrary: h) simp_all
  then show "ct_mask (snd (ct_finalize xof (fold (\<lambda>d h. ct_update xof h d) ds (with_mask msk)) n)) = zeros (length msk)"
    by (simp add: ct_finalize_def Let_def with_mask_def)
qed

theorem ct_sponge_masks_prefix_witness:
  "drop 256 (masked_chunk (\<lambda>m i. 7) (zeros 32) (0, replicate 300 5)) = drop 256 (replicate 300 5)"
  using ct_sponge_masks_prefix [of 0 1 "[replicate 300 5, []]" "\<lambda>m i. 7" "zeros 32" 32] by simp

end
