(* ===== verification/Entropy_Health.thy ===== *)
theory Entropy_Health
  imports Entropy Complex_Main
begin

text \<open>
  Health tests of entropy sources, \<^verbatim>\<open>src/src/entropy_health.rs\<close>. The two counting tests are
  exact. The estimates computed with \<open>f64\<close> are read as real numbers: quotients, logarithm
  and square roots without rounding.
\<close>

section \<open>Counting tests\<close>

text \<open>The loop of the repetition test over the samples after the first.\<close>

fun rct_loop :: "nat \<Rightarrow> byte \<Rightarrow> nat \<Rightarrow> bytes \<Rightarrow> bool" where
  "rct_loop cutoff prev count [] = True"
| "rct_loop cutoff prev count (sample # samples) =
     (if sample = prev then
        (if count + 1 \<ge> cutoff then False else rct_loop cutoff prev (count + 1) samples)
      else rct_loop cutoff sample 1 samples)"

definition repetition_count_test :: "bytes \<Rightarrow> nat \<Rightarrow> bool" where
  "repetition_count_test samples cutoff =
     (case samples of [] \<Rightarrow> True | s # ss \<Rightarrow> rct_loop cutoff s 1 ss)"

definition byte_counts :: "bytes \<Rightarrow> nat list" where
  "byte_counts samples =
     fold (\<lambda>s counts. counts[unat s := counts ! unat s + 1]) samples (replicate 256 0)"

definition max_count :: "nat list \<Rightarrow> nat" where
  "max_count counts = fold (\<lambda>c m. if c > m then c else m) counts 0"

definition adaptive_proportion_test :: "bytes \<Rightarrow> nat \<Rightarrow> bool" where
  "adaptive_proportion_test samples cutoff =
     (if samples = [] then True else max_count (byte_counts samples) < cutoff)"

section \<open>Estimates\<close>

definition estimate_min_entropy :: "bytes \<Rightarrow> real" where
  "estimate_min_entropy samples =
     (if samples = [] then 0
      else let max_prob = real (max_count (byte_counts samples)) / real (length samples)
           in if max_prob \<le> 0 then 0 else - log 2 max_prob)"

definition validate_source_diversity :: "bytes \<Rightarrow> bytes \<Rightarrow> real" where
  "validate_source_diversity source1 source2 =
     (let n = min (length source1) (length source2) in
      if n = 0 then 0
      else
        let x = \<lambda>i. real (unat (source1 ! i)); y = \<lambda>i. real (unat (source2 ! i));
            mean1 = sum_list (map x [0..<n]) / real n;
            mean2 = sum_list (map y [0..<n]) / real n;
            numerator = sum_list (map (\<lambda>i. (x i - mean1) * (y i - mean2)) [0..<n]);
            var1 = sum_list (map (\<lambda>i. (x i - mean1) * (x i - mean1)) [0..<n]);
            var2 = sum_list (map (\<lambda>i. (y i - mean2) * (y i - mean2)) [0..<n])
        in if var1 \<le> 0 \<or> var2 \<le> 0 then 0 else numerator / (sqrt var1 * sqrt var2))"

definition monitor_entropy_quality :: "bytes \<Rightarrow> real \<Rightarrow> string + unit" where
  "monitor_entropy_quality samples min_entropy_threshold =
     (if estimate_min_entropy samples < min_entropy_threshold then Inl ''Entropy quality below threshold''
      else if \<not> repetition_count_test samples 10 then Inl ''Repetition count test failed''
      else if \<not> adaptive_proportion_test samples (length samples div 2) then Inl ''Adaptive proportion test failed''
      else Inr ())"

definition health_check_source :: "entropy_source \<Rightarrow> string + unit" where
  "health_check_source source = monitor_entropy_quality (es_raw source) 6"

section \<open>The counting tests decide what they are for\<close>

text \<open>
  A run of equal samples. The first comparison happens at the second sample, so a cutoff
  below two acts as two.
\<close>

definition has_run :: "nat \<Rightarrow> bytes \<Rightarrow> bool" where
  "has_run n samples \<longleftrightarrow> (\<exists>xs b ys. samples = xs @ replicate n b @ ys)"

lemma has_run_Cons: "has_run n (s # ss) \<longleftrightarrow> (\<exists>b ys. s # ss = replicate n b @ ys) \<or> has_run n ss"
  unfolding has_run_def
proof
  assume "\<exists>xs b ys. s # ss = xs @ replicate n b @ ys"
  then obtain xs b ys where eq: "s # ss = xs @ replicate n b @ ys" by blast
  then show "(\<exists>b ys. s # ss = replicate n b @ ys) \<or> (\<exists>xs b ys. ss = xs @ replicate n b @ ys)"
  proof (cases xs)
    case Nil
    with eq show ?thesis by auto
  next
    case (Cons x xs')
    with eq have "ss = xs' @ replicate n b @ ys" by simp
    then show ?thesis by blast
  qed
next
  assume "(\<exists>b ys. s # ss = replicate n b @ ys) \<or> (\<exists>xs b ys. ss = xs @ replicate n b @ ys)"
  then show "\<exists>xs b ys. s # ss = xs @ replicate n b @ ys"
    by (metis append_Cons append_Nil)
qed

lemma replicate_prefix_Cons:
  "0 < n \<Longrightarrow> (\<exists>b ys. s # ss = replicate n b @ ys) \<longleftrightarrow> (\<exists>ys. ss = replicate (n - 1) s @ ys)"
  by (cases n) auto

text \<open>The state of the loop: \<open>count\<close> copies of \<open>prev\<close> have just been seen.\<close>

text \<open>A run is not longer than the list, and one that a different byte cuts short does not count.\<close>

lemma no_run_replicate: "n < m \<Longrightarrow> \<not> has_run m (replicate n x)"
  by (auto simp: has_run_def dest: arg_cong [where f = length])

lemma has_run_cut:
  assumes "s \<noteq> x" and "k < m"
  shows "has_run m (replicate k x @ s # ss) \<longleftrightarrow> has_run m (s # ss)"
  using assms(2)
proof (induction k)
  case (Suc k)
  have "replicate k x @ s # ss \<noteq> replicate (m - 1) x @ ys" for ys
  proof
    assume eq: "replicate k x @ s # ss = replicate (m - 1) x @ ys"
    have "k < m - 1" using Suc.prems by simp
    then have "(replicate (m - 1) x @ ys) ! k = x" by (simp add: nth_append)
    with eq have "(replicate k x @ s # ss) ! k = x" by simp
    with assms(1) show False by (simp add: nth_append)
  qed
  with Suc show ?case by (simp add: has_run_Cons [of _ x] replicate_prefix_Cons)
qed simp

lemma rct_loop_iff:
  "1 \<le> count \<Longrightarrow> count < max 2 cutoff \<Longrightarrow>
   rct_loop cutoff prev count samples \<longleftrightarrow> \<not> has_run (max 2 cutoff) (replicate count prev @ samples)"
proof (induction samples arbitrary: prev count)
  case Nil
  then show ?case by (simp add: no_run_replicate)
next
  case (Cons s ss)
  show ?case
  proof (cases "s = prev")
    case True
    have snoc: "replicate count prev @ prev # ss = replicate (count + 1) prev @ ss"
      by (simp add: replicate_app_Cons_same)
    show ?thesis
    proof (cases "count + 1 < max 2 cutoff")
      case less: True
      then have "\<not> count + 1 \<ge> cutoff" using Cons.prems by auto
      moreover have "rct_loop cutoff prev (count + 1) ss \<longleftrightarrow> \<not> has_run (max 2 cutoff) (replicate (count + 1) prev @ ss)"
        using less by (intro Cons.IH) simp_all
      ultimately show ?thesis unfolding True snoc by simp
    next
      case False
      with Cons.prems have "count + 1 = max 2 cutoff" by simp
      then have "has_run (max 2 cutoff) (replicate count prev @ prev # ss)" "count + 1 \<ge> cutoff"
        using snoc unfolding has_run_def by (metis append_Nil, simp)
      with True show ?thesis by simp
    qed
  next
    case False
    with Cons.prems has_run_cut [of s prev count "max 2 cutoff" ss] Cons.IH [of 1 s] show ?thesis by simp
  qed
qed

lemma byte_counts_aux:
  "length counts = 256 \<Longrightarrow> i < 256 \<Longrightarrow>
   fold (\<lambda>s counts. counts[unat s := counts ! unat s + 1]) samples counts ! i =
     counts ! i + count_list (samples :: bytes) (of_nat i)"
proof (induction samples arbitrary: counts)
  case (Cons s ss)
  have "unat s < 256" by (rule unat_byte_less)
  moreover have "s = of_nat i \<longleftrightarrow> unat s = i"
    using Cons.prems(2) by (auto simp: unat_of_nat)
  ultimately show ?case using Cons by (auto simp: nth_list_update)
qed simp

lemma length_byte_counts [simp]: "length (byte_counts samples) = 256"
proof -
  have "length (fold (\<lambda>s counts. counts[unat s := counts ! unat s + 1]) samples counts) = length counts" for counts :: "nat list"
    by (induction samples arbitrary: counts) simp_all
  then show ?thesis by (simp add: byte_counts_def)
qed

lemma byte_counts_nth: "byte_counts samples ! unat b = count_list samples b"
  using byte_counts_aux [of "replicate 256 0" "unat b" samples] unat_byte_less [of b]
  by (simp add: byte_counts_def)

lemma max_count_less: "max_count counts < n \<longleftrightarrow> 0 < n \<and> (\<forall>c \<in> set counts. c < n)"
proof -
  have "fold (\<lambda>c m. if c > m then c else m) counts k < n \<longleftrightarrow> k < n \<and> (\<forall>c \<in> set counts. c < n)" for k
  proof (induction counts arbitrary: k)
    case (Cons c cs)
    show ?case unfolding fold_Cons o_apply Cons.IH by auto
  qed simp
  then show ?thesis by (simp add: max_count_def)
qed

lemma set_byte_counts: "set (byte_counts samples) = range (count_list samples)"
proof
  show "set (byte_counts samples) \<subseteq> range (count_list samples)"
  proof
    fix c assume "c \<in> set (byte_counts samples)"
    then obtain i where i: "i < 256" "c = byte_counts samples ! i" by (auto simp: in_set_conv_nth)
    then have "c = count_list samples (of_nat i)"
      using byte_counts_nth [of samples "of_nat i"] by (simp add: unat_of_nat)
    then show "c \<in> range (count_list samples)" by blast
  qed
  show "range (count_list samples) \<subseteq> set (byte_counts samples)"
    using unat_byte_less by (auto simp: byte_counts_nth [symmetric] intro: nth_mem)
qed

lemma max_byte_count_less:
  "max_count (byte_counts samples) < n \<longleftrightarrow> 0 < n \<and> (\<forall>b. count_list samples b < n)"
  by (auto simp: max_count_less set_byte_counts)

lemma max_byte_count_pos: "samples \<noteq> [] \<Longrightarrow> 0 < max_count (byte_counts samples)"
  using max_byte_count_less [of samples 1] by (cases samples) (auto dest: spec [of _ "hd samples"])

lemma distinct_count_list: "distinct xs \<longleftrightarrow> (\<forall>x. count_list xs x < 2)"
  by (induction xs) (auto simp: count_list_0_iff less_2_cases_iff)

section \<open>Estimates\<close>

lemma min_entropy_ge:
  assumes "length samples = 64"
  shows "6 \<le> estimate_min_entropy samples \<longleftrightarrow> max_count (byte_counts samples) < 2"
proof -
  let ?m = "max_count (byte_counts samples)"
  have "samples \<noteq> []" using assms by auto
  then have pos: "0 < ?m" by (rule max_byte_count_pos)
  then have "estimate_min_entropy samples = - log 2 (real ?m / 64)"
    using assms by (auto simp: estimate_min_entropy_def Let_def)
  also have "\<dots> = 6 - log 2 (real ?m)"
    using pos log_of_power_eq [of 64 2 6] by (simp add: log_divide)
  finally have "6 \<le> estimate_min_entropy samples \<longleftrightarrow> log 2 (real ?m) \<le> 0" by simp
  also have "\<dots> \<longleftrightarrow> ?m < 2" using pos by (simp add: log_le_zero_cancel_iff) linarith
  finally show ?thesis .
qed

lemma distinct_no_run: "distinct samples \<Longrightarrow> 2 \<le> n \<Longrightarrow> \<not> has_run n samples"
proof
  assume "distinct samples" "2 \<le> n" "has_run n samples"
  moreover from \<open>2 \<le> n\<close> have "n = Suc (Suc (n - 2))" by simp
  ultimately obtain xs b ys where "samples = xs @ replicate (Suc (Suc (n - 2))) b @ ys"
    by (metis has_run_def)
  with \<open>distinct samples\<close> show False by simp
qed

section \<open>Properties\<close>

text \<open>The repetition count test, exactly: it fails when some value occurs \<open>cutoff\<close> times in a row
  (twice, for cutoffs below two), and passes otherwise, the empty sample included.\<close>

theorem repetition_count_exact:
  "repetition_count_test samples cutoff \<longleftrightarrow> \<not> has_run (max 2 cutoff) samples"
proof (cases samples)
  case Nil
  then show ?thesis by (simp add: repetition_count_test_def has_run_def)
next
  case (Cons s ss)
  then show ?thesis using rct_loop_iff [of 1 cutoff s ss] by (simp add: repetition_count_test_def)
qed

text \<open>The adaptive proportion test, exactly: it passes when no byte value occurs \<open>cutoff\<close> times
  or more in the sample.\<close>

theorem adaptive_proportion_exact:
  "adaptive_proportion_test samples cutoff \<longleftrightarrow> samples = [] \<or> (\<forall>b. count_list samples b < cutoff)"
  by (auto simp: adaptive_proportion_test_def max_byte_count_less)

text \<open>The health check of a source accepts its 64-byte buffer only when all 64 bytes are
  different: a threshold of six bits of min-entropy leaves no room for a single repeated
  value, and the other two tests then never fail.\<close>

theorem health_check_needs_distinct:
  assumes "length (es_raw src) = 64"
  shows "health_check_source src = Inr () \<longleftrightarrow> distinct (es_raw src)"
proof -
  let ?s = "es_raw src"
  have d: "6 \<le> estimate_min_entropy ?s \<longleftrightarrow> distinct ?s"
    by (simp add: min_entropy_ge [OF assms] max_byte_count_less distinct_count_list)
  have "repetition_count_test ?s 10 \<and> adaptive_proportion_test ?s 32" if "distinct ?s"
  proof
    show "repetition_count_test ?s 10"
      using distinct_no_run [OF that, of 10] rct_loop_iff [of 1 10 "hd ?s" "tl ?s"] assms
      by (cases ?s) (simp_all add: repetition_count_test_def)
    show "adaptive_proportion_test ?s 32"
      using that by (auto simp: adaptive_proportion_test_def max_byte_count_less distinct_count_list
          intro: order.strict_trans2 [of _ 2])
  qed
  with d show ?thesis
    using assms by (auto simp: health_check_source_def monitor_entropy_quality_def not_less [symmetric])
qed

theorem health_check_needs_distinct_witness:
  "health_check_source (from_raw ''os'' [] (map of_nat [0..<64])) = Inr () \<and>
   health_check_source (from_raw ''os'' [] (0 # map of_nat [0..<63])) \<noteq> Inr ()"
proof -
  have "distinct (map of_nat [0..<64] :: bytes)"
    by (auto simp: distinct_map inj_on_def word_unat_eq_iff unat_of_nat)
  moreover have "(0 :: byte) \<in> set (map of_nat [0..<63])" by (auto simp: image_iff intro: bexI [of _ 0])
  then have "\<not> distinct (0 # map of_nat [0..<63] :: bytes)" by simp
  ultimately show ?thesis
    using health_check_needs_distinct [of "from_raw ''os'' [] (map of_nat [0..<64])"]
      health_check_needs_distinct [of "from_raw ''os'' [] (0 # map of_nat [0..<63])"]
    by (simp add: from_raw_def)
qed

end
