(* ===== verification/Entropy_Sources.thy ===== *)
theory Entropy_Sources
  imports Entropy
begin

text \<open>
  The ambient constructors of \<^verbatim>\<open>src/src/entropy_sources.rs\<close> and the list of sources that
  \<open>harvest_multi_source\<close> collects. What a constructor reads off the machine (clocks, a stack
  and a heap address, the thread and process identifiers, how long a loop over memory
  took, the hardware generator) is a field of \<open>readings\<close>; the work done while a timer runs
  has no other effect.
\<close>

type_synonym u128 = "128 word"

record readings =
  rd_wall :: "u128 option"
  rd_stack :: u64
  rd_thread :: u64
  rd_elapsed :: u128
  rd_hw_wall :: "u128 option"
  rd_pid :: u32
  rd_heap :: u64
  rd_cache :: u128
  rd_fault :: u128
  rd_interrupt :: u128
  rd_contention :: u128
  rd_hw_random :: "u64 option list"

definition SOURCE_LEN :: nat where "SOURCE_LEN = 64"

text \<open>\<open>raw[..k].copy_from_slice(bs)\<close> on a buffer of zeros.\<close>

definition padded :: "bytes \<Rightarrow> bytes" where
  "padded bs = bs @ zeros (SOURCE_LEN - length bs)"

definition unwrap_or_0 :: "u128 option \<Rightarrow> u128" where
  "unwrap_or_0 x = (case x of Some v \<Rightarrow> v | None \<Rightarrow> 0)"

definition wall_clock :: "readings \<Rightarrow> entropy_source" where
  "wall_clock r = from_raw ''wall_clock'' ENTROPY_SOURCE_WALL_CLOCK (padded (to_le_bytes 16 (unwrap_or_0 (rd_wall r))))"

definition stack_addr :: "readings \<Rightarrow> entropy_source" where
  "stack_addr r = from_raw ''stack_addr'' ENTROPY_SOURCE_STACK_ADDR (padded (u64_le (rd_stack r)))"

definition thread_id :: "readings \<Rightarrow> entropy_source" where
  "thread_id r = from_raw ''thread_id'' ENTROPY_SOURCE_THREAD_ID (padded (u64_le (rd_thread r)))"

definition hw_counter :: "xof \<Rightarrow> readings \<Rightarrow> entropy_source" where
  "hw_counter xof r =
     (let h = update shake_new (ascii ''veil7:L1:src:hw-counter-combine:v1'');
          h = update h (to_le_bytes 16 (rd_elapsed r));
          h = update h (to_le_bytes 16 (unwrap_or_0 (rd_hw_wall r)))
      in from_raw ''hw_counter'' ENTROPY_SOURCE_HW_COUNTER (squeeze xof h SOURCE_LEN))"

definition process_id :: "readings \<Rightarrow> entropy_source" where
  "process_id r = from_raw ''process_id'' ENTROPY_SOURCE_PROCESS_ID (padded (to_le_bytes 4 (rd_pid r)))"

definition memory_allocation_addr :: "readings \<Rightarrow> entropy_source" where
  "memory_allocation_addr r =
     from_raw ''memory_allocation_addr'' ENTROPY_SOURCE_MEMORY_ALLOC (padded (u64_le (rd_heap r)))"

definition cpu_cache_timing :: "readings \<Rightarrow> entropy_source" where
  "cpu_cache_timing r = from_raw ''cpu_cache_timing'' ENTROPY_SOURCE_CPU_CACHE (padded (to_le_bytes 16 (rd_cache r)))"

definition page_fault_timing :: "readings \<Rightarrow> entropy_source" where
  "page_fault_timing r = from_raw ''page_fault_timing'' ENTROPY_SOURCE_PAGE_FAULT (padded (to_le_bytes 16 (rd_fault r)))"

definition interrupt_timing :: "readings \<Rightarrow> entropy_source" where
  "interrupt_timing r = from_raw ''interrupt_timing'' ENTROPY_SOURCE_INTERRUPT (padded (to_le_bytes 16 (rd_interrupt r)))"

definition memory_contention_timing :: "readings \<Rightarrow> entropy_source" where
  "memory_contention_timing r =
     from_raw ''memory_contention_timing'' ENTROPY_SOURCE_MEMORY_CONTENTION (padded (to_le_bytes 16 (rd_contention r)))"

text \<open>
  The loop of \<open>hardware_rng\<close> over the eight chunks: the words read before the first
  failure. The list holds the answers of the generator; one that has no more fails.
\<close>

fun hw_words :: "nat \<Rightarrow> u64 option list \<Rightarrow> bytes" where
  "hw_words (Suc k) (Some val # answers) = u64_le val @ hw_words k answers"
| "hw_words _ _ = []"

definition hardware_rng :: "xof \<Rightarrow> readings \<Rightarrow> entropy_source" where
  "hardware_rng xof r =
     (let words = hw_words 8 (rd_hw_random r); raw = padded words; filled = length words in
      if filled = 0 then from_raw ''hw_rng_unavailable'' ENTROPY_SOURCE_HW_COUNTER (zeros SOURCE_LEN)
      else
        let h = update shake_new (ascii ''veil7:L1:src:hw-rng:v1'');
            h = update h raw
        in from_raw ''hw_rng'' ENTROPY_SOURCE_HW_COUNTER (squeeze xof h SOURCE_LEN))"

text \<open>The builds without the standard library: no generator, and sources that contribute zeros.\<close>

definition os_csprng_primary_no_std :: "string + entropy_source" where
  "os_csprng_primary_no_std = Inl ''os_csprng_primary unavailable in no_std without external entropy''"

definition os_csprng_secondary_no_std :: "string + entropy_source" where
  "os_csprng_secondary_no_std = Inl ''os_csprng_secondary unavailable in no_std''"

definition wall_clock_no_std :: entropy_source where
  "wall_clock_no_std = from_raw ''wall_clock'' ENTROPY_SOURCE_WALL_CLOCK (zeros SOURCE_LEN)"

definition thread_id_no_std :: entropy_source where
  "thread_id_no_std = from_raw ''thread_id'' ENTROPY_SOURCE_THREAD_ID (zeros SOURCE_LEN)"

definition process_id_no_std :: entropy_source where
  "process_id_no_std = from_raw ''process_id'' ENTROPY_SOURCE_PROCESS_ID (zeros SOURCE_LEN)"

definition hw_counter_no_std :: entropy_source where
  "hw_counter_no_std = from_raw ''hw_counter'' ENTROPY_SOURCE_HW_COUNTER (zeros SOURCE_LEN)"

section \<open>The sources of a harvest\<close>

definition ambient_sources :: "xof \<Rightarrow> readings \<Rightarrow> entropy_source list" where
  "ambient_sources xof r =
     [wall_clock r, stack_addr r, thread_id r, hw_counter xof r, process_id r, memory_allocation_addr r,
      cpu_cache_timing r, page_fault_timing r, interrupt_timing r, memory_contention_timing r]"

definition harvest_machine :: "xof \<Rightarrow> readings \<Rightarrow> bytes \<Rightarrow> world \<Rightarrow> bytes result \<times> world" where
  "harvest_machine xof r personalization w = harvest_multi_source xof (ambient_sources xof r) personalization w"

text \<open>What the generator contributes, and the answers and readings that a harvest can see.\<close>

definition generator_sources :: "bytes \<Rightarrow> bytes option \<Rightarrow> entropy_source list" where
  "generator_sources prim sec =
     from_raw ''os_csprng_primary'' ENTROPY_SOURCE_OS_PRIMARY prim #
     (case sec of None \<Rightarrow> [] | Some s \<Rightarrow> [from_raw ''os_csprng_secondary'' ENTROPY_SOURCE_OS_SECONDARY s])"

definition same_readings :: "xof \<Rightarrow> readings \<Rightarrow> readings \<Rightarrow> bool" where
  "same_readings xof r r' \<longleftrightarrow>
     unwrap_or_0 (rd_wall r) = unwrap_or_0 (rd_wall r') \<and> rd_stack r = rd_stack r' \<and> rd_thread r = rd_thread r' \<and>
     es_raw (hw_counter xof r) = es_raw (hw_counter xof r') \<and> rd_pid r = rd_pid r' \<and> rd_heap r = rd_heap r' \<and>
     rd_cache r = rd_cache r' \<and> rd_fault r = rd_fault r' \<and> rd_interrupt r = rd_interrupt r' \<and>
     rd_contention r = rd_contention r'"

definition whiten_message :: "entropy_source \<Rightarrow> bytes" where
  "whiten_message s = es_domain_tag s @ es_raw s"

lemmas source_defs =
  wall_clock_def stack_addr_def thread_id_def hw_counter_def process_id_def memory_allocation_addr_def
  cpu_cache_timing_def page_fault_timing_def interrupt_timing_def memory_contention_timing_def from_raw_def
  Let_def

lemma whiten_eq: "whiten xof s = shake256_ema xof 64 (whiten_message s)"
  by (simp add: whiten_def Let_def whiten_message_def squeeze_eq)

lemma length_padded: "length bs \<le> 64 \<Longrightarrow> length (padded bs) = 64"
  by (simp add: padded_def SOURCE_LEN_def)

lemma padded_inj: "length bs = length cs \<Longrightarrow> padded bs = padded cs \<longleftrightarrow> bs = cs"
  by (auto simp: padded_def)

lemma length_hw_words: "length (hw_words k answers) \<le> 8 * k"
  by (induction k answers rule: hw_words.induct) simp_all

lemma length_hardware_rng: "length (es_raw (hardware_rng xof r)) = 64"
  by (simp add: hardware_rng_def Let_def from_raw_def SOURCE_LEN_def)

lemma length_ambient_sources [simp]: "length (ambient_sources xof r) = 10"
  by (simp add: ambient_sources_def)

lemma ambient_raw_length: "s \<in> set (ambient_sources xof r) \<Longrightarrow> length (es_raw s) = 64"
  by (auto simp: ambient_sources_def source_defs length_padded SOURCE_LEN_def)

lemma collect_sources_eq:
  "fst (collect_sources A w) =
     (case os_random w (calls w) 64 of None \<Rightarrow> Inl Entropy
      | Some prim \<Rightarrow> Inr (generator_sources prim (os_random w (Suc (calls w)) 64) @ A))"
  by (simp add: collect_sources_def os_csprng_primary_def os_csprng_secondary_def getrandom_def generator_sources_def
      split: option.split)

lemma harvest_machine_eq:
  "fst (collect_sources (ambient_sources xof r) w) = Inr S \<Longrightarrow>
     fst (harvest_machine xof r p w) = Inr (finalize_pool xof p (fold_sources xof S))"
  by (auto simp: harvest_machine_def harvest_multi_source_def split: prod.splits)

text \<open>The tags are those of the list of all tags, in order.\<close>

lemma source_tags:
  "map es_domain_tag (generator_sources prim (Some s) @ ambient_sources xof r) = take 12 (drop 13 all_tags)"
  by (simp add: generator_sources_def ambient_sources_def source_defs all_tags_def)

lemma length_all_tags: "length all_tags = 35"
  by (simp add: all_tags_def)

lemma whiten_messages_distinct:
  "distinct (map whiten_message (generator_sources prim sec @ ambient_sources xof r))"
proof -
  have full: "distinct (map whiten_message (generator_sources prim (Some s) @ ambient_sources xof r))" for s
  proof -
    let ?S = "generator_sources prim (Some s) @ ambient_sources xof r"
    have tag: "es_domain_tag (?S ! i) = all_tags ! (13 + i)" if "i < 12" for i
    proof -
      have "length ?S = 12" by (simp add: generator_sources_def)
      then have "es_domain_tag (?S ! i) = map es_domain_tag ?S ! i" using that by (metis nth_map)
      also have "\<dots> = all_tags ! (13 + i)" unfolding source_tags using that by (simp add: length_all_tags)
      finally show ?thesis .
    qed
    have "length ?S = 12" by (simp add: generator_sources_def)
    then show ?thesis
      by (simp add: distinct_conv_nth whiten_message_def tag all_tags_append_neq length_all_tags del: map_append)
  qed
  show ?thesis
    using full by (cases sec) (auto simp: generator_sources_def)
qed

text \<open>The collected list determines everything the harvest reads.\<close>

lemma ambient_sources_inj: "ambient_sources xof r = ambient_sources xof r' \<longleftrightarrow> same_readings xof r r'"
  by (auto simp: ambient_sources_def source_defs same_readings_def padded_inj to_le_bytes_inj)

lemma generator_sources_inj:
  "generator_sources prim sec @ ambient_sources xof r = generator_sources prim' sec' @ ambient_sources xof r' \<longleftrightarrow>
     prim = prim' \<and> sec = sec' \<and> same_readings xof r r'"
proof -
  have "generator_sources prim sec @ ambient_sources xof r = generator_sources prim' sec' @ ambient_sources xof r' \<longleftrightarrow>
      generator_sources prim sec = generator_sources prim' sec' \<and> ambient_sources xof r = ambient_sources xof r'"
    by (rule append_eq_append_conv) simp
  then show ?thesis
    by (auto simp: ambient_sources_inj generator_sources_def from_raw_def split: option.splits)
qed

lemma same_tags:
  assumes "length (generator_sources prim sec) = length (generator_sources prim' sec')"
  shows "map es_domain_tag (generator_sources prim sec @ ambient_sources xof r) =
    map es_domain_tag (generator_sources prim' sec' @ ambient_sources xof r')"
  using assms
  by (auto simp: generator_sources_def ambient_sources_def source_defs split: option.splits)

lemma fold_sources_sensitive:
  assumes "k < length S" and "T = S[k := T ! k]" and "whiten xof (S ! k) \<noteq> whiten xof (T ! k)"
  shows "fold_sources xof S \<noteq> fold_sources xof T"
proof -
  have S: "S = take k S @ S ! k # drop (Suc k) S" using assms(1) by (rule id_take_nth_drop)
  have T: "T = take k S @ T ! k # drop (Suc k) S" using assms(1,2) by (simp add: upd_conv_take_nth_drop)
  have len: "length (whiten xof s) = 64" for s by (simp add: whiten_eq)
  then have "list_all (\<lambda>b. length b = 64) (map (whiten xof) (take k S) @ map (whiten xof) (drop (Suc k) S))"
    by (auto simp: list_all_iff)
  from xor_fold_sensitive [OF this _ len len, of "zeros 64" "S ! k" "T ! k"] assms(3)
  have "fold_sources xof (take k S @ S ! k # drop (Suc k) S) \<noteq> fold_sources xof (take k S @ T ! k # drop (Suc k) S)"
    by (auto simp: fold_sources_def SEED_LEN_def)
  with S T show ?thesis by metis
qed

text \<open>A hash whose digests differ in their first byte only, to evaluate the pool with.\<close>

lemma xor_fold_first_byte:
  "list_all (\<lambda>b. \<exists>c. b = c # zeros 63) bufs \<Longrightarrow> \<exists>c. xor_fold bufs (c0 # zeros 63) = c # zeros 63"
proof (induction bufs arbitrary: c0)
  case (Cons b bufs)
  then obtain c where "b = c # zeros 63" by auto
  then have "xor_bytes (c0 # zeros 63) b = (c0 XOR c) # zeros 63"
    by (simp add: xor_bytes_def zip_replicate map_replicate_const)
  with Cons show ?case by simp
qed simp

lemma fold_sources_first_byte:
  assumes "\<And>s. \<exists>c. whiten xof s = c # zeros 63"
  shows "\<exists>c. fold_sources xof S = c # zeros 63"
proof -
  have zeros: "zeros 64 = 0 # zeros 63" by (simp add: numeral_eq_Suc)
  show ?thesis
    unfolding fold_sources_def SEED_LEN_def zeros
    by (rule xor_fold_first_byte) (use assms in \<open>auto simp: list_all_iff\<close>)
qed

section \<open>Properties\<close>

text \<open>C35. Everything the machine is asked for reaches the seed: take two harvests whose primary
  generator answers. The collected lists of sources are equal exactly when the answers of
  both generators and all readings are (the wall clock with its default, the cycle counter
  and its clock through their hash). No two sources of a list are whitened on the same
  message, so they cancel in the XOR pool only by a collision. And when the lists differ in
  the raw bytes of one source, the two seeds differ, whatever the others contribute, unless
  the hash collides on that source or on the two final pools.\<close>

theorem sources_reach_seed:
  assumes "os_random w (calls w) 64 = Some prim" and "os_random w (Suc (calls w)) 64 = sec"
    and "os_random w' (calls w') 64 = Some prim'" and "os_random w' (Suc (calls w')) 64 = sec'"
    and "fst (collect_sources (ambient_sources xof r) w) = Inr S"
    and "fst (collect_sources (ambient_sources xof r') w') = Inr S'"
  shows "(S = S' \<longleftrightarrow> prim = prim' \<and> sec = sec' \<and> same_readings xof r r') \<and>
    distinct (map whiten_message S) \<and>
    (\<forall>k < length S. S' = S[k := S' ! k] \<and> es_raw (S ! k) \<noteq> es_raw (S' ! k) \<and>
       collision_free xof 64 {whiten_message (S ! k), whiten_message (S' ! k)} \<and>
       collision_free xof 64 {ENTROPY_FINALIZE @ p @ fold_sources xof S, ENTROPY_FINALIZE @ p @ fold_sources xof S'} \<longrightarrow>
       fst (harvest_machine xof r p w) \<noteq> fst (harvest_machine xof r' p w'))"
proof -
  have S: "S = generator_sources prim sec @ ambient_sources xof r"
    and S': "S' = generator_sources prim' sec' @ ambient_sources xof r'"
    using assms by (simp_all add: collect_sources_eq)
  have "fst (harvest_machine xof r p w) \<noteq> fst (harvest_machine xof r' p w')"
    if k: "k < length S" and upd: "S' = S[k := S' ! k]" and raw: "es_raw (S ! k) \<noteq> es_raw (S' ! k)"
      and c1: "collision_free xof 64 {whiten_message (S ! k), whiten_message (S' ! k)}"
      and c2: "collision_free xof 64 {ENTROPY_FINALIZE @ p @ fold_sources xof S, ENTROPY_FINALIZE @ p @ fold_sources xof S'}"
    for k
  proof -
    have len: "length S' = length S" using upd by (metis length_list_update)
    then have "map es_domain_tag S = map es_domain_tag S'"
      unfolding S S' by (intro same_tags) simp
    then have "es_domain_tag (S ! k) = es_domain_tag (S' ! k)" using k len by (metis nth_map)
    then have "whiten xof (S ! k) \<noteq> whiten xof (S' ! k)"
      using raw collision_freeD [OF c1] by (auto simp: whiten_eq whiten_message_def)
    then have "fold_sources xof S \<noteq> fold_sources xof S'" by (rule fold_sources_sensitive [OF k upd])
    then have "finalize_pool xof p (fold_sources xof S) \<noteq> finalize_pool xof p (fold_sources xof S')"
      using collision_freeD [OF c2] by (auto simp: finalize_pool_def SEED_LEN_def squeeze_eq)
    then show ?thesis by (simp add: harvest_machine_eq [OF assms(5)] harvest_machine_eq [OF assms(6)])
  qed
  moreover have "S = S' \<longleftrightarrow> prim = prim' \<and> sec = sec' \<and> same_readings xof r r'"
    unfolding S S' by (rule generator_sources_inj)
  moreover have "distinct (map whiten_message S)" unfolding S by (rule whiten_messages_distinct)
  ultimately show ?thesis by blast
qed

text \<open>Two machines that differ in the process identifier only.\<close>

theorem sources_reach_seed_witness:
  "\<exists>r r' w. fst (harvest_machine (\<lambda>m i. if i = 0 then sum_list m else 0) r [] w) \<noteq>
            fst (harvest_machine (\<lambda>m i. if i = 0 then sum_list m else 0) r' [] w)"
proof -
  let ?xof = "(\<lambda>m i. if i = 0 then sum_list m else 0) :: xof"
  let ?w = "\<lparr>os_random = \<lambda>k n. Some (zeros n), clock_nanos = \<lambda>_. 0, probe_addr = \<lambda>_. 0, calls = 0\<rparr> :: world"
  define r where "r = (\<lambda>pid. \<lparr>rd_wall = None, rd_stack = 0, rd_thread = 0, rd_elapsed = 0, rd_hw_wall = None,
     rd_pid = pid, rd_heap = 0, rd_cache = 0, rd_fault = 0, rd_interrupt = 0, rd_contention = 0, rd_hw_random = []\<rparr>)"
  define S where "S = (\<lambda>pid. generator_sources (zeros 64) (Some (zeros 64)) @ ambient_sources ?xof (r pid))"
  have digest: "shake256_ema ?xof 64 m = sum_list m # zeros 63" for m
  proof -
    have "[0..<64] = 0 # [1..<64]" by (simp add: upt_conv_Cons)
    moreover have "map (?xof m) [1..<64] = zeros 63" by (rule nth_equalityI) simp_all
    ultimately show ?thesis by (simp add: shake256_ema_def)
  qed
  have collect: "fst (collect_sources (ambient_sources ?xof (r pid)) ?w) = Inr (S pid)" for pid
    by (simp add: collect_sources_eq S_def)
  have nth: "S pid ! 6 = from_raw ''process_id'' ENTROPY_SOURCE_PROCESS_ID (padded (to_le_bytes 4 pid))" for pid
    by (simp add: S_def generator_sources_def ambient_sources_def process_id_def r_def)
  have sum: "sum_list (whiten_message (S 1 ! 6)) \<noteq> sum_list (whiten_message (S 2 ! 6))"
    unfolding nth by (simp add: whiten_message_def from_raw_def padded_def sum_list_replicate to_le_bytes_def upt_rec)
  have coll: "collision_free ?xof 64 {whiten_message (S 1 ! 6), whiten_message (S 2 ! 6)}"
    using sum by (intro collision_free_pairI [of 0]) simp_all
  have len: "6 < length (S 1)" by (simp add: S_def generator_sources_def)
  have upd: "S 2 = (S 1)[6 := S 2 ! 6]"
    by (simp add: S_def generator_sources_def ambient_sources_def source_defs r_def)
  have raw: "es_raw (S 1 ! 6) \<noteq> es_raw (S 2 ! 6)"
    using sum by (simp add: nth whiten_message_def from_raw_def) metis
  obtain c d where cd: "fold_sources ?xof (S 1) = c # zeros 63" "fold_sources ?xof (S 2) = d # zeros 63"
    using fold_sources_first_byte [of ?xof] by (metis digest whiten_eq)
  have "whiten ?xof (S 1 ! 6) \<noteq> whiten ?xof (S 2 ! 6)" using sum by (simp add: whiten_eq digest)
  from fold_sources_sensitive [OF len upd this]
  have "collision_free ?xof 64 {ENTROPY_FINALIZE @ [] @ fold_sources ?xof (S 1), ENTROPY_FINALIZE @ [] @ fold_sources ?xof (S 2)}"
    unfolding cd by (intro collision_free_pairI [of 0]) (simp_all add: sum_list_replicate)
  with sources_reach_seed [OF _ refl _ refl collect collect, of "zeros 64" "zeros 64" 1 2 "[]"] len upd raw coll
  have "fst (harvest_machine ?xof (r 1) [] ?w) \<noteq> fst (harvest_machine ?xof (r 2) [] ?w)" by simp
  then show ?thesis by blast
qed

end
