(* ===== verification/Seed_Memory.thy ===== *)
theory Seed_Memory
  imports Memlock Entropy
begin

text \<open>
  Seeds live in pinned buffers: the type \<open>Seed\<close> and the two harvests of
  \<^verbatim>\<open>src/src/layers/l1_entropy.rs\<close> with the memory they allocate, over the process state of
  layer L0. The other theories pass seeds as byte strings; the refinement at the end says
  that this loses nothing but the place where the bytes are.
\<close>

section \<open>Seeds\<close>

text \<open>A seed is the number of its buffer.\<close>

definition seed_as_bytes :: "nat \<Rightarrow> process \<Rightarrow> bytes" where
  "seed_as_bytes i st = as_bytes i st"

definition seed_is_locked :: "nat \<Rightarrow> process \<Rightarrow> bool" where
  "seed_is_locked i st = is_locked i st"

definition seed_from_bytes :: "kernel \<Rightarrow> bool \<Rightarrow> nat \<Rightarrow> bytes \<Rightarrow> process \<Rightarrow> nat \<times> process" where
  "seed_from_bytes K ok addr raw st =
     (let (i, st) = locked_new K ok addr SEED_LEN st;
          (_, st) = fill_from i raw st
      in (i, st))"

text \<open>\<open>reader.read(locked.as_mut_bytes())\<close>: the whole array is overwritten in place.\<close>

definition write_locked :: "nat \<Rightarrow> bytes \<Rightarrow> process \<Rightarrow> process" where
  "write_locked i bs st = set_buffer i ((buffers st ! i)\<lparr>lb_buf := bs\<rparr>) st"

definition harvest_locked ::
  "kernel \<Rightarrow> bool \<Rightarrow> nat \<Rightarrow> xof \<Rightarrow> bytes \<Rightarrow> world \<Rightarrow> process \<Rightarrow> nat result \<times> world \<times> process" where
  "harvest_locked K ok addr xof personalization w st =
     (case mix_rounds xof personalization [0..<MIX_ITERATIONS] (zeros SEED_LEN) w of
        (Inl e, w) \<Rightarrow> (Inl e, w, st)
      | (Inr pool, w) \<Rightarrow>
          (let (i, st) = locked_new K ok addr SEED_LEN st
           in (Inr i, w, write_locked i (finalize_pool xof personalization pool) st)))"

definition harvest_multi_source_locked ::
  "kernel \<Rightarrow> bool \<Rightarrow> nat \<Rightarrow> xof \<Rightarrow> entropy_source list \<Rightarrow> bytes \<Rightarrow> world \<Rightarrow> process \<Rightarrow>
     nat result \<times> world \<times> process" where
  "harvest_multi_source_locked K ok addr xof ambient personalization w st =
     (case collect_sources ambient w of
        (Inl e, w) \<Rightarrow> (Inl e, w, st)
      | (Inr sources, w) \<Rightarrow>
          (let pool = fold_sources xof sources;
               (i, st) = locked_new K ok addr SEED_LEN st
           in (Inr i, w, write_locked i (finalize_pool xof personalization pool) st)))"

section \<open>The life of a buffer\<close>

lemma locked_new_fst [simp]: "fst (locked_new K ok addr n st) = length (buffers st)"
  by (simp add: locked_new_def Let_def)

lemma locked_new_buffers:
  "\<exists>l. buffers (snd (locked_new K ok addr n st)) =
      buffers st @ [\<lparr>lb_base = addr, lb_buf = zeros n, lb_phase = Live l\<rparr>] \<and>
     usage (snd (locked_new K ok addr n st)) = usage st + (if l then of_nat n else 0) \<and>
     rlimit (snd (locked_new K ok addr n st)) = rlimit st"
  by (rule exI [of _ "\<not> is_approaching_mlock_limit st \<and> ok"]) (simp add: locked_new_def step_defs)

text \<open>Filling a fresh buffer and dropping it again leaves everything else as it was.\<close>

lemma write_then_drop:
  assumes "locked_new K ok addr n st = (i, st1)" and "length bs = n" and "st2 = write_locked i bs st1"
  shows "i = length (buffers st)" and "as_bytes i st2 = bs"
    and "buffers (locked_drop K i st2) = buffers st @ [\<lparr>lb_base = addr, lb_buf = zeros n, lb_phase = Freed\<rparr>]"
    and "usage (locked_drop K i st2) = usage st"
proof -
  obtain l where l: "buffers st1 = buffers st @ [\<lparr>lb_base = addr, lb_buf = zeros n, lb_phase = Live l\<rparr>]"
      "usage st1 = usage st + (if l then of_nat n else 0)"
    using locked_new_buffers [of K ok addr n st] assms(1) by auto
  show i: "i = length (buffers st)"
    using locked_new_fst [of K ok addr n st] assms(1) by simp
  then have b: "buffers st2 = buffers st @ [\<lparr>lb_base = addr, lb_buf = bs, lb_phase = Live l\<rparr>]"
    using l(1) assms(3) by (simp add: write_locked_def set_buffer_def nth_append)
  then show "as_bytes i st2 = bs"
    by (simp add: as_bytes_def i)
  have u: "usage st2 = usage st1"
    by (simp add: assms(3) write_locked_def set_buffer_def)
  show "buffers (locked_drop K i st2) = buffers st @ [\<lparr>lb_base = addr, lb_buf = zeros n, lb_phase = Freed\<rparr>]"
    using b assms(2) by (cases l) (simp_all add: locked_drop_def is_locked_def step_defs i)
  show "usage (locked_drop K i st2) = usage st"
    using b u l(2) assms(2) by (cases l) (simp_all add: locked_drop_def is_locked_def step_defs i)
qed

lemma length_finalize_pool [simp]: "length (finalize_pool xof p pool) = 64"
  by (simp add: finalize_pool_def Let_def SEED_LEN_def)

lemma harvest_locked_eq:
  "harvest_locked K ok addr xof p w st =
     (case harvest xof p w of
        (Inl e, w) \<Rightarrow> (Inl e, w, st)
      | (Inr seed, w) \<Rightarrow> (let (i, st) = locked_new K ok addr 64 st in (Inr i, w, write_locked i seed st)))"
  by (simp add: harvest_locked_def harvest_def SEED_LEN_def split: prod.split sum.split)

lemma harvest_multi_source_locked_eq:
  "harvest_multi_source_locked K ok addr xof ambient p w st =
     (case harvest_multi_source xof ambient p w of
        (Inl e, w) \<Rightarrow> (Inl e, w, st)
      | (Inr seed, w) \<Rightarrow> (let (i, st) = locked_new K ok addr 64 st in (Inr i, w, write_locked i seed st)))"
  by (simp add: harvest_multi_source_locked_def harvest_multi_source_def SEED_LEN_def Let_def
        split: prod.split sum.split)

section \<open>The refinement\<close>

text \<open>What both harvests promise, stated once for a harvest and its locked counterpart.\<close>

definition seed_refines ::
  "kernel \<Rightarrow> process \<Rightarrow> bytes result \<times> world \<Rightarrow> nat result \<times> world \<times> process \<Rightarrow> bool" where
  "seed_refines K st plain pinned_run \<longleftrightarrow>
     (case pinned_run of
        (Inl e, w', st') \<Rightarrow> plain = (Inl e, w') \<and> st' = st
      | (Inr i, w', st') \<Rightarrow>
          plain = (Inr (seed_as_bytes i st'), w') \<and> i = length (buffers st) \<and>
          take i (buffers st') = buffers st \<and>
          (let st'' = locked_drop K i st' in
           take i (buffers st'') = buffers st \<and> usage st'' = usage st \<and> seed_as_bytes i st'' = zeros 64))"

lemma seed_refinesI:
  assumes "\<And>seed w'. plain = (Inr seed, w') \<Longrightarrow> length seed = 64"
  shows "seed_refines K st plain
     (case plain of (Inl e, w) \<Rightarrow> (Inl e, w, st)
      | (Inr seed, w) \<Rightarrow> (let (i, st) = locked_new K ok addr 64 st in (Inr i, w, write_locked i seed st)))"
proof (cases plain)
  case (Pair r w')
  show ?thesis
  proof (cases r)
    case (Inr seed)
    obtain i st1 where new: "locked_new K ok addr 64 st = (i, st1)" by fastforce
    have len: "length seed = 64" using assms Pair Inr by simp
    have "take i (buffers (write_locked i seed st1)) = buffers st"
      using locked_new_buffers [of K ok addr 64 st] locked_new_fst [of K ok addr 64 st] new
      by (auto simp: write_locked_def set_buffer_def)
    then show ?thesis
      using write_then_drop [OF new len refl] Pair Inr new
      by (simp add: seed_refines_def seed_as_bytes_def as_bytes_def)
  qed (simp add: Pair seed_refines_def)
qed

text \<open>C26. Seeds in pinned memory: both harvests, run with the buffers they allocate, return the
  bytes that the plain harvest computes, and allocate nothing when they fail. No existing
  buffer changes, and when the seed is dropped its buffer holds zeros and the lock counter
  is what it was before the harvest, whether or not the kernel granted the lock.\<close>

theorem harvest_locked_refines:
  "seed_refines K st (harvest xof p w) (harvest_locked K ok addr xof p w st) \<and>
   seed_refines K st (harvest_multi_source xof ambient p w) (harvest_multi_source_locked K ok addr xof ambient p w st)"
proof
  show "seed_refines K st (harvest xof p w) (harvest_locked K ok addr xof p w st)"
    unfolding harvest_locked_eq
    by (rule seed_refinesI) (auto simp: harvest_def split: prod.splits sum.splits)
  show "seed_refines K st (harvest_multi_source xof ambient p w) (harvest_multi_source_locked K ok addr xof ambient p w st)"
    unfolding harvest_multi_source_locked_eq
    by (rule seed_refinesI) (auto simp: harvest_multi_source_def split: prod.splits sum.splits)
qed

text \<open>\<open>from_bytes\<close> keeps its argument.\<close>

lemma seed_from_bytes_roundtrip:
  assumes "length raw = 64" and "seed_from_bytes K ok addr raw st = (i, st')"
  shows "seed_as_bytes i st' = raw"
proof -
  obtain st1 where new: "locked_new K ok addr 64 st = (i, st1)" and st': "st' = snd (fill_from i raw st1)"
    using assms(2) by (auto simp: seed_from_bytes_def SEED_LEN_def split: prod.splits)
  have "i = length (buffers st)"
    using locked_new_fst [of K ok addr 64 st] new by simp
  then show ?thesis
    using locked_new_buffers [of K ok addr 64 st] new assms(1)
    by (auto simp: st' seed_as_bytes_def as_bytes_def fill_from_def set_buffer_def Let_def)
qed

end
