(* ===== verification/Sys_Probes.thy ===== *)
theory Sys_Probes
  imports Prelude
begin

unbundle bit_operations_syntax

text \<open>
  The probes of the operating system and the processor in \<^verbatim>\<open>src/src/layers/l0_memlock.rs\<close>: the
  resource limit, the hardware random number instructions, and the reader of the kernel's
  status file. What the system call, the instruction or the file returned is an argument. Text
  is a list of Unicode code points, as Rust's string functions see it.
\<close>

section \<open>Limits and hardware random numbers\<close>

text \<open>The arguments are the return value of \<open>getrlimit\<close> and the field \<open>rlim_cur\<close> it filled in.\<close>

definition get_mlock_limit :: "int \<Rightarrow> u64 \<Rightarrow> nat option" where
  "get_mlock_limit ret rlim_cur = (if ret = 0 then Some (unat rlim_cur) else None)"

definition hw_rdrand64 :: "u64 \<Rightarrow> byte \<Rightarrow> u64 option" where
  "hw_rdrand64 val ok = (if ok \<noteq> 0 then Some val else None)"

definition HWCAP_RNG :: u64 where "HWCAP_RNG = push_bit 27 1"

definition hw_rndr64 :: "u64 \<Rightarrow> u64 \<Rightarrow> u64 \<Rightarrow> u64 option" where
  "hw_rndr64 hwcap val nzcv =
     (if hwcap AND HWCAP_RNG = 0 then None
      else if nzcv AND push_bit 30 1 = 0 then Some val else None)"

text \<open>The build targets: the instruction's outputs on x86, its outputs and the feature word on ARM.\<close>

datatype target = X86_64 u64 byte | Aarch64_Std u64 u64 u64 | Aarch64_NoStd | Other_Arch

fun hw_random_u64 :: "target \<Rightarrow> u64 option" where
  "hw_random_u64 (X86_64 val ok) = hw_rdrand64 val ok"
| "hw_random_u64 (Aarch64_Std hwcap val nzcv) = hw_rndr64 hwcap val nzcv"
| "hw_random_u64 Aarch64_NoStd = None"
| "hw_random_u64 Other_Arch = None"

section \<open>Text\<close>

type_synonym str = "nat list"

definition cps :: "string \<Rightarrow> str" where
  "cps s = map of_char s"

text \<open>\<open>str::lines\<close>: lines end at a line feed, which is dropped with a carriage return before it; an
  unterminated last line is kept as it is.\<close>

definition strip_cr :: "str \<Rightarrow> str" where
  "strip_cr l = (if l \<noteq> [] \<and> last l = 13 then butlast l else l)"

fun lines_from :: "str \<Rightarrow> str \<Rightarrow> str list" where
  "lines_from acc [] = (if acc = [] then [] else [rev acc])"
| "lines_from acc (c # cs) = (if c = 10 then strip_cr (rev acc) # lines_from [] cs else lines_from (c # acc) cs)"

text \<open>The code points with the property \<open>White_Space\<close>.\<close>

definition is_whitespace :: "nat \<Rightarrow> bool" where
  "is_whitespace c \<longleftrightarrow>
     9 \<le> c \<and> c \<le> 13 \<or> c \<in> {0x20, 0x85, 0xA0, 0x1680} \<or> 0x2000 \<le> c \<and> c \<le> 0x200A \<or>
     c \<in> {0x2028, 0x2029, 0x202F, 0x205F, 0x3000}"

fun words_from :: "str \<Rightarrow> str \<Rightarrow> str list" where
  "words_from acc [] = (if acc = [] then [] else [rev acc])"
| "words_from acc (c # cs) =
     (if is_whitespace c then (if acc = [] then words_from [] cs else rev acc # words_from [] cs)
      else words_from (c # acc) cs)"

text \<open>\<open>str::parse::<u64>\<close>.\<close>

fun parse_u64_digits :: "nat \<Rightarrow> str \<Rightarrow> nat option" where
  "parse_u64_digits acc [] = Some acc"
| "parse_u64_digits acc (c # cs) =
     (if 48 \<le> c \<and> c \<le> 57
      then (let acc = acc * 10 + (c - 48) in if acc < 2 ^ 64 then parse_u64_digits acc cs else None)
      else None)"

definition parse_u64 :: "str \<Rightarrow> nat option" where
  "parse_u64 s =
     (let digits = (if take 1 s = [43] then drop 1 s else s)
      in if digits = [] then None else parse_u64_digits 0 digits)"

section \<open>The status file\<close>

definition div_ceil :: "nat \<Rightarrow> nat \<Rightarrow> nat" where
  "div_ceil a b = (if a mod b > 0 then a div b + 1 else a div b)"

fun scan_status :: "nat \<Rightarrow> str list \<Rightarrow> bool" where
  "scan_status expected_bytes [] = False"
| "scan_status expected_bytes (l # ls) =
     (if take 6 l = cps ''VmLck:'' then
        (let parts = words_from [] l in
         if 2 \<le> length parts then
           (case parse_u64 (parts ! 1) of
              Some vm_lck_kb \<Rightarrow> (let expected_kb = div_ceil expected_bytes 1024 in expected_kb \<le> vm_lck_kb)
            | None \<Rightarrow> scan_status expected_bytes ls)
         else scan_status expected_bytes ls)
      else scan_status expected_bytes ls)"

text \<open>The first argument is what reading \<^verbatim>\<open>/proc/self/status\<close> returned.\<close>

definition is_memory_locked :: "str option \<Rightarrow> nat \<Rightarrow> bool" where
  "is_memory_locked status expected_bytes =
     (case status of Some s \<Rightarrow> scan_status expected_bytes (lines_from [] s) | None \<Rightarrow> False)"

section \<open>Reading what the kernel writes\<close>

fun decimal :: "nat \<Rightarrow> str" where
  "decimal n = (if n < 10 then [48 + n] else decimal (n div 10) @ [48 + n mod 10])"

declare decimal.simps [simp del]

definition vmlck_line :: "nat \<Rightarrow> nat \<Rightarrow> str" where
  "vmlck_line gap kb = cps ''VmLck:'' @ [9] @ replicate gap 32 @ decimal kb @ cps '' kB''"

lemma decimal_digits: "c \<in> set (decimal n) \<Longrightarrow> 48 \<le> c \<and> c \<le> 57"
proof (induction n rule: decimal.induct)
  case (1 n)
  show ?case
  proof (cases "n < 10")
    case False
    then have "decimal n = decimal (n div 10) @ [48 + n mod 10]" by (simp add: decimal.simps [of n])
    moreover have "n mod 10 < 10" by simp
    ultimately show ?thesis using 1 False by auto
  qed (use 1 in \<open>simp add: decimal.simps [of n]\<close>)
qed

lemma decimal_not_Nil [simp]: "decimal n \<noteq> []"
  by (subst decimal.simps) simp

lemma parse_u64_digits_append:
  "parse_u64_digits acc (xs @ ys) = Option.bind (parse_u64_digits acc xs) (\<lambda>a. parse_u64_digits a ys)"
  by (induction acc xs rule: parse_u64_digits.induct) (simp_all add: Let_def)

lemma parse_u64_digits_decimal: "n < 2 ^ 64 \<Longrightarrow> parse_u64_digits 0 (decimal n) = Some n"
proof (induction n rule: decimal.induct)
  case (1 n)
  show ?case
  proof (cases "n < 10")
    case False
    then have "decimal n = decimal (n div 10) @ [48 + n mod 10]" by (simp add: decimal.simps [of n])
    moreover have "n div 10 < 2 ^ 64" using 1(2) by simp
    moreover have "n div 10 * 10 + n mod 10 = n" by simp
    ultimately show ?thesis using 1 False by (simp add: parse_u64_digits_append Let_def)
  qed (simp add: decimal.simps [of n])
qed

lemma parse_u64_decimal:
  assumes "n < 2 ^ 64"
  shows "parse_u64 (decimal n) = Some n"
proof -
  have "take 1 (decimal n) \<noteq> [43]"
  proof
    assume "take 1 (decimal n) = [43]"
    then have "43 \<in> set (decimal n)" by (metis in_set_takeD list.set_intros(1))
    then show False using decimal_digits by fastforce
  qed
  then show ?thesis using assms by (simp add: parse_u64_def parse_u64_digits_decimal Let_def)
qed

lemma lines_from_line:
  assumes "10 \<notin> set l"
  shows "lines_from acc (l @ 10 # cs) = strip_cr (rev acc @ l) # lines_from [] cs"
  using assms by (induction l arbitrary: acc) auto

lemma words_from_word:
  assumes "list_all (\<lambda>c. \<not> is_whitespace c) u" and "is_whitespace c" and "rev acc @ u \<noteq> []"
  shows "words_from acc (u @ c # cs) = (rev acc @ u) # words_from [] cs"
  using assms by (induction u arbitrary: acc) auto

lemma words_from_gap: "words_from [] (replicate k 32 @ cs) = words_from [] cs"
  by (induction k) (simp_all add: is_whitespace_def)

lemma vmlck_words: "\<exists>rest. words_from [] (vmlck_line gap kb) = cps ''VmLck:'' # decimal kb # rest"
proof -
  have tag: "list_all (\<lambda>c. \<not> is_whitespace c) (cps ''VmLck:'')" "cps ''VmLck:'' \<noteq> []"
    by (simp_all add: cps_def is_whitespace_def)
  have digits: "list_all (\<lambda>c. \<not> is_whitespace c) (decimal kb)"
    by (auto simp: list_all_iff is_whitespace_def dest!: decimal_digits)
  have ws: "is_whitespace 9" "is_whitespace 32" by (simp_all add: is_whitespace_def)
  have kB: "cps '' kB'' = 32 # cps ''kB''" by (simp add: cps_def)
  have "words_from [] (vmlck_line gap kb) = cps ''VmLck:'' # words_from [] (decimal kb @ cps '' kB'')"
    using words_from_word [OF tag(1) ws(1), of "[]"] tag(2) by (simp add: vmlck_line_def words_from_gap)
  also have "words_from [] (decimal kb @ cps '' kB'') = decimal kb # words_from [] (cps ''kB'')"
    using words_from_word [OF digits ws(2), of "[]"] by (simp add: kB)
  finally show ?thesis by blast
qed

lemma vmlck_line_plain:
  shows "10 \<notin> set (vmlck_line gap kb)" and "strip_cr (vmlck_line gap kb) = vmlck_line gap kb"
  by (auto simp: vmlck_line_def cps_def strip_cr_def dest!: decimal_digits)

lemma div_ceil_le: "div_ceil n 1024 \<le> kb \<longleftrightarrow> n \<le> 1024 * kb"
proof -
  define q r where "q = n div 1024" and "r = n mod 1024"
  then have n: "n = 1024 * q + r" and r: "r < 1024" by simp_all
  have "div_ceil n 1024 = (if 0 < r then q + 1 else q)"
    by (simp add: div_ceil_def q_def r_def)
  moreover have "(if 0 < r then q + 1 else q) \<le> kb \<longleftrightarrow> 1024 * q + r \<le> 1024 * kb"
    using r by auto
  ultimately show ?thesis by (simp add: n)
qed

lemma scan_status_skip:
  "list_all (\<lambda>l. take 6 l \<noteq> cps ''VmLck:'') ls \<Longrightarrow> scan_status n (ls @ rest) = scan_status n rest"
  by (induction ls) simp_all

lemma lines_from_lines:
  "list_all (\<lambda>l. 10 \<notin> set l \<and> 13 \<notin> set l) ls \<Longrightarrow>
     lines_from [] (concat (map (\<lambda>l. l @ [10]) ls) @ rest) = ls @ lines_from [] rest"
proof (induction ls)
  case (Cons l ls)
  then have "strip_cr l = l" by (auto simp: strip_cr_def dest: last_in_set)
  with Cons show ?case by (simp add: lines_from_line)
qed simp

lemma scan_status_vmlck:
  assumes "kb < 2 ^ 64"
  shows "scan_status n (vmlck_line gap kb # ls) \<longleftrightarrow> n \<le> 1024 * kb"
proof -
  obtain more where "words_from [] (vmlck_line gap kb) = cps ''VmLck:'' # decimal kb # more"
    using vmlck_words by blast
  moreover have "take 6 (vmlck_line gap kb) = cps ''VmLck:''"
    by (simp add: vmlck_line_def cps_def)
  ultimately show ?thesis
    using assms by (simp add: parse_u64_decimal div_ceil_le Let_def)
qed

text \<open>Reading the kernel's status file: whatever other lines precede and follow, and however the
  number is aligned, the probe finds the line \<open>VmLck\<close> as the kernel writes it and answers
  whether that many kilobytes cover the bytes asked about, rounded up to whole kilobytes. A
  file that cannot be read answers no.\<close>

theorem is_memory_locked_exact:
  assumes "list_all (\<lambda>l. 10 \<notin> set l \<and> 13 \<notin> set l \<and> take 6 l \<noteq> cps ''VmLck:'') pre" and "kb < 2 ^ 64"
  shows "(is_memory_locked (Some (concat (map (\<lambda>l. l @ [10]) pre) @ vmlck_line gap kb @ [10] @ rest)) n \<longleftrightarrow>
      n \<le> 1024 * kb) \<and> \<not> is_memory_locked None n"
proof -
  have "lines_from [] (concat (map (\<lambda>l. l @ [10]) pre) @ vmlck_line gap kb @ [10] @ rest) =
      pre @ vmlck_line gap kb # lines_from [] rest"
    using assms(1) vmlck_line_plain [of gap kb] by (simp add: lines_from_lines list_all_iff lines_from_line)
  moreover have "scan_status n (pre @ ls) = scan_status n ls" for ls
    using assms(1) by (intro scan_status_skip) (simp add: list_all_iff)
  ultimately show ?thesis
    using scan_status_vmlck [OF assms(2)] by (simp add: is_memory_locked_def)
qed

theorem is_memory_locked_exact_witness:
  "is_memory_locked (Some (cps ''Name: veil7'' @ [10] @ vmlck_line 6 64 @ [10])) 65536 \<and>
   \<not> is_memory_locked (Some (cps ''Name: veil7'' @ [10] @ vmlck_line 6 64 @ [10])) 65537"
  using is_memory_locked_exact [of "[cps ''Name: veil7'']" 64 6 "[]" 65536]
    is_memory_locked_exact [of "[cps ''Name: veil7'']" 64 6 "[]" 65537]
  by (simp add: cps_def)

end
