(* ===== verification/Pq_Backends.thy ===== *)
theory Pq_Backends
  imports Memlock
begin

text \<open>
  The two signature backends beside libcrux: \<^verbatim>\<open>src/src/pq_backends/slh_dsa.rs\<close>, a wrapper of the
  third-party crate \<open>slh_dsa\<close>, whose types and functions are the parameter \<open>slh_library\<close>, and
  \<^verbatim>\<open>src/src/pq_backends/fn_dsa.rs\<close>, which is fail-closed until its standard is final. A
  copy between buffers of different lengths panics.
\<close>

section \<open>SLH-DSA\<close>

definition SLH_SECRET_KEY_LEN :: nat where "SLH_SECRET_KEY_LEN = 64"
definition SLH_SEED_MATERIAL_LEN :: nat where "SLH_SEED_MATERIAL_LEN = 48"
definition SLH_PUBLIC_KEY_LEN :: nat where "SLH_PUBLIC_KEY_LEN = 32"
definition SLH_SIGNATURE_LEN :: nat where "SLH_SIGNATURE_LEN = 17088"

record ('sk, 'vk, 'sig) slh_library =
  slh_keygen_internal :: "bytes \<Rightarrow> bytes \<Rightarrow> bytes \<Rightarrow> 'sk"
  sk_to_bytes :: "'sk \<Rightarrow> bytes"
  sk_try_from :: "bytes \<Rightarrow> 'sk option"
  verifying_key :: "'sk \<Rightarrow> 'vk"
  vk_to_bytes :: "'vk \<Rightarrow> bytes"
  vk_try_from :: "bytes \<Rightarrow> 'vk option"
  sk_sign :: "'sk \<Rightarrow> bytes \<Rightarrow> 'sig"
  sig_to_bytes :: "'sig \<Rightarrow> bytes"
  sig_try_from :: "bytes \<Rightarrow> 'sig option"
  vk_verify :: "'vk \<Rightarrow> bytes \<Rightarrow> 'sig \<Rightarrow> bool"

definition copy_from_slice :: "nat \<Rightarrow> bytes \<Rightarrow> bytes outcome" where
  "copy_from_slice n raw = (if length raw = n then Done raw else Panic)"

definition slh_derive_secret_key :: "('sk, 'vk, 'sig) slh_library \<Rightarrow> bytes \<Rightarrow> bytes outcome" where
  "slh_derive_secret_key lib seed =
     (let sk = slh_keygen_internal lib (take 16 seed) (take 16 (drop 16 seed)) (take 16 (drop 32 seed));
          raw = sk_to_bytes lib sk
      in copy_from_slice SLH_SECRET_KEY_LEN raw)"

definition slh_public_key :: "('sk, 'vk, 'sig) slh_library \<Rightarrow> bytes \<Rightarrow> bytes option outcome" where
  "slh_public_key lib secret =
     (case sk_try_from lib secret of
        None \<Rightarrow> Done None
      | Some sk \<Rightarrow>
          (case copy_from_slice SLH_PUBLIC_KEY_LEN (vk_to_bytes lib (verifying_key lib sk)) of
             Done out \<Rightarrow> Done (Some out) | Panic \<Rightarrow> Panic))"

text \<open>The second component is what the call leaves in the caller's key buffer.\<close>

definition slh_sign :: "('sk, 'vk, 'sig) slh_library \<Rightarrow> bytes \<Rightarrow> bytes \<Rightarrow> bytes option outcome \<times> bytes" where
  "slh_sign lib message secret =
     (case sk_try_from lib secret of
        None \<Rightarrow> (Done None, zeroize_bytes secret)
      | Some sk \<Rightarrow>
          (let sig = sk_sign lib sk message; secret = zeroize_bytes secret in
           case copy_from_slice SLH_SIGNATURE_LEN (sig_to_bytes lib sig) of
             Done out \<Rightarrow> (Done (Some out), secret) | Panic \<Rightarrow> (Panic, secret)))"

definition slh_verify :: "('sk, 'vk, 'sig) slh_library \<Rightarrow> bytes \<Rightarrow> bytes \<Rightarrow> bytes \<Rightarrow> choice" where
  "slh_verify lib message signature public =
     (case vk_try_from lib public of
        None \<Rightarrow> Choice 0
      | Some vk \<Rightarrow>
          (case sig_try_from lib signature of
             None \<Rightarrow> Choice 0
           | Some sig \<Rightarrow> choice_of (vk_verify lib vk message sig)))"

section \<open>FN-DSA\<close>

definition FN_SECRET_KEY_LEN :: nat where "FN_SECRET_KEY_LEN = 1281"
definition FN_PUBLIC_KEY_LEN :: nat where "FN_PUBLIC_KEY_LEN = 897"
definition FN_SIGNATURE_LEN_MAX :: nat where "FN_SIGNATURE_LEN_MAX = 1280"

definition fn_derive_secret_key :: "bytes \<Rightarrow> bytes option" where
  "fn_derive_secret_key seed = None"

definition fn_sign :: "bytes \<Rightarrow> bytes \<Rightarrow> bytes option \<times> bytes" where
  "fn_sign message secret = (None, secret)"

definition fn_verify :: "bytes \<Rightarrow> bytes \<Rightarrow> bytes \<Rightarrow> nat \<Rightarrow> choice" where
  "fn_verify message signature public sig_len = Choice 0"

section \<open>What the crate promises\<close>

text \<open>
  Documented by the crate and FIPS 205: keys and signatures have one fixed-size encoding
  each, which decodes to what was encoded, and a signature verifies under the verifying
  key of the key that made it.
\<close>

definition slh_encodings :: "('sk, 'vk, 'sig) slh_library \<Rightarrow> bool" where
  "slh_encodings lib \<longleftrightarrow>
     (\<forall>sk. length (sk_to_bytes lib sk) = 64 \<and> sk_try_from lib (sk_to_bytes lib sk) = Some sk) \<and>
     (\<forall>vk. length (vk_to_bytes lib vk) = 32 \<and> vk_try_from lib (vk_to_bytes lib vk) = Some vk) \<and>
     (\<forall>sig. length (sig_to_bytes lib sig) = 17088 \<and> sig_try_from lib (sig_to_bytes lib sig) = Some sig)"

definition slh_signatures :: "('sk, 'vk, 'sig) slh_library \<Rightarrow> bool" where
  "slh_signatures lib \<longleftrightarrow> (\<forall>sk m. vk_verify lib (verifying_key lib sk) m (sk_sign lib sk m))"

lemmas slh_defs = slh_derive_secret_key_def slh_public_key_def slh_sign_def slh_verify_def copy_from_slice_def
  SLH_SECRET_KEY_LEN_def SLH_PUBLIC_KEY_LEN_def SLH_SIGNATURE_LEN_def Let_def

lemma slh_sign_wipes: "snd (slh_sign lib m secret) = zeros (length secret)"
  by (simp add: slh_defs split: option.split outcome.split)

text \<open>Signing with the hash-based backend, over the byte encodings: a key derived from a seed
  has a public key, signs without a panic, the signature verifies under that public key,
  and the caller's key buffer holds zeros afterwards. A key buffer that does not decode
  gives no signature and is wiped too.\<close>

theorem slh_sign_roundtrip:
  assumes "slh_encodings lib" and "slh_signatures lib"
  shows "\<exists>sk pk sig. slh_derive_secret_key lib seed = Done sk \<and> slh_public_key lib sk = Done (Some pk) \<and>
      slh_sign lib m sk = (Done (Some sig), zeros 64) \<and> slh_verify lib m sig pk = Choice 1 \<and>
      (\<forall>bad. sk_try_from lib bad = None \<longrightarrow> slh_sign lib m bad = (Done None, zeros (length bad)))"
  using assms by (auto simp: slh_defs slh_encodings_def slh_signatures_def choice_of_def)

theorem slh_sign_roundtrip_witness:
  "\<exists>lib :: (unit, unit, unit) slh_library. \<exists>sk pk sig. slh_derive_secret_key lib (zeros 48) = Done sk \<and>
      slh_public_key lib sk = Done (Some pk) \<and> slh_sign lib [1] sk = (Done (Some sig), zeros 64) \<and>
      slh_verify lib [1] sig pk = Choice 1 \<and> slh_sign lib [1] [9] = (Done None, [0])"
proof -
  define dec where "dec = (\<lambda>n (bs :: bytes). if bs = zeros n then Some () else None)"
  define lib where "lib = \<lparr>slh_keygen_internal = \<lambda>_ _ _. (), sk_to_bytes = \<lambda>_. zeros 64, sk_try_from = dec 64,
     verifying_key = id, vk_to_bytes = \<lambda>_. zeros 32, vk_try_from = dec 32, sk_sign = \<lambda>_ _. (),
     sig_to_bytes = \<lambda>_. zeros 17088, sig_try_from = dec 17088, vk_verify = \<lambda>_ _ _. True\<rparr>"
  have "slh_encodings lib" and "slh_signatures lib"
    by (simp_all add: slh_encodings_def slh_signatures_def dec_def lib_def)
  then obtain sk pk sig where "slh_derive_secret_key lib (zeros 48) = Done sk" "slh_public_key lib sk = Done (Some pk)"
      "slh_sign lib [1] sk = (Done (Some sig), zeros 64)" "slh_verify lib [1] sig pk = Choice 1"
      and bad: "\<forall>bad. sk_try_from lib bad = None \<longrightarrow> slh_sign lib [1] bad = (Done None, zeros (length bad))"
    using slh_sign_roundtrip [of lib "zeros 48" "[1]"] by blast
  moreover have "[9 :: byte] \<noteq> zeros 64"
    by (auto dest: arg_cong [where f = length])
  then have "sk_try_from lib [9] = None"
    by (simp add: lib_def dec_def)
  ultimately show ?thesis
    using bad by (intro exI [of _ lib] exI [of _ sk] exI [of _ pk] exI [of _ sig]) simp
qed

end
