(* ===== verification/Commit_Reveal.thy ===== *)
theory Commit_Reveal
  imports Pipeline
begin

text \<open>
  The two-phase protocol of \<^verbatim>\<open>src/src/commit_reveal.rs\<close>. The engine keeps no state between the
  phases; the caller holds the token and the nonce.
\<close>

definition CR_COMMIT :: bytes where "CR_COMMIT = ascii ''veil7:cr:commit:v1''"

record commitment_token =
  ct_digest :: bytes

definition token_as_bytes :: "commitment_token \<Rightarrow> bytes" where
  "token_as_bytes t = ct_digest t"

definition token_from_bytes :: "bytes \<Rightarrow> commitment_token" where
  "token_from_bytes bs = \<lparr>ct_digest = bs\<rparr>"

definition token_drop :: "commitment_token \<Rightarrow> commitment_token" where
  "token_drop t = t\<lparr>ct_digest := zeroize_bytes (ct_digest t)\<rparr>"

definition nonce_fresh :: "world \<Rightarrow> bytes result \<times> world" where
  "nonce_fresh w =
     (case getrandom 32 w of
        (None, w) \<Rightarrow> (Inl Entropy, w)
      | (Some bs, w) \<Rightarrow> (Inr bs, w))"

definition nonce_drop :: "bytes \<Rightarrow> bytes" where
  "nonce_drop bs = zeroize_bytes bs"

text \<open>The digest that \<open>commit\<close>, \<open>commit_phase\<close> and \<open>reveal_phase\<close> compute.\<close>

definition cr_digest :: "xof \<Rightarrow> bytes \<Rightarrow> bytes \<Rightarrow> bytes" where
  "cr_digest xof nonce cl =
     (let h = update shake_new CR_COMMIT;
          h = update h nonce;
          h = update h cl
      in squeeze xof h 32)"

definition cr_commit :: "xof \<Rightarrow> bytes \<Rightarrow> world \<Rightarrow> commitment_token result \<times> world" where
  "cr_commit xof cl w =
     (case nonce_fresh w of
        (Inl e, w) \<Rightarrow> (Inl e, w)
      | (Inr nonce, w) \<Rightarrow> (Inr \<lparr>ct_digest = cr_digest xof nonce cl\<rparr>, w))"

definition commit_phase :: "xof \<Rightarrow> bytes \<Rightarrow> world \<Rightarrow> (commitment_token \<times> bytes) result \<times> world" where
  "commit_phase xof cl w =
     (case getrandom 32 w of
        (None, w) \<Rightarrow> (Inl Entropy, w)
      | (Some nonce, w) \<Rightarrow> (Inr (\<lparr>ct_digest = cr_digest xof nonce cl\<rparr>, nonce), w))"

definition reveal_phase ::
  "libcrux \<Rightarrow> xof \<Rightarrow> commitment_token \<Rightarrow> bytes \<Rightarrow> bytes \<Rightarrow> world \<Rightarrow> verdict result \<times> world" where
  "reveal_phase lib xof token nonce cl w =
     (let recomputed = cr_digest xof nonce cl;
          match_ok = unwrap_u8 (ct_eq recomputed (ct_digest token))
      in if match_ok \<noteq> 1 then (Inl Crypto, w)
         else verify_once lib xof (claim_new cl) w)"

section \<open>Openings\<close>

definition cr_message :: "bytes \<Rightarrow> bytes \<Rightarrow> bytes" where
  "cr_message nonce cl = CR_COMMIT @ nonce @ cl"

lemma cr_digest_eq: "cr_digest xof nonce cl = shake256_ema xof 32 (cr_message nonce cl)"
  by (simp add: cr_digest_def squeeze_eq cr_message_def Let_def)

lemma reveal_phase_eq:
  "reveal_phase lib xof token nonce cl w =
     (if shake256_ema xof 32 (cr_message nonce cl) = ct_digest token
      then verify_once lib xof (claim_new cl) w else (Inl Crypto, w))"
  by (simp add: reveal_phase_def cr_digest_eq ct_eq_def choice_of_def Let_def)

section \<open>Properties\<close>

text \<open>C12. Commit and reveal: a token opens with its own nonce and claim, and then reveals to the
  verdict of the engine on that claim; with any other 32-byte nonce or any other claim the
  reveal is refused before the engine harvests anything (unless the hash collides on the
  two openings).\<close>

theorem commit_reveal_exact:
  assumes "os_fills w" and "commit_phase xof cl w = (Inr (token, nonce), w')" and "length nonce' = 32"
    and "collision_free xof 32 {cr_message nonce cl, cr_message nonce' cl'}"
  shows "reveal_phase lib xof token nonce' cl' w2 =
    (if nonce' = nonce \<and> cl' = cl then verify_once lib xof (claim_new cl) w2 else (Inl Crypto, w2))"
proof -
  have tok: "ct_digest token = shake256_ema xof 32 (cr_message nonce cl)" and "os_random w (calls w) 32 = Some nonce"
    using assms(2) by (auto simp: commit_phase_def getrandom_def cr_digest_eq split: option.splits)
  then have "length nonce = 32" using assms(1) by (auto simp: os_fills_def)
  then have "cr_message nonce cl = cr_message nonce' cl' \<longleftrightarrow> nonce' = nonce \<and> cl' = cl"
    using assms(3) by (auto simp: cr_message_def append_eq_append_conv)
  then show ?thesis
    using collision_freeD [OF assms(4), of "cr_message nonce' cl'" "cr_message nonce cl"]
    by (auto simp: reveal_phase_eq tok)
qed

theorem commit_reveal_exact_witness:
  "\<exists>token nonce w'. commit_phase (\<lambda>m i. last m) [1] quiet_world = (Inr (token, nonce), w') \<and>
     reveal_phase demo_libcrux (\<lambda>m i. last m) token nonce [2] quiet_world = (Inl Crypto, quiet_world)"
proof -
  let ?x = "\<lambda>m i. last m :: byte"
  have c: "commit_phase ?x [1] quiet_world =
      (Inr (\<lparr>ct_digest = cr_digest ?x (zeros 32) [1]\<rparr>, zeros 32), quiet_world\<lparr>calls := 1\<rparr>)"
    by (simp add: commit_phase_def getrandom_def quiet_world_def)
  have "os_fills quiet_world" by (simp add: os_fills_def quiet_world_def)
  moreover have "collision_free ?x 32 {cr_message (zeros 32) [1], cr_message (zeros 32) [2]}"
    by (rule collision_free_pairI [of 0]) (simp_all add: cr_message_def)
  ultimately have "reveal_phase demo_libcrux ?x \<lparr>ct_digest = cr_digest ?x (zeros 32) [1]\<rparr> (zeros 32) [2] quiet_world
      = (Inl Crypto, quiet_world)"
    using commit_reveal_exact [OF _ c, of "zeros 32" "[2]" demo_libcrux quiet_world] by simp
  with c show ?thesis by blast
qed

end
