(* ===== verification/Audit_Api.thy ===== *)
theory Audit_Api
  imports Pipeline Chain
begin

text \<open>
  Offline checks of published verdicts, \<^verbatim>\<open>src/src/audit.rs\<close>.
\<close>

definition verify_chain_attestation :: "xof \<Rightarrow> bytes list \<Rightarrow> bytes \<Rightarrow> choice" where
  "verify_chain_attestation xof events expected_root = chain_verify xof events expected_root"

definition verify_batch_transcripts :: "xof \<Rightarrow> bytes list \<Rightarrow> bytes \<Rightarrow> choice" where
  "verify_batch_transcripts xof ts expected =
     (if ts = [] then Choice 0
      else
        let h = update shake_new BATCH_HEAD;
            h = fold (\<lambda>(i, t) h. update (update (update h BATCH_STEP) (usize_le i)) t) (enumerate 0 ts) h
        in ct_eq (squeeze xof h 32) expected)"

section \<open>Agreement with the engine\<close>

lemma audit_fold:
  "fold (\<lambda>(i, t) h. update (update (update h BATCH_STEP) (usize_le i)) t) cs h =
     update h (concat (map batch_chunk cs))"
  by (induction cs arbitrary: h) (auto simp: batch_chunk_def update_update)

lemma verify_batch_transcripts_eq:
  "verify_batch_transcripts xof ts expected =
     choice_of (ts \<noteq> [] \<and> shake256_ema xof 32 (batch_message ts) = expected)"
  by (simp add: verify_batch_transcripts_def Choice_0 audit_fold squeeze_eq batch_message_def ct_eq_def Let_def)

section \<open>Properties\<close>

text \<open>The audit of a batch decides what it claims to: for the transcript that the engine emitted
  for a batch, the auditor accepts a list of 32-byte transcripts exactly when it is the list of the
  transcripts of the batch's own iterations, in order (unless the hash collides on the two
  lists).\<close>

theorem audit_batch_exact:
  assumes "verify_batch lib xof claims w = (Inr v, w')" and "verify_all lib xof claims w = (Inr vs, w')"
    and "list_all (\<lambda>t. length t = 32) ts" and "length ts < 2 ^ 64" and "length claims < 2 ^ 64"
    and "collision_free xof 32 {batch_message (map v_transcript vs), batch_message ts}"
  shows "is_true (verify_batch_transcripts xof ts (v_transcript v)) \<longleftrightarrow> ts = map v_transcript vs"
proof -
  have ne: "claims \<noteq> []" and v: "v_transcript v = shake256_ema xof 32 (batch_message (map v_transcript vs))"
    using assms(1,2) by (auto simp: verify_batch_eq split: if_splits)
  have wf: "list_all verdict_wf vs" and len: "length vs = length claims" using verify_all_wf [OF assms(2)] by simp_all
  have "list_all (\<lambda>t. length t = 32) (map v_transcript vs)" using wf by (auto simp: list_all_iff verdict_wf_def)
  then have "batch_message ts = batch_message (map v_transcript vs) \<longleftrightarrow> ts = map v_transcript vs"
    using batch_message_inj [of ts "map v_transcript vs"] assms(3-5) len by auto
  then show ?thesis
    using collision_freeD [OF assms(6), of "batch_message ts" "batch_message (map v_transcript vs)"] ne len
    by (auto simp: verify_batch_transcripts_eq v)
qed

theorem audit_batch_exact_witness:
  "\<exists>v (vs :: verdict list) w'. verify_batch demo_libcrux (\<lambda>m i. 7) [claim_new [1]] quiet_world = (Inr v, w') \<and>
     is_true (verify_batch_transcripts (\<lambda>m i. 7) (map v_transcript vs) (v_transcript v))"
proof -
  let ?x = "\<lambda>m i. 7 :: byte" and ?cls = "[claim_new [1]]"
  obtain vs w' where vs: "verify_all demo_libcrux ?x ?cls quiet_world = (Inr vs, w')"
    using verify_all_honest [OF demo_libcrux_correct, of ?x quiet_world ?cls] demo_signs [of ?x]
    by (auto simp: quiet_world_def)
  then obtain v where v: "verify_batch demo_libcrux ?x ?cls quiet_world = (Inr v, w')"
    by (simp add: verify_batch_eq)
  have "list_all (\<lambda>t. length t = 32) (map v_transcript vs)" "length vs = 1"
    using verify_all_wf [OF vs] by (auto simp: list_all_iff verdict_wf_def)
  then have "is_true (verify_batch_transcripts ?x (map v_transcript vs) (v_transcript v))"
    using audit_batch_exact [OF v vs, of "map v_transcript vs"] by (simp add: collision_free_def)
  with v show ?thesis by blast
qed

end
