(* ===== verification/Blind.thy ===== *)
theory Blind
  imports Pipeline
begin

text \<open>
  Blind attestation, \<^verbatim>\<open>src/src/blind.rs\<close>: the caller masks a claim before handing it to the
  engine and unmasks the transcript afterwards.
\<close>

definition BLIND_MASK :: bytes where "BLIND_MASK = ascii ''veil7:blind:mask:v1''"
definition BLIND_UNMASK :: bytes where "BLIND_UNMASK = ascii ''veil7:blind:unmask:v1''"

record blind_factor =
  bf_nonce :: bytes
  bf_mask :: bytes

definition from_nonce :: "xof \<Rightarrow> bytes \<Rightarrow> blind_factor" where
  "from_nonce xof nonce =
     (let h = update shake_new BLIND_MASK;
          h = update h nonce
      in \<lparr>bf_nonce = nonce, bf_mask = squeeze xof h 32\<rparr>)"

definition fresh_factor :: "xof \<Rightarrow> world \<Rightarrow> blind_factor result \<times> world" where
  "fresh_factor xof w =
     (case getrandom 32 w of
        (None, w) \<Rightarrow> (Inl Entropy, w)
      | (Some nonce, w) \<Rightarrow>
          (let h = update shake_new BLIND_MASK;
               h = update h nonce
           in (Inr \<lparr>bf_nonce = nonce, bf_mask = squeeze xof h 32\<rparr>, w)))"

definition blind_factor_drop :: "blind_factor \<Rightarrow> blind_factor" where
  "blind_factor_drop f =
     \<lparr>bf_nonce = zeroize_bytes (bf_nonce f), bf_mask = zeroize_bytes (bf_mask f)\<rparr>"

text \<open>Each byte is combined with byte \<open>i mod 32\<close> of the mask.\<close>

definition blind_claim :: "bytes \<Rightarrow> blind_factor \<Rightarrow> bytes" where
  "blind_claim cl f = map (\<lambda>(i, b). b XOR bf_mask f ! (i mod 32)) (enumerate 0 cl)"

definition unmask :: "xof \<Rightarrow> blind_factor \<Rightarrow> bytes" where
  "unmask xof f =
     (let h = update shake_new BLIND_UNMASK;
          h = update h (bf_nonce f)
      in squeeze xof h 32)"

definition unblind_transcript :: "xof \<Rightarrow> bytes \<Rightarrow> blind_factor \<Rightarrow> bytes" where
  "unblind_transcript xof t f = map (\<lambda>i. t ! i XOR unmask xof f ! i) [0..<32]"

definition blind_attest :: "libcrux \<Rightarrow> xof \<Rightarrow> bytes \<Rightarrow> world \<Rightarrow> (verdict \<times> bytes) result \<times> world" where
  "blind_attest lib xof cl w =
     (case fresh_factor xof w of
        (Inl e, w) \<Rightarrow> (Inl e, w)
      | (Inr f, w) \<Rightarrow>
          (case verify_once lib xof (claim_new (blind_claim cl f)) w of
             (Inl e, w) \<Rightarrow> (Inl e, w)
           | (Inr v, w) \<Rightarrow> (Inr (v, unblind_transcript xof (v_transcript v) f), w)))"

section \<open>Masking is an involution\<close>

lemma length_blind_claim [simp]: "length (blind_claim cl f) = length cl"
  by (simp add: blind_claim_def)

lemma nth_blind_claim: "i < length cl \<Longrightarrow> blind_claim cl f ! i = cl ! i XOR bf_mask f ! (i mod 32)"
  by (simp add: blind_claim_def nth_enumerate_eq)

lemma blind_claim_invol: "blind_claim (blind_claim cl f) f = cl"
  by (rule nth_equalityI) (simp_all add: nth_blind_claim xor.assoc)

lemma unblind_invol:
  "length t = 32 \<Longrightarrow> unblind_transcript xof (unblind_transcript xof t f) f = t"
  by (rule nth_equalityI) (simp_all add: unblind_transcript_def xor.assoc)

section \<open>What a blinded claim tells\<close>

text \<open>A claim explains what the engine sees if some 32-byte mask would blind it to that.\<close>

definition explains :: "bytes \<Rightarrow> bytes \<Rightarrow> bool" where
  "explains cl seen \<longleftrightarrow> (\<exists>mask. length mask = 32 \<and> blind_claim cl \<lparr>bf_nonce = [], bf_mask = mask\<rparr> = seen)"

definition same_differences :: "bytes \<Rightarrow> bytes \<Rightarrow> bool" where
  "same_differences cl cl' \<longleftrightarrow>
     (\<forall>i < length cl. \<forall>j < length cl. i mod 32 = j mod 32 \<longrightarrow> cl ! i XOR cl ! j = cl' ! i XOR cl' ! j)"

lemma xor_move:
  fixes a :: byte
  assumes "a XOR b = c XOR d"
  shows "a XOR (b XOR d) = c"
proof -
  have "a XOR (b XOR d) = c XOR d XOR d" by (simp only: assms flip: xor.assoc)
  also have "\<dots> = c" by (simp only: xor.assoc xor_self_eq xor.right_neutral)
  finally show ?thesis .
qed

lemma xor_mask_cancel: "(a XOR m) XOR (b XOR m) = a XOR (b :: byte)"
  by (rule bit_word_eqI) (auto simp: bit_simps)

lemma same_differences_blinded: "same_differences cl (blind_claim cl f)"
  by (simp add: same_differences_def nth_blind_claim xor_mask_cancel)

lemma explains_iff:
  assumes "length seen = length cl"
  shows "explains cl seen \<longleftrightarrow> same_differences cl seen"
proof
  assume "explains cl seen"
  then show "same_differences cl seen" by (auto simp: explains_def same_differences_blinded)
next
  assume same: "same_differences cl seen"
  let ?mask = "map (\<lambda>k. if k < length cl then cl ! k XOR seen ! k else 0) [0..<32]"
  have "blind_claim cl \<lparr>bf_nonce = [], bf_mask = ?mask\<rparr> = seen"
  proof (rule nth_equalityI)
    fix i assume "i < length (blind_claim cl \<lparr>bf_nonce = [], bf_mask = ?mask\<rparr>)"
    then have i: "i < length cl" "i mod 32 < length cl" by (simp_all add: order_le_less_trans [OF mod_less_eq_dividend])
    then have "cl ! i XOR cl ! (i mod 32) = seen ! i XOR seen ! (i mod 32)"
      using same by (simp add: same_differences_def)
    then have "cl ! i XOR (cl ! (i mod 32) XOR seen ! (i mod 32)) = seen ! i"
      by (rule xor_move)
    with i show "blind_claim cl \<lparr>bf_nonce = [], bf_mask = ?mask\<rparr> ! i = seen ! i"
      by (simp add: nth_blind_claim)
  qed (simp add: assms)
  then show "explains cl seen" by (auto simp: explains_def intro!: exI [of _ ?mask])
qed

lemma same_differences_sym: "length cl = length cl' \<Longrightarrow> same_differences cl cl' \<longleftrightarrow> same_differences cl' cl"
  by (auto simp: same_differences_def)

lemma same_differences_trans:
  "length cl = length cl' \<Longrightarrow> same_differences cl cl' \<Longrightarrow> same_differences cl' cl'' \<Longrightarrow> same_differences cl cl''"
  by (simp add: same_differences_def)

lemma same_differences_short: "length cl \<le> 32 \<Longrightarrow> same_differences cl cl'"
  by (auto simp: same_differences_def)

lemma blinded_eq:
  "blind_claim cl (from_nonce xof nonce) =
     map (\<lambda>i. cl ! i XOR shake256_ema xof 32 (BLIND_MASK @ nonce) ! (i mod 32)) [0..<length cl]"
  by (rule nth_equalityI) (simp_all add: nth_blind_claim from_nonce_def squeeze_eq Let_def)

lemma unblinded_eq:
  assumes "length t = 32"
  shows "unblind_transcript xof t (from_nonce xof nonce) = xor_bytes t (shake256_ema xof 32 (BLIND_UNMASK @ nonce))"
  using assms by (intro nth_equalityI)
    (simp_all add: unblind_transcript_def unmask_def from_nonce_def squeeze_eq nth_xor_bytes Let_def)

section \<open>Properties\<close>

text \<open>C38. What a blind attestation hides, exactly. The engine is run on the claim with the hash of
  the nonce under the mask tag added, repeated every 32 bytes, and the caller gets the
  transcript with the hash of the nonce under the unmask tag added. Of all claims of the
  same length, those that some mask would turn into what the engine sees are precisely
  the ones with the same differences between positions a multiple of 32 apart: up to 32
  bytes that is every claim, and beyond, exactly these differences leak.\<close>

theorem blind_attest_hides:
  assumes "blind_attest lib xof cl w = (Inr (v, t), w')" and "getrandom 32 w = (Some nonce, w1)"
    and "seen = map (\<lambda>i. cl ! i XOR shake256_ema xof 32 (BLIND_MASK @ nonce) ! (i mod 32)) [0..<length cl]"
  shows "verify_once lib xof (claim_new seen) w1 = (Inr v, w') \<and>
    t = xor_bytes (v_transcript v) (shake256_ema xof 32 (BLIND_UNMASK @ nonce)) \<and>
    (\<forall>cl'. length cl' = length cl \<longrightarrow> (explains cl' seen \<longleftrightarrow> same_differences cl cl')) \<and>
    (length cl \<le> 32 \<longrightarrow> (\<forall>cl'. length cl' = length cl \<longrightarrow> explains cl' seen))"
proof -
  let ?f = "from_nonce xof nonce"
  have seen: "seen = blind_claim cl ?f" using assms(3) by (simp only: blinded_eq)
  have f: "fresh_factor xof w = (Inr ?f, w1)" by (simp add: fresh_factor_def assms(2) from_nonce_def Let_def)
  have v: "verify_once lib xof (claim_new seen) w1 = (Inr v, w')" and t: "t = unblind_transcript xof (v_transcript v) ?f"
    using assms(1) by (auto simp: blind_attest_def f seen split: prod.splits sum.splits)
  have "length (v_transcript v) = 32" using verify_once_wf [OF v] by (simp add: verdict_wf_def)
  with t have "t = xor_bytes (v_transcript v) (shake256_ema xof 32 (BLIND_UNMASK @ nonce))"
    by (simp add: unblinded_eq)
  moreover have iff: "explains cl' seen \<longleftrightarrow> same_differences cl cl'" if len: "length cl' = length cl" for cl'
  proof -
    have s: "same_differences cl seen" "length seen = length cl" by (simp_all add: seen same_differences_blinded)
    have "explains cl' seen \<longleftrightarrow> same_differences cl' seen" using len s(2) by (simp add: explains_iff)
    also have "\<dots> \<longleftrightarrow> same_differences cl cl'"
      using len s same_differences_trans [of cl seen cl'] same_differences_trans [of cl' cl seen]
        same_differences_sym [of cl' seen] same_differences_sym [of cl' cl] by auto
    finally show ?thesis .
  qed
  ultimately show ?thesis using v same_differences_short by blast
qed

theorem blind_attest_hides_witness:
  "\<exists>v t w'. blind_attest demo_libcrux (\<lambda>m i. 7) [1, 2] quiet_world = (Inr (v, t), w') \<and>
     t = xor_bytes (v_transcript v) (replicate 32 7) \<and> explains [200, 100] [6, 5]"
proof -
  let ?x = "\<lambda>m i. 7 :: byte"
  let ?w1 = "quiet_world\<lparr>calls := 1\<rparr>"
  have g: "getrandom 32 quiet_world = (Some (zeros 32), ?w1)" by (simp add: getrandom_def quiet_world_def)
  let ?cl = "claim_new (blind_claim [1, 2] (from_nonce ?x (zeros 32)))"
  obtain seed where h: "harvest ?x (cl_personalization ?cl) ?w1 = (Inr seed, ?w1\<lparr>calls := calls ?w1 + 12\<rparr>)"
    by (rule harvest_succeeds [of ?w1 ?x "cl_personalization ?cl"]) (simp add: quiet_world_def)
  obtain s where "iteration_sig demo_libcrux ?x seed (cl_bytes ?cl) = Some s" using demo_signs by blast
  with h obtain v w' where "verify_once demo_libcrux ?x ?cl ?w1 = (Inr v, w')"
    by (simp add: verify_once_def verify_default_eq [OF demo_libcrux_correct])
  with g have b: "blind_attest demo_libcrux ?x [1, 2] quiet_world =
      (Inr (v, unblind_transcript ?x (v_transcript v) (from_nonce ?x (zeros 32))), w')"
    by (simp add: blind_attest_def fresh_factor_def from_nonce_def Let_def)
  have e: "shake256_ema ?x 32 m = replicate 32 7" for m
    by (simp add: shake256_ema_def map_replicate_const)
  have "[6, 5] = map (\<lambda>i. [1, 2] ! i XOR shake256_ema ?x 32 (BLIND_MASK @ zeros 32) ! (i mod 32)) [0..<length [1, 2 :: byte]]"
    by (simp add: e upt_rec)
  from blind_attest_hides [OF b g this] b show ?thesis by (auto simp: e)
qed

text \<open>The blinding repeats: positions of a claim that are a multiple of 32 apart are masked with
  the same byte, so a blinded claim of more than 32 bytes shows the exclusive or of every
  two such positions of the original to anyone, without the nonce.\<close>

theorem blind_claim_leaks:
  assumes "i < length cl" and "j < length cl" and "i mod 32 = j mod 32"
  shows "blind_claim cl f ! i XOR blind_claim cl f ! j = cl ! i XOR cl ! j"
  using assms by (simp add: nth_blind_claim xor_mask_cancel)

theorem blind_claim_leaks_witness:
  "let b = blind_claim (replicate 32 5 @ [6]) (from_nonce (\<lambda>m i. 7) [])
   in b ! 0 XOR b ! 32 = 3"
  using blind_claim_leaks [of 0 "replicate 32 5 @ [6]" 32 "from_nonce (\<lambda>m i. 7) []"]
  by (simp add: nth_append Let_def)

end
