(* ===== verification/Threshold_Verify.thy ===== *)
theory Threshold_Verify
  imports Pipeline
begin

text \<open>
  N-of-M verification, \<^verbatim>\<open>src/src/threshold.rs\<close>: the same claim through \<open>m\<close> independent
  iterations, valid when at least \<open>n\<close> verdicts are. The count is a \<open>u32\<close> whose addition
  panics on overflow (every build profile of the crate checks it), and it is compared with
  \<open>n as u32\<close>, which truncates.
\<close>

definition THRESHOLD_HEAD :: bytes where "THRESHOLD_HEAD = ascii ''veil7:threshold:head:v1''"
definition THRESHOLD_STEP :: bytes where "THRESHOLD_STEP = ascii ''veil7:threshold:step:v1''"

text \<open>The loop \<open>for i in 0..m\<close>, with \<open>k\<close> iterations to go: the collected bits and the aggregator.\<close>

fun threshold_loop ::
  "libcrux \<Rightarrow> xof \<Rightarrow> claim \<Rightarrow> nat \<Rightarrow> nat \<Rightarrow> choice list \<Rightarrow> shake256 \<Rightarrow> world \<Rightarrow> (choice list \<times> shake256) result \<times> world" where
  "threshold_loop lib xof cl i 0 valid_choices h w = (Inr (valid_choices, h), w)"
| "threshold_loop lib xof cl i (Suc k) valid_choices h w =
     (case verify_once lib xof cl w of
        (Inl e, w) \<Rightarrow> (Inl e, w)
      | (Inr v, w) \<Rightarrow>
          (let valid_choices = valid_choices @ [is_valid v];
               h = update h THRESHOLD_STEP;
               h = update h (usize_le i);
               h = update h (v_transcript v)
           in threshold_loop lib xof cl (i + 1) k valid_choices h w))"

text \<open>\<open>count += c.unwrap_u8() as u32\<close> over the bits, \<open>None\<close> when an addition overflows.\<close>

fun count_choices :: "choice list \<Rightarrow> u32 \<Rightarrow> u32 option" where
  "count_choices [] count = Some count"
| "count_choices (c # cs) count =
     (if unat count + unat (unwrap_u8 c) < 2 ^ 32 then count_choices cs (count + ucast (unwrap_u8 c)) else None)"

text \<open>\<open>Vec::with_capacity(m)\<close> for one-byte entries panics when the capacity exceeds \<open>isize::MAX\<close>.\<close>

definition capacity_overflows :: "nat \<Rightarrow> bool" where
  "capacity_overflows m \<longleftrightarrow> 2 ^ 63 \<le> m"

definition threshold_verify ::
  "libcrux \<Rightarrow> xof \<Rightarrow> claim \<Rightarrow> nat \<Rightarrow> nat \<Rightarrow> world \<Rightarrow> verdict result outcome \<times> world" where
  "threshold_verify lib xof cl n m w =
     (if n = 0 \<or> m = 0 \<or> n > m then (Done (Inl Crypto), w)
      else if capacity_overflows m then (Panic, w)
      else
        let h = update shake_new THRESHOLD_HEAD;
            h = update h (usize_le n);
            h = update h (usize_le m)
        in case threshold_loop lib xof cl 0 m [] h w of
             (Inl e, w) \<Rightarrow> (Done (Inl e), w)
           | (Inr (valid_choices, h), w) \<Rightarrow>
               (case count_choices valid_choices 0 of
                  None \<Rightarrow> (Panic, w)
                | Some count \<Rightarrow>
                    (let passed = choice_of (count \<ge> of_nat n)
                     in (Done (Inr (from_batch passed (squeeze xof h 32))), w))))"

section \<open>Counting\<close>

definition threshold_chunk :: "nat \<times> bytes \<Rightarrow> bytes" where
  "threshold_chunk c = THRESHOLD_STEP @ usize_le (fst c) @ snd c"

definition threshold_message :: "nat \<Rightarrow> nat \<Rightarrow> bytes list \<Rightarrow> bytes" where
  "threshold_message n m ts =
     THRESHOLD_HEAD @ usize_le n @ usize_le m @ concat (map threshold_chunk (enumerate 0 ts))"

lemma threshold_loop_eq:
  "threshold_loop lib xof cl i k cs h w =
     (case verify_all lib xof (replicate k cl) w of
        (Inl e, w) \<Rightarrow> (Inl e, w)
      | (Inr vs, w) \<Rightarrow> (Inr (cs @ map is_valid vs,
           update h (concat (map threshold_chunk (enumerate i (map v_transcript vs))))), w))"
proof (induction k arbitrary: i cs h w)
  case (Suc k)
  obtain r w1 where r: "verify_once lib xof cl w = (r, w1)" by (metis prod.exhaust)
  obtain r2 w2 where r2: "verify_all lib xof (replicate k cl) w1 = (r2, w2)" by (metis prod.exhaust)
  show ?case
    by (cases r; cases r2) (simp_all add: r r2 Suc.IH threshold_chunk_def update_update)
qed simp

lemma count_choices_eq:
  "list_all verdict_wf vs \<Longrightarrow> unat k + length vs < 2 ^ 32 \<Longrightarrow>
   count_choices (map is_valid vs) k = Some (k + of_nat (length (filter is_valid_bool vs)))"
proof (induction vs arbitrary: k)
  case (Cons v vs)
  have bit: "unwrap_u8 (v_valid v) = 0 \<or> unwrap_u8 (v_valid v) = 1"
    using Cons.prems(1) by (simp add: verdict_wf_def choice_wf_def)
  have "unat (k + 1) \<le> unat k + 1" by (simp add: unat_word_ariths)
  with Cons.prems(2) have "unat (k + 1) + length vs < 2 ^ 32" by simp
  with bit Cons show ?case by (auto simp: is_valid_def is_valid_bool_def)
qed simp

section \<open>Properties\<close>

text \<open>C28. N of M, exactly: with fewer than \<open>2^32\<close> iterations, the call refuses degenerate thresholds,
  reports the first error of an iteration, and otherwise is valid exactly when at least
  \<open>n\<close> of the \<open>m\<close> verdicts are; the transcript is the hash of \<open>n\<close>, \<open>m\<close> and every iteration's
  transcript in order.\<close>

theorem threshold_verify_exact:
  assumes "m < 2 ^ 32"
  shows "threshold_verify lib xof cl n m w =
    (if n = 0 \<or> n > m then (Done (Inl Crypto), w)
     else case verify_all lib xof (replicate m cl) w of
       (Inl e, w) \<Rightarrow> (Done (Inl e), w)
     | (Inr vs, w) \<Rightarrow> (Done (Inr \<lparr>v_valid = choice_of (n \<le> length (filter is_valid_bool vs)),
          v_transcript = shake256_ema xof 32 (threshold_message n m (map v_transcript vs))\<rparr>), w))"
proof -
  obtain r w' where r: "verify_all lib xof (replicate m cl) w = (r, w')" by (metis prod.exhaust)
  have cmp: "(of_nat n :: u32) \<le> of_nat k \<longleftrightarrow> n \<le> k" if "n < 2 ^ 32" "k < 2 ^ 32" for k
    using that by (simp add: word_le_nat_alt unat_of_nat)
  have cap: "\<not> capacity_overflows m" using assms by (simp add: capacity_overflows_def)
  show ?thesis
  proof (cases r)
    case (Inr vs)
    with r verify_all_wf have wf: "list_all verdict_wf vs" and len: "length vs = m" by force+
    then have "length (filter is_valid_bool vs) \<le> m" using length_filter_le [of is_valid_bool vs] by simp
    then have "(of_nat n :: u32) \<le> of_nat (length (filter is_valid_bool vs)) \<longleftrightarrow> n \<le> length (filter is_valid_bool vs)"
      if "n \<le> m" using that assms by (intro cmp) simp_all
    with Inr r count_choices_eq [OF wf, of 0] assms len show ?thesis
      by (auto simp: threshold_verify_def cap threshold_loop_eq Let_def from_batch_def squeeze_eq threshold_message_def)
  qed (simp add: threshold_verify_def cap threshold_loop_eq r Let_def)
qed

theorem threshold_verify_exact_witness:
  "threshold_verify demo_libcrux (\<lambda>m i. 7) (claim_new [1]) 3 2 quiet_world = (Done (Inl Crypto), quiet_world) \<and>
   (\<exists>v w'. threshold_verify demo_libcrux (\<lambda>m i. 7) (claim_new [1]) 1 2 quiet_world = (Done (Inr v), w') \<and> is_valid_bool v)"
proof -
  obtain vs w' where vs: "verify_all demo_libcrux (\<lambda>m i. 7) (replicate 2 (claim_new [1])) quiet_world = (Inr vs, w')"
      "list_all is_valid_bool vs"
    using verify_all_honest [OF demo_libcrux_correct, of "\<lambda>m i. 7" quiet_world "replicate 2 (claim_new [1])"]
      demo_signs [of "\<lambda>m i. 7"] by (auto simp: quiet_world_def)
  then have "filter is_valid_bool vs = vs" "length vs = 2"
    using verify_all_wf [OF vs(1)] by (simp_all add: filter_id_conv list_all_iff)
  with vs threshold_verify_exact [of 2 demo_libcrux "\<lambda>m i. 7" "claim_new [1]" _ quiet_world] show ?thesis
    by (simp add: is_valid_bool_def choice_of_def)
qed

end
