(* ===== verification/Interface.thy ===== *)
theory Interface
  imports Pipeline Chain Merkle Hash_Preimage Pedersen Range_Proof Blind Threshold_Verify
    "HOL-Library.List_Lexorder" "HOL-Library.Multiset"
begin

text \<open>
  The one-call interface of \<^verbatim>\<open>src/src/interface.rs\<close>. The file system is a parameter: what
  \<open>std::fs::read\<close>, a buffered reader of a given capacity, \<open>read_dir\<close> and \<open>metadata\<close> answer
  for each path. Paths and texts are the bytes of the strings. The transient chunk buffers
  the code overwrites have no counterpart.
\<close>

section \<open>Files\<close>

text \<open>
  \<open>fs_stream path n\<close> is \<open>None\<close> when the file does not open, and otherwise the results of the
  successive \<open>read\<close> calls into a buffer of \<open>n\<close> bytes: a chunk, or \<open>None\<close> for an error. After
  the last element every \<open>read\<close> returns 0 bytes.
\<close>

record dir_entry =
  de_is_file :: "bool option"
  de_name :: bytes
  de_path :: bytes

record filesystem =
  fs_read :: "bytes \<Rightarrow> bytes option"
  fs_stream :: "bytes \<Rightarrow> nat \<Rightarrow> bytes option list option"
  fs_dir :: "bytes \<Rightarrow> dir_entry option list option"
  fs_size :: "bytes \<Rightarrow> nat option"

definition FILE_CHUNK :: nat where "FILE_CHUNK = 4096"

type_synonym 'a run = "world \<Rightarrow> 'a result \<times> world"

section \<open>Single items\<close>

definition attest_bytes :: "libcrux \<Rightarrow> xof \<Rightarrow> bytes \<Rightarrow> verdict run" where
  "attest_bytes lib xof bs w = verify_once lib xof (claim_new bs) w"

definition attest_text :: "libcrux \<Rightarrow> xof \<Rightarrow> bytes \<Rightarrow> verdict run" where
  "attest_text lib xof txt w = attest_bytes lib xof txt w"

definition attest_structured :: "libcrux \<Rightarrow> xof \<Rightarrow> bytes \<Rightarrow> bytes \<Rightarrow> verdict run" where
  "attest_structured lib xof label payload w =
     verify_once lib xof \<lparr>cl_bytes = payload, cl_personalization = label\<rparr> w"

definition attest_file :: "libcrux \<Rightarrow> xof \<Rightarrow> filesystem \<Rightarrow> bytes \<Rightarrow> verdict run" where
  "attest_file lib xof fs path w =
     (case fs_read fs path of
        None \<Rightarrow> (Inl Crypto, w)
      | Some bs \<Rightarrow> attest_bytes lib xof bs w)"

text \<open>The read loop: absorb chunks until a read returns nothing, or fails.\<close>

fun absorb_stream :: "chain_state \<Rightarrow> bytes option list \<Rightarrow> chain_state result" where
  "absorb_stream st [] = Inr st"
| "absorb_stream st (None # reads) = Inl Crypto"
| "absorb_stream st (Some chunk # reads) =
     (if chunk = [] then Inr st else absorb_stream (chain_absorb st chunk) reads)"

text \<open>Attesting a root once it is known.\<close>

definition attest_root :: "libcrux \<Rightarrow> xof \<Rightarrow> bytes result \<Rightarrow> verdict run" where
  "attest_root lib xof r w =
     (case r of Inl e \<Rightarrow> (Inl e, w) | Inr root \<Rightarrow> attest_bytes lib xof root w)"

definition attest_file_streaming_with_chunk_size ::
  "libcrux \<Rightarrow> xof \<Rightarrow> filesystem \<Rightarrow> bytes \<Rightarrow> nat \<Rightarrow> verdict run" where
  "attest_file_streaming_with_chunk_size lib xof fs path chunk_size w =
     (if chunk_size = 0 then (Inl Crypto, w)
      else case fs_stream fs path chunk_size of
        None \<Rightarrow> (Inl Crypto, w)
      | Some reads \<Rightarrow>
          attest_root lib xof (res_bind (absorb_stream chain_new reads) (chain_finalize xof)) w)"

definition attest_file_streaming :: "libcrux \<Rightarrow> xof \<Rightarrow> filesystem \<Rightarrow> bytes \<Rightarrow> verdict run" where
  "attest_file_streaming lib xof fs path w =
     attest_file_streaming_with_chunk_size lib xof fs path FILE_CHUNK w"

definition attest_with_vm :: "libcrux \<Rightarrow> xof \<Rightarrow> bytes \<Rightarrow> verdict run" where
  "attest_with_vm lib xof bs w = verify_once_with_vm lib xof (claim_new bs) w"

definition attest_with_oram :: "libcrux \<Rightarrow> xof \<Rightarrow> bytes \<Rightarrow> verdict run" where
  "attest_with_oram lib xof bs w = verify_once_with_oram lib xof (claim_new bs) w"

section \<open>Batches, chains and directories\<close>

definition attest_batch :: "libcrux \<Rightarrow> xof \<Rightarrow> bytes list \<Rightarrow> verdict run" where
  "attest_batch lib xof items w = verify_batch lib xof (map claim_new items) w"

definition attest_batch_texts :: "libcrux \<Rightarrow> xof \<Rightarrow> bytes list \<Rightarrow> verdict run" where
  "attest_batch_texts lib xof texts w = attest_batch lib xof texts w"

definition attest_chain :: "libcrux \<Rightarrow> xof \<Rightarrow> bytes list \<Rightarrow> verdict run" where
  "attest_chain lib xof events w = attest_root lib xof (chain_root xof events) w"

fun absorb_files :: "filesystem \<Rightarrow> chain_state \<Rightarrow> bytes list \<Rightarrow> chain_state result" where
  "absorb_files fs st [] = Inr st"
| "absorb_files fs st (path # paths) =
     (let st = chain_absorb st path in
      case fs_stream fs path FILE_CHUNK of
        None \<Rightarrow> Inl Crypto
      | Some reads \<Rightarrow> res_bind (absorb_stream st reads) (\<lambda>st. absorb_files fs st paths))"

definition attest_chain_files :: "libcrux \<Rightarrow> xof \<Rightarrow> filesystem \<Rightarrow> bytes list \<Rightarrow> verdict run" where
  "attest_chain_files lib xof fs paths w =
     (if paths = [] then (Inl Crypto, w)
      else attest_root lib xof (res_bind (absorb_files fs chain_new paths) (chain_finalize xof)) w)"

text \<open>The loop over the directory: collect the paths of the visible regular files.\<close>

fun collect_paths :: "dir_entry option list \<Rightarrow> bytes list result" where
  "collect_paths [] = Inr []"
| "collect_paths (None # es) = Inl Crypto"
| "collect_paths (Some e # es) =
     (case de_is_file e of
        None \<Rightarrow> Inl Crypto
      | Some False \<Rightarrow> collect_paths es
      | Some True \<Rightarrow>
          (if take 1 (de_name e) = ascii ''.'' then collect_paths es
           else res_bind (collect_paths es) (\<lambda>ps. Inr (de_path e # ps))))"

definition attest_directory :: "libcrux \<Rightarrow> xof \<Rightarrow> filesystem \<Rightarrow> bytes \<Rightarrow> verdict run" where
  "attest_directory lib xof fs dir w =
     (case fs_dir fs dir of
        None \<Rightarrow> (Inl Crypto, w)
      | Some entries \<Rightarrow>
          (case collect_paths entries of
             Inl e \<Rightarrow> (Inl e, w)
           | Inr paths \<Rightarrow>
               (if paths = [] then (Inl Crypto, w)
                else attest_chain_files lib xof fs (sort paths) w)))"

fun hash_files :: "xof \<Rightarrow> filesystem \<Rightarrow> bytes list \<Rightarrow> bytes list result" where
  "hash_files xof fs [] = Inr []"
| "hash_files xof fs (path # paths) =
     (case fs_stream fs path FILE_CHUNK of
        None \<Rightarrow> Inl Crypto
      | Some reads \<Rightarrow>
          res_bind (res_bind (absorb_stream chain_new reads) (chain_finalize xof)) (\<lambda>h.
          res_bind (hash_files xof fs paths) (\<lambda>hs. Inr (h # hs))))"

definition attest_file_merkle :: "libcrux \<Rightarrow> xof \<Rightarrow> filesystem \<Rightarrow> bytes list \<Rightarrow> verdict run" where
  "attest_file_merkle lib xof fs paths w =
     (if paths = [] then (Inl Crypto, w)
      else attest_root lib xof (res_bind (hash_files xof fs paths) (merkle_root xof)) w)"

section \<open>Relations and oracles\<close>

definition prove_hash_preimage :: "xof \<Rightarrow> bytes \<Rightarrow> world \<Rightarrow> verdict result outcome \<times> world" where
  "prove_hash_preimage xof seed w = prove_and_verify xof (lamport_relation xof) \<lparr>lw_seed = seed\<rparr> [] w"

definition prove_pedersen :: "xof \<Rightarrow> bytes \<Rightarrow> bytes \<Rightarrow> world \<Rightarrow> verdict result outcome \<times> world" where
  "prove_pedersen xof val blinding w =
     prove_and_verify xof (pedersen_relation xof) \<lparr>pw_value = val, pw_blinding = blinding\<rparr> [] w"

definition prove_merkle :: "xof \<Rightarrow> bytes list \<Rightarrow> nat \<Rightarrow> world \<Rightarrow> verdict result outcome \<times> world" where
  "prove_merkle xof leaves index w =
     prove_and_verify xof (merkle_relation xof) \<lparr>mw_leaves = leaves, mw_index = index\<rparr> [] w"

definition prove_range :: "xof \<Rightarrow> u64 \<Rightarrow> u64 \<Rightarrow> u64 \<Rightarrow> world \<Rightarrow> verdict result outcome \<times> world" where
  "prove_range xof val lo hi w =
     (if lo > hi then (Done (Inl Crypto), w)
      else prove_and_verify xof (range_relation xof) \<lparr>rw_value = val, rw_min = lo, rw_max = hi\<rparr> [] w)"

definition check_chain :: "xof \<Rightarrow> bytes list \<Rightarrow> bytes \<Rightarrow> bool" where
  "check_chain xof events expected_root \<longleftrightarrow> unwrap_u8 (chain_verify xof events expected_root) = 1"

definition check_merkle :: "xof \<Rightarrow> bytes \<Rightarrow> bytes \<Rightarrow> nat \<Rightarrow> bytes list \<Rightarrow> nat \<Rightarrow> bool" where
  "check_merkle xof leaf root index siblings leaf_count \<longleftrightarrow>
     unwrap_u8 (merkle_verify_path xof leaf root index siblings leaf_count) = 1"

definition threshold_attest ::
  "libcrux \<Rightarrow> xof \<Rightarrow> bytes \<Rightarrow> nat \<Rightarrow> nat \<Rightarrow> world \<Rightarrow> verdict result outcome \<times> world" where
  "threshold_attest lib xof bs n m w = threshold_verify lib xof (claim_new bs) n m w"

definition interface_blind_claim :: "xof \<Rightarrow> bytes \<Rightarrow> (bytes \<times> blind_factor) run" where
  "interface_blind_claim xof cl w =
     (case fresh_factor xof w of
        (Inl e, w) \<Rightarrow> (Inl e, w)
      | (Inr f, w) \<Rightarrow> (Inr (blind_claim cl f, f), w))"

definition attest_blinded :: "libcrux \<Rightarrow> xof \<Rightarrow> bytes \<Rightarrow> verdict run" where
  "attest_blinded lib xof blinded w = verify_once lib xof (claim_new blinded) w"

definition unblind_verdict :: "xof \<Rightarrow> verdict \<Rightarrow> blind_factor \<Rightarrow> bytes" where
  "unblind_verdict xof v f = unblind_transcript xof (v_transcript v) f"

definition attest_chain_entry :: "libcrux \<Rightarrow> xof \<Rightarrow> bytes \<Rightarrow> bytes option \<Rightarrow> verdict run" where
  "attest_chain_entry lib xof event prev_transcript w =
     (let chain_data = (case prev_transcript of None \<Rightarrow> [] | Some prev \<Rightarrow> prev);
          chain_data = chain_data @ event
      in verify_once lib xof (claim_new chain_data) w)"

section \<open>Streams as lists of events\<close>

text \<open>The chunks a read loop absorbs, or \<open>None\<close> when a read fails before the end.\<close>

fun stream_chunks :: "bytes option list \<Rightarrow> bytes list option" where
  "stream_chunks [] = Some []"
| "stream_chunks (None # reads) = None"
| "stream_chunks (Some chunk # reads) =
     (if chunk = [] then Some [] else map_option (Cons chunk) (stream_chunks reads))"

abbreviation absorb_all :: "bytes list \<Rightarrow> chain_state \<Rightarrow> chain_state" where
  "absorb_all events st \<equiv> fold (\<lambda>e s. chain_absorb s e) events st"

lemma absorb_stream_eq:
  "absorb_stream st reads =
     (case stream_chunks reads of None \<Rightarrow> Inl Crypto | Some cs \<Rightarrow> Inr (absorb_all cs st))"
  by (induction st reads rule: absorb_stream.induct) (auto split: option.split)

text \<open>The events a list of files contributes: each path, followed by the chunks of the file.\<close>

fun file_events :: "filesystem \<Rightarrow> bytes list \<Rightarrow> bytes list option" where
  "file_events fs [] = Some []"
| "file_events fs (path # paths) =
     Option.bind (fs_stream fs path FILE_CHUNK) (\<lambda>reads.
     Option.bind (stream_chunks reads) (\<lambda>cs.
     map_option (\<lambda>evs. path # cs @ evs) (file_events fs paths)))"

lemma absorb_files_eq:
  "absorb_files fs st paths =
     (case file_events fs paths of None \<Rightarrow> Inl Crypto | Some evs \<Rightarrow> Inr (absorb_all evs st))"
  by (induction fs st paths rule: absorb_files.induct)
    (auto simp: absorb_stream_eq Let_def split: option.split)

lemma attest_root_Inl [simp]: "attest_root lib xof (Inl e) w = (Inl e, w)"
  by (simp add: attest_root_def)

lemma attest_root_eq:
  "attest_root lib xof (chain_finalize xof (absorb_all evs chain_new)) w = attest_chain lib xof evs w"
  by (simp add: chain_finalize_fold attest_chain_def)

lemma streaming_eq:
  "0 < n \<Longrightarrow> attest_file_streaming_with_chunk_size lib xof fs path n w =
     (case Option.bind (fs_stream fs path n) stream_chunks of
        None \<Rightarrow> (Inl Crypto, w)
      | Some cs \<Rightarrow> attest_chain lib xof cs w)"
  by (simp add: attest_file_streaming_with_chunk_size_def absorb_stream_eq attest_root_eq split: option.split)

lemma chain_files_eq:
  "attest_chain_files lib xof fs paths w =
     (if paths = [] then (Inl Crypto, w)
      else case file_events fs paths of
        None \<Rightarrow> (Inl Crypto, w)
      | Some evs \<Rightarrow> attest_chain lib xof evs w)"
  by (simp add: attest_chain_files_def absorb_files_eq attest_root_eq split: option.split)

lemma attest_chain_Nil [simp]: "attest_chain lib xof [] w = (Inl Crypto, w)"
  by (simp add: attest_chain_def chain_root_def)

section \<open>Directories\<close>

definition entry_fails :: "dir_entry option \<Rightarrow> bool" where
  "entry_fails e \<longleftrightarrow> (case e of None \<Rightarrow> True | Some d \<Rightarrow> de_is_file d = None)"

definition entry_paths :: "dir_entry option \<Rightarrow> bytes list" where
  "entry_paths e =
     (case e of
        None \<Rightarrow> []
      | Some d \<Rightarrow> if de_is_file d = Some True \<and> take 1 (de_name d) \<noteq> ascii ''.'' then [de_path d] else [])"

lemma collect_paths_eq:
  "collect_paths es = (if list_ex entry_fails es then Inl Crypto else Inr (concat (map entry_paths es)))"
proof (induction es rule: collect_paths.induct)
  case (3 e es)
  then show ?case
    by (cases "de_is_file e" rule: option.exhaust; cases "the (de_is_file e)")
      (auto simp: entry_fails_def entry_paths_def)
qed (simp_all add: entry_fails_def)

lemma mset_concat_map_eq:
  "mset es = mset es' \<Longrightarrow> mset (concat (map f es)) = mset (concat (map f es'))"
  by (simp add: mset_concat sum_mset_sum_list [symmetric])

lemma collect_paths_permuted:
  assumes "mset es = mset es'"
  shows "map_sum id sort (collect_paths es) = map_sum id sort (collect_paths es')"
proof -
  have "list_ex entry_fails es \<longleftrightarrow> list_ex entry_fails es'"
    using mset_eq_setD [OF assms] by (simp add: list_ex_iff)
  moreover have "sort (concat (map entry_paths es)) = sort (concat (map entry_paths es'))"
    using mset_concat_map_eq [OF assms, of entry_paths] by (metis sorted_list_of_multiset_mset)
  ultimately show ?thesis by (simp add: collect_paths_eq)
qed

lemma attest_directory_eq:
  "attest_directory lib xof fs dir w =
     (case map_option (map_sum id sort \<circ> collect_paths) (fs_dir fs dir) of
        Some (Inr ps) \<Rightarrow> attest_chain_files lib xof fs ps w
      | _ \<Rightarrow> (Inl Crypto, w))"
proof -
  have "sort ps = [] \<longleftrightarrow> ps = []" for ps :: "bytes list" by (metis length_0_conv length_sort)
  then show ?thesis
    by (auto simp: attest_directory_def collect_paths_eq chain_files_eq split: option.split)
qed

section \<open>Properties\<close>

text \<open>Streaming attestation attests the event chain of the chunks, for every chunk size and every
  way reads can end or fail; it is not the attestation of the file's bytes. On an empty
  file the two differ in outcome: loading it yields a verdict, streaming it an error.\<close>

theorem streaming_attests_chain:
  "attest_file_streaming_with_chunk_size lib xof fs path n w =
     (if n = 0 then (Inl Crypto, w)
      else case Option.bind (fs_stream fs path n) stream_chunks of
        None \<Rightarrow> (Inl Crypto, w)
      | Some cs \<Rightarrow> attest_chain lib xof cs w) \<and>
   attest_file lib xof \<lparr>fs_read = \<lambda>_. Some [], fs_stream = \<lambda>_ _. Some [], fs_dir = d, fs_size = sz\<rparr> path w =
     verify_once lib xof (claim_new []) w \<and>
   attest_file_streaming lib xof \<lparr>fs_read = \<lambda>_. Some [], fs_stream = \<lambda>_ _. Some [], fs_dir = d, fs_size = sz\<rparr> path w =
     (Inl Crypto, w)"
  by (cases "n = 0")
    (simp_all add: streaming_eq attest_file_def attest_bytes_def attest_file_streaming_def
      FILE_CHUNK_def attest_file_streaming_with_chunk_size_def [of _ _ _ _ 0])

text \<open>The attestation of a list of files is that of one chain, in which paths and chunks are
  events alike. File boundaries are therefore not bound: a file whose content is the name
  of another gives the same verdict as two empty files of those names.\<close>

theorem chain_files_ambiguous:
  assumes "fs_stream fs1 a FILE_CHUNK = Some [Some b]" and "b \<noteq> []"
    and "fs_stream fs2 a FILE_CHUNK = Some []" and "fs_stream fs2 b FILE_CHUNK = Some []"
  shows "attest_chain_files lib xof fs1 [a] w = attest_chain lib xof [a, b] w \<and>
    attest_chain_files lib xof fs2 [a, b] w = attest_chain lib xof [a, b] w"
  using assms by (simp add: chain_files_eq)

theorem chain_files_ambiguous_witness:
  "\<exists>fs1 fs2. fs_stream fs1 [1] FILE_CHUNK \<noteq> fs_stream fs2 [1] FILE_CHUNK \<and>
     attest_chain_files demo_libcrux (\<lambda>m i. 7) fs1 [[1]] quiet_world =
     attest_chain_files demo_libcrux (\<lambda>m i. 7) fs2 [[1], [2]] quiet_world"
proof -
  let ?fs1 = "\<lparr>fs_read = \<lambda>_. None, fs_stream = \<lambda>p n. Some [Some [2]], fs_dir = \<lambda>_. None, fs_size = \<lambda>_. None\<rparr>"
  let ?fs2 = "?fs1\<lparr>fs_stream := \<lambda>p n. Some []\<rparr>"
  have "attest_chain_files demo_libcrux (\<lambda>m i. 7) ?fs1 [[1]] quiet_world =
      attest_chain_files demo_libcrux (\<lambda>m i. 7) ?fs2 [[1], [2]] quiet_world"
    using chain_files_ambiguous [of ?fs1 "[1]" "[2]" ?fs2 demo_libcrux "\<lambda>m i. 7" quiet_world] by simp
  then show ?thesis by (intro exI [of _ ?fs1] exI [of _ ?fs2]) simp
qed

text \<open>Directory attestation does not depend on the order in which the operating system lists the
  entries: two listings with the same entries, in any order, give the same result, errors
  included.\<close>

theorem directory_order_irrelevant:
  assumes "fs_dir fs dir = Some es" and "mset es = mset es'"
  shows "attest_directory lib xof fs dir w =
    attest_directory lib xof (fs\<lparr>fs_dir := (fs_dir fs)(dir := Some es')\<rparr>) dir w"
proof -
  let ?fs' = "fs\<lparr>fs_dir := (fs_dir fs)(dir := Some es')\<rparr>"
  have ev: "file_events ?fs' ps = file_events fs ps" for ps by (induction ps) simp_all
  have "attest_chain_files lib xof ?fs' ps w = attest_chain_files lib xof fs ps w" for ps
    by (simp add: chain_files_eq ev)
  then show ?thesis
    using assms(1) collect_paths_permuted [OF assms(2)] by (simp add: attest_directory_eq split: sum.split)
qed

theorem directory_order_irrelevant_witness:
  "let e1 = Some \<lparr>de_is_file = Some True, de_name = [1], de_path = [1]\<rparr>;
       e2 = Some \<lparr>de_is_file = Some True, de_name = [2], de_path = [2]\<rparr>;
       fs = \<lparr>fs_read = \<lambda>_. None, fs_stream = \<lambda>_ _. Some [], fs_dir = \<lambda>_. Some [e1, e2], fs_size = \<lambda>_. None\<rparr>
   in attest_directory demo_libcrux (\<lambda>m i. 7) fs [] quiet_world =
      attest_directory demo_libcrux (\<lambda>m i. 7) (fs\<lparr>fs_dir := (fs_dir fs)([] := Some [e2, e1])\<rparr>) [] quiet_world"
  unfolding Let_def by (rule directory_order_irrelevant, simp, simp add: add_mset_commute)

text \<open>A chain entry with a predecessor is an entry without one whose event starts with the predecessor.\<close>

lemma chain_entry_ambiguous:
  "attest_chain_entry lib xof event (Some prev) w = attest_chain_entry lib xof (prev @ event) None w"
  by (simp add: attest_chain_entry_def)

section \<open>Files under a Merkle root\<close>

text \<open>The digest of one file: the chain root of its chunks, if every read succeeds and there is one.\<close>

definition file_digest :: "xof \<Rightarrow> filesystem \<Rightarrow> bytes \<Rightarrow> bytes option" where
  "file_digest xof fs path =
     Option.bind (fs_stream fs path FILE_CHUNK) (\<lambda>reads.
     Option.bind (stream_chunks reads) (\<lambda>cs.
     case chain_root xof cs of Inl e \<Rightarrow> None | Inr h \<Rightarrow> Some h))"

lemma hash_files_eq:
  "hash_files xof fs paths =
     (case those (map (file_digest xof fs) paths) of None \<Rightarrow> Inl Crypto | Some ds \<Rightarrow> Inr ds)"
  by (induction xof fs paths rule: hash_files.induct)
    (auto simp: file_digest_def absorb_stream_eq chain_finalize_fold chain_root_eq split: option.split)

lemma those_length: "those xs = Some ys \<Longrightarrow> length ys = length xs"
  by (induction xs arbitrary: ys) (auto split: option.splits)

lemma check_merkle_honest:
  assumes "i < length leaves"
  obtains root sibs where "merkle_root xof leaves = Inr root"
    and "check_merkle xof (leaf_hash xof (leaves ! i)) root i sibs (length leaves)"
proof -
  from assms obtain stmt pf where
    "merkle_prove xof \<lparr>mw_leaves = leaves, mw_index = i\<rparr> [] = Inr (stmt, pf)"
      and "mp_index pf = i" "mp_leaf_count pf = length leaves"
    by (auto simp: merkle_prove_eq merkle_holds_def)
  with merkle_prove_verify [where xof = xof and leaves = leaves and i = i and entropy = "[]"] show thesis
    by (intro that [of "ms_root stmt" "mp_siblings pf"]) (auto simp: check_merkle_def choice_of_def)
qed

text \<open>C22. Attesting files under a Merkle root: the call is an error exactly when there is no path,
  or some file cannot be read to its end or is empty; otherwise it attests one root, and for
  every file there is a path of siblings with which \<open>check_merkle\<close> accepts the file's digest
  at its position under that root.\<close>

theorem file_merkle_inclusion:
  "case those (map (file_digest xof fs) paths) of
     None \<Rightarrow> attest_file_merkle lib xof fs paths w = (Inl Crypto, w)
   | Some [] \<Rightarrow> attest_file_merkle lib xof fs paths w = (Inl Crypto, w)
   | Some ds \<Rightarrow> \<exists>root. attest_file_merkle lib xof fs paths w = attest_bytes lib xof root w \<and>
       (\<forall>i < length paths. \<exists>sibs. check_merkle xof (leaf_hash xof (ds ! i)) root i sibs (length paths))"
proof (cases "those (map (file_digest xof fs) paths)")
  case None
  then show ?thesis by (simp add: attest_file_merkle_def hash_files_eq)
next
  case (Some ds)
  have len: "length ds = length paths" using those_length [OF Some] by simp
  show ?thesis
  proof (cases ds)
    case Nil
    with Some len show ?thesis by (simp add: attest_file_merkle_def)
  next
    case (Cons d ds')
    then obtain root where root: "merkle_root xof ds = Inr root" by (simp add: merkle_root_def)
    have "\<exists>sibs. check_merkle xof (leaf_hash xof (ds ! i)) root i sibs (length paths)" if "i < length paths" for i
      using check_merkle_honest [where i = i and leaves = ds and xof = xof] that root len by (metis Inr_inject)
    moreover have "attest_file_merkle lib xof fs paths w = attest_bytes lib xof root w"
      using Some Cons len root by (auto simp: attest_file_merkle_def hash_files_eq attest_root_def)
    ultimately show ?thesis using Some Cons by auto
  qed
qed

theorem file_merkle_inclusion_witness:
  "\<exists>root sibs. let fs = \<lparr>fs_read = \<lambda>p. Some p, fs_stream = \<lambda>p n. Some [Some p, Some []], fs_dir = \<lambda>p. None, fs_size = \<lambda>p. None\<rparr> in
     attest_file_merkle demo_libcrux (\<lambda>m i. 7) fs [[1], [2], [3]] quiet_world = attest_bytes demo_libcrux (\<lambda>m i. 7) root quiet_world \<and>
     check_merkle (\<lambda>m i. 7) (leaf_hash (\<lambda>m i. 7) (shake256_ema (\<lambda>m i. 7) 32 (chain_message [[3]]))) root 2 sibs 3"
  using file_merkle_inclusion [where xof = "\<lambda>m i. 7" and
      fs = "\<lparr>fs_read = \<lambda>p. Some p, fs_stream = \<lambda>p n. Some [Some p, Some []], fs_dir = \<lambda>p. None, fs_size = \<lambda>p. None\<rparr>" and
      paths = "[[1], [2], [3]]" and lib = demo_libcrux and w = quiet_world]
  by (simp add: file_digest_def chain_root_eq Let_def) (metis lessI nth_Cons_0 nth_Cons_Suc numeral_2_eq_2 numeral_3_eq_3)

end
