(* ===== verification/Hybrid.thy ===== *)
theory Hybrid
  imports Pipeline
begin

text \<open>
  Hybrid attestation, \<^verbatim>\<open>src/src/hybrid.rs\<close>: the post-quantum iteration together with a keyed
  hash over the claim, under a key derived from the same seed.
\<close>

definition HYBRID_MAC :: bytes where "HYBRID_MAC = ascii ''veil7:hybrid:mac:v1''"
definition HYBRID_KEY :: bytes where "HYBRID_KEY = ascii ''veil7:hybrid:key:v1''"
definition HYBRID_BIND :: bytes where "HYBRID_BIND = ascii ''veil7:hybrid:bind:v1''"

definition hybrid_mac_key :: "xof \<Rightarrow> seed \<Rightarrow> bytes" where
  "hybrid_mac_key xof seed =
     (let h = update shake_new HYBRID_KEY;
          h = update h seed
      in squeeze xof h 32)"

definition hybrid_mac :: "xof \<Rightarrow> bytes \<Rightarrow> bytes \<Rightarrow> bytes" where
  "hybrid_mac xof mac_key cl =
     (let h = update shake_new HYBRID_MAC;
          h = update h mac_key;
          h = update h cl
      in squeeze xof h 32)"

definition hybrid_bind :: "xof \<Rightarrow> commitment \<Rightarrow> bytes" where
  "hybrid_bind xof c =
     (let h = update shake_new HYBRID_BIND;
          h = update h (commitment_bytes c)
      in squeeze xof h 32)"

definition hybrid_attest :: "libcrux \<Rightarrow> xof \<Rightarrow> claim \<Rightarrow> world \<Rightarrow> verdict result \<times> world" where
  "hybrid_attest lib xof cl w =
     (case harvest xof (cl_personalization cl) w of
        (Inl e, w) \<Rightarrow> (Inl e, w)
      | (Inr seed, w) \<Rightarrow>
          (res_bind (derive_keys lib xof seed) (\<lambda>keys.
             let mac_key = hybrid_mac_key xof seed;
                 c = commit xof keys (cl_bytes cl)
             in res_bind (mldsa_prover lib xof keys c) (\<lambda>pf.
                res_bind (mldsa_verifier lib xof keys (cl_bytes cl) pf) (\<lambda>pq_valid.
                  let mac = hybrid_mac xof mac_key (cl_bytes cl);
                      mac_check = hybrid_mac xof mac_key (cl_bytes cl);
                      classical_valid = ct_eq mac mac_check;
                      combined = choice_and pq_valid classical_valid
                  in Inr (from_batch combined (hybrid_bind xof c))))), w))"

section \<open>The classical layer\<close>

lemma choice_and_true: "choice_wf c \<Longrightarrow> choice_and c (ct_eq x x) = c"
  by (auto simp: choice_wf_iff ct_eq_def)

lemma hybrid_attest_eq:
  "hybrid_attest lib xof cl w =
     (case harvest xof (cl_personalization cl) w of
        (Inl e, w) \<Rightarrow> (Inl e, w)
      | (Inr seed, w) \<Rightarrow>
          (res_bind (derive_keys lib xof seed) (\<lambda>keys.
             res_bind (mldsa_prover lib xof keys (commit xof keys (cl_bytes cl))) (\<lambda>pf.
             res_bind (mldsa_verifier lib xof keys (cl_bytes cl) pf) (\<lambda>pq_valid.
               Inr (from_batch pq_valid (hybrid_bind xof (commit xof keys (cl_bytes cl))))))), w))"
proof -
  have "res_bind (mldsa_verifier lib xof keys c pf) (\<lambda>v. Inr (from_batch (choice_and v (ct_eq x x)) t)) =
      res_bind (mldsa_verifier lib xof keys c pf) (\<lambda>v. Inr (from_batch v t))" for keys c pf x t
    by (cases "mldsa_verifier lib xof keys c pf") (simp_all add: choice_and_true mldsa_verifier_wf)
  then show ?thesis by (simp add: hybrid_attest_def Let_def split: prod.split sum.split)
qed

text \<open>
  The hybrid transcript is the hash of the commitment under its own tag; it does not
  depend on the keyed hash.
\<close>

lemma hybrid_transcript:
  assumes "libcrux_correct lib" and "harvest xof (cl_personalization cl) w = (Inr seed, w')"
    and "iteration_sig lib xof seed (cl_bytes cl) = Some s"
  shows "hybrid_attest lib xof cl w =
    (Inr \<lparr>v_valid = choice_of True,
       v_transcript = shake256_ema xof 32 (HYBRID_BIND @
         shake256_ema xof 32 (commit_message (keys_of lib xof seed) (cl_bytes cl)))\<rparr>, w')"
proof -
  let ?k = "keys_of lib xof seed"
  have "mldsa_prover lib xof ?k (commit xof ?k (cl_bytes cl)) = Inr \<lparr>pr_sig = s\<rparr>"
    using assms(3) by (simp add: mldsa_prover_def dsa_sign_def iteration_sig_def sig_ctx_def Let_def)
  moreover have "mldsa_verifier lib xof ?k (cl_bytes cl) \<lparr>pr_sig = s\<rparr> = Inr (choice_of True)"
    using assms by (auto simp: mldsa_verifier_def iteration_sig_def libcrux_correct_def kem_roundtrip_correct
        dsa_correct_def keys_of_sel sig_ctx_def Let_def)
  ultimately show ?thesis
    using assms(2) derive_keys_correct [OF assms(1), of xof seed]
    by (simp add: hybrid_attest_eq from_batch_def hybrid_bind_def squeeze_eq commit_eq Let_def)
qed

definition validity :: "verdict result \<Rightarrow> choice result" where
  "validity r = res_bind r (\<lambda>v. Inr (v_valid v))"

lemma validity_simps [simp]: "validity (Inl e) = Inl e" "validity (Inr v) = Inr (v_valid v)"
  by (simp_all add: validity_def)

section \<open>Properties\<close>

text \<open>C40. The hybrid verdict is the post-quantum verdict: for every library, hash, claim and machine,
  correct or not, the hybrid call fails with the same error, or emits the same validity
  bit, as the plain iteration, and leaves the machine in the same state. The keyed hash is
  compared with a second computation of itself, so the classical layer never decides.\<close>

theorem hybrid_is_post_quantum:
  "validity (fst (hybrid_attest lib xof cl w)) = validity (fst (verify_once lib xof cl w)) \<and>
   snd (hybrid_attest lib xof cl w) = snd (verify_once lib xof cl w)"
proof -
  obtain r w' where h: "harvest xof (cl_personalization cl) w = (r, w')" by (metis prod.exhaust)
  have "validity (res_bind k (\<lambda>keys. res_bind (p keys) (\<lambda>pf. res_bind (q keys pf) (\<lambda>v. Inr (from_batch v (t keys)))))) =
      validity (res_bind k (\<lambda>keys. res_bind (p keys) (\<lambda>pf. res_bind (q keys pf) (\<lambda>v. Inr (verdict_new xof v (c keys))))))"
    for k :: "ephemeral_keys result" and p :: "ephemeral_keys \<Rightarrow> sig_proof result" and q t c
    by (simp add: validity_def res_bind_def from_batch_def verdict_new_def Let_def split: sum.split)
  then show ?thesis
    by (cases r)
      (simp_all add: hybrid_attest_eq verify_once_def h verify_default_def verify_once_with_seed_def
        res_bind_def Let_def validity_def from_batch_def verdict_new_def split: sum.split)
qed

end
