(* ===== verification/Cli.thy ===== *)
theory Cli
  imports Interface Hybrid Ml_Dsa_Relation
begin

text \<open>
  The command line of \<^verbatim>\<open>src/src/main.rs\<close>: hexadecimal codecs, number parsing, the path and
  size guards, and the dispatch of every subcommand, as a function from the arguments (the
  bytes of the decoded strings, the program name first) to the lines it prints. A panic
  prints the line of the hook and ends the process.
\<close>

datatype line = Stdout bytes | Stderr bytes

section \<open>Hexadecimal\<close>

definition HEX :: bytes where "HEX = ascii ''0123456789abcdef''"

definition hex :: "bytes \<Rightarrow> bytes" where
  "hex bs = concat (map (\<lambda>b. [HEX ! unat (drop_bit 4 b), HEX ! unat (b AND 0x0f)]) bs)"

definition hex64 :: "bytes \<Rightarrow> bytes" where
  "hex64 bs = concat (map (\<lambda>b. [HEX ! unat (drop_bit 4 b), HEX ! unat (b AND 0x0f)]) bs)"

text \<open>The byte ranges \<open>'0'..='9'\<close>, \<open>'a'..='f'\<close> and \<open>'A'..='F'\<close>.\<close>

definition hex_nibble :: "byte \<Rightarrow> byte option" where
  "hex_nibble b =
     (if 48 \<le> b \<and> b \<le> 57 then Some (b - 48)
      else if 97 \<le> b \<and> b \<le> 102 then Some (b - 97 + 10)
      else if 65 \<le> b \<and> b \<le> 70 then Some (b - 65 + 10)
      else None)"

text \<open>The pairwise loop that both decoders run.\<close>

fun hex_pairs :: "bytes \<Rightarrow> bytes option" where
  "hex_pairs (c1 # c2 # cs) =
     (case hex_nibble c1 of None \<Rightarrow> None | Some hi \<Rightarrow>
      case hex_nibble c2 of None \<Rightarrow> None | Some lo \<Rightarrow>
      map_option (Cons (push_bit 4 hi OR lo)) (hex_pairs cs))"
| "hex_pairs _ = Some []"

definition hex_decode :: "bytes \<Rightarrow> bytes option" where
  "hex_decode s = (if length s mod 2 \<noteq> 0 then None else hex_pairs s)"

definition parse_hex_root :: "bytes \<Rightarrow> bytes option" where
  "parse_hex_root s = (if length s \<noteq> 64 then None else hex_pairs s)"

section \<open>Numbers\<close>

text \<open>
  \<open>str::parse\<close> for the 64-bit unsigned types: an optional plus sign, at least one digit,
  no overflow.
\<close>

fun parse_digits :: "nat \<Rightarrow> bytes \<Rightarrow> nat option" where
  "parse_digits acc [] = Some acc"
| "parse_digits acc (c # cs) =
     (if 48 \<le> c \<and> c \<le> 57
      then (let acc = acc * 10 + unat (c - 48) in if acc < 2 ^ 64 then parse_digits acc cs else None)
      else None)"

definition parse_uint :: "bytes \<Rightarrow> nat option" where
  "parse_uint s =
     (let digits = (if take 1 s = ascii ''+'' then drop 1 s else s)
      in if digits = [] then None else parse_digits 0 digits)"

text \<open>Display of an unsigned integer.\<close>

fun show_nat :: "nat \<Rightarrow> bytes" where
  "show_nat n = (if n < 10 then [of_nat n + 48] else show_nat (n div 10) @ [of_nat (n mod 10) + 48])"

declare show_nat.simps [simp del]

definition show_bit :: "bool \<Rightarrow> bytes" where
  "show_bit b = show_nat (of_bool b)"

section \<open>Guards\<close>

definition MAX_FILE_SIZE :: nat where "MAX_FILE_SIZE = 100 * 1024 * 1024"

definition BLOCKED_PREFIXES :: "bytes list" where
  "BLOCKED_PREFIXES = map ascii [''/proc/'', ''/dev/'', ''/proc'', ''/dev'']"

definition is_blocked_path :: "bytes \<Rightarrow> bool" where
  "is_blocked_path path \<longleftrightarrow> list_ex (\<lambda>p. take (length p) path = p) BLOCKED_PREFIXES"

definition is_file_too_large :: "filesystem \<Rightarrow> bytes \<Rightarrow> bool" where
  "is_file_too_large fs path =
     (case fs_size fs path of Some len \<Rightarrow> len > MAX_FILE_SIZE | None \<Rightarrow> False)"

section \<open>Printing\<close>

definition refused :: "line list" where
  "refused = [Stdout (ascii ''valid=0 transcript=-'')]"

definition print_verdict :: "verdict \<Rightarrow> line list" where
  "print_verdict v =
     [Stdout (ascii ''valid='' @ show_bit (is_valid_bool v) @ ascii '' transcript='' @ hex (v_transcript v))]"

definition print_help :: "line list" where
  "print_help = map (\<lambda>s. Stderr (ascii s))
     [''veil7'',
      ''sign <text> | sign-file <path> | sign-stream <path>'',
      ''blind-sign <text> | hybrid-sign <text>'',
      ''batch-sign <t1> <t2>.. | threshold <n> <m> <text>'',
      ''chain <ev>.. | chain-root <ev>.. | chain-entry <ev> [prev_hex] | verify <hex> <ev>..'',
      ''vm-execute <hex>'',
      ''prove hash-preimage | ml-dsa | pedersen | range-proof | merkle-root | merkle-include'',
      ''help'']"

text \<open>The match on the result of an engine call that most subcommands end with.\<close>

definition report :: "(verdict \<Rightarrow> line list) \<Rightarrow> verdict result \<Rightarrow> line list" where
  "report pr r = (case r of Inr v \<Rightarrow> pr v | Inl _ \<Rightarrow> refused)"

definition map_outcome :: "('a \<Rightarrow> 'b) \<Rightarrow> 'a outcome \<Rightarrow> 'b outcome" where
  "map_outcome f x = (case x of Done y \<Rightarrow> Done (f y) | Panic \<Rightarrow> Panic)"

text \<open>\<open>args.get(i)\<close> with the empty string as default.\<close>

definition arg :: "bytes list \<Rightarrow> nat \<Rightarrow> bytes" where
  "arg args i = (if i < length args then args ! i else [])"

section \<open>The subcommand \<open>prove\<close>\<close>

fun decode_all :: "(bytes \<Rightarrow> bytes option) \<Rightarrow> bytes list \<Rightarrow> bytes list option" where
  "decode_all f [] = Some []"
| "decode_all f (x # xs) =
     (case f x of None \<Rightarrow> None | Some y \<Rightarrow> map_option (Cons y) (decode_all f xs))"

definition prove_merkle_root :: "xof \<Rightarrow> bytes list \<Rightarrow> line list" where
  "prove_merkle_root xof rest =
     (case decode_all hex_decode rest of
        None \<Rightarrow> refused
      | Some leaves \<Rightarrow>
          (if leaves = [] then refused
           else case merkle_root xof leaves of
             Inr root \<Rightarrow> [Stdout (ascii ''root='' @ hex root)]
           | Inl _ \<Rightarrow> refused))"

text \<open>\<open>1usize << n\<close> panics from \<open>n = 64\<close> on.\<close>

definition prove_merkle_include :: "xof \<Rightarrow> bytes list \<Rightarrow> line list outcome" where
  "prove_merkle_include xof rest =
     (if length rest < 3 then Done refused
      else case (parse_hex_root (rest ! 0), parse_hex_root (rest ! 1), parse_uint (rest ! 2), decode_all parse_hex_root (drop 3 rest)) of
        (Some leaf, Some root, Some index, Some siblings) \<Rightarrow>
          (if 64 \<le> length siblings then Panic
           else
             let leaf_count = (if siblings = [] then 1 else 2 ^ length siblings);
                 ok = merkle_verify_path xof leaf root index siblings leaf_count
             in Done (if unwrap_u8 ok = 1
                      then [Stdout (ascii ''valid=1 transcript='' @ hex root)]
                      else [Stdout (ascii ''valid=0 transcript='' @ hex root)]))
      | _ \<Rightarrow> Done refused)"

definition parse_u64_or_0 :: "bytes \<Rightarrow> u64" where
  "parse_u64_or_0 s = (case parse_uint s of Some n \<Rightarrow> of_nat n | None \<Rightarrow> 0)"

definition run_prove ::
  "libcrux \<Rightarrow> xof \<Rightarrow> bytes \<Rightarrow> bytes list \<Rightarrow> world \<Rightarrow> line list outcome \<times> world" where
  "run_prove lib xof relation rest w =
     (if relation = ascii ''hash-preimage'' then
        (case parse_hex_root (arg rest 0) of
           None \<Rightarrow> (Done refused, w)
         | Some seed \<Rightarrow>
             apfst (map_outcome (report print_verdict))
               (prove_and_verify xof (lamport_relation xof) \<lparr>lw_seed = seed\<rparr> [] w))
      else if relation = ascii ''merkle-root'' then (Done (prove_merkle_root xof rest), w)
      else if relation = ascii ''merkle-include'' then (prove_merkle_include xof rest, w)
      else if relation = ascii ''ml-dsa'' then
        (case parse_hex_root (arg rest 0) of
           None \<Rightarrow> (Done refused, w)
         | Some seed \<Rightarrow>
             apfst (map_outcome (report print_verdict))
               (prove_and_verify xof (mldsa_relation lib xof) \<lparr>mdw_seed = seed\<rparr> [] w))
      else if relation = ascii ''pedersen'' then
        (case parse_hex_root (arg rest 0) of
           None \<Rightarrow> (Done refused, w)
         | Some val \<Rightarrow>
             (case parse_hex_root (arg rest 1) of
                None \<Rightarrow> (Done refused, w)
              | Some blinding \<Rightarrow>
                  apfst (map_outcome (report print_verdict))
                    (prove_and_verify xof (pedersen_relation xof) \<lparr>pw_value = val, pw_blinding = blinding\<rparr> [] w)))
      else if relation = ascii ''range-proof'' then
        (let wit = \<lparr>rw_value = parse_u64_or_0 (arg rest 0), rw_min = parse_u64_or_0 (arg rest 1),
                    rw_max = parse_u64_or_0 (arg rest 2)\<rparr>
         in apfst (map_outcome (report print_verdict)) (prove_and_verify xof (range_relation xof) wit [] w))
      else (Done print_help, w))"

section \<open>The other subcommands\<close>

definition cmd_sign_file ::
  "filesystem \<Rightarrow> (bytes \<Rightarrow> verdict run) \<Rightarrow> bytes \<Rightarrow> world \<Rightarrow> line list \<times> world" where
  "cmd_sign_file fs attest path w =
     (if is_blocked_path path then (refused, w)
      else if is_file_too_large fs path then (refused, w)
      else apfst (report print_verdict) (attest path w))"

definition cmd_chain :: "libcrux \<Rightarrow> xof \<Rightarrow> bytes list \<Rightarrow> world \<Rightarrow> line list \<times> world" where
  "cmd_chain lib xof events w =
     apfst (report (\<lambda>v. case chain_root xof events of
         Inr root \<Rightarrow> [Stdout (ascii ''root='' @ hex root @ ascii '' valid='' @ show_bit (is_valid_bool v) @
                             ascii '' transcript='' @ hex (v_transcript v))]
       | Inl _ \<Rightarrow> refused))
     (attest_chain lib xof events w)"

definition cmd_chain_root :: "xof \<Rightarrow> bytes list \<Rightarrow> line list" where
  "cmd_chain_root xof events =
     (case chain_root xof events of
        Inr root \<Rightarrow> [Stdout (ascii ''root='' @ hex root)]
      | Inl _ \<Rightarrow> refused)"

definition cmd_verify :: "xof \<Rightarrow> bytes \<Rightarrow> bytes list \<Rightarrow> line list" where
  "cmd_verify xof hex_root events =
     (case parse_hex_root hex_root of
        None \<Rightarrow> refused
      | Some expected \<Rightarrow>
          (if unwrap_u8 (chain_verify xof events expected) = 1
           then [Stdout (ascii ''valid=1 transcript='' @ hex_root)]
           else case chain_root xof events of
             Inr actual \<Rightarrow> [Stdout (ascii ''valid=0 transcript='' @ hex actual)]
           | Inl _ \<Rightarrow> refused))"

definition cmd_batch_sign :: "libcrux \<Rightarrow> xof \<Rightarrow> bytes list \<Rightarrow> world \<Rightarrow> line list \<times> world" where
  "cmd_batch_sign lib xof texts w =
     (let claims = map claim_new texts in
      if claims = [] then (refused, w)
      else apfst (report (\<lambda>v. [Stdout (ascii ''valid='' @ show_bit (is_valid_bool v) @ ascii '' transcript='' @
                                 hex (v_transcript v) @ ascii '' count='' @ show_nat (length claims))]))
             (verify_batch lib xof claims w))"

definition cmd_blind_sign :: "libcrux \<Rightarrow> xof \<Rightarrow> bytes \<Rightarrow> world \<Rightarrow> line list \<times> world" where
  "cmd_blind_sign lib xof txt w =
     (case blind_attest lib xof txt w of
        (Inr (v, unblinded), w) \<Rightarrow>
          ([Stdout (ascii ''valid='' @ show_bit (is_valid_bool v) @ ascii '' transcript='' @ hex (v_transcript v) @
                    ascii '' unblinded='' @ hex unblinded)], w)
      | (Inl _, w) \<Rightarrow> (refused, w))"

definition cmd_threshold :: "libcrux \<Rightarrow> xof \<Rightarrow> bytes \<Rightarrow> bytes \<Rightarrow> bytes \<Rightarrow> world \<Rightarrow> line list outcome \<times> world" where
  "cmd_threshold lib xof n_arg m_arg txt w =
     (let n = (case parse_uint n_arg of Some k \<Rightarrow> k | None \<Rightarrow> 0);
          m = (case parse_uint m_arg of Some k \<Rightarrow> k | None \<Rightarrow> 0)
      in apfst (map_outcome (report (\<lambda>v.
             [Stdout (ascii ''valid='' @ show_bit (is_valid_bool v) @ ascii '' transcript='' @ hex (v_transcript v) @
                      ascii '' n='' @ show_nat n @ ascii '' m='' @ show_nat m)])))
           (threshold_verify lib xof (claim_new txt) n m w))"

definition cmd_vm_execute :: "xof \<Rightarrow> bytes \<Rightarrow> world \<Rightarrow> line list \<times> world" where
  "cmd_vm_execute xof hex_code w =
     (case hex_decode hex_code of
        None \<Rightarrow> (refused, w)
      | Some code \<Rightarrow>
          (let (rnd, w) = getrandom 8 w;
               root = fst (execute xof (vm_new rnd) code)
           in (if root = zeros 64 then refused
               else [Stdout (ascii ''valid=1 root='' @ hex64 root)], w)))"

definition cmd_chain_entry :: "libcrux \<Rightarrow> xof \<Rightarrow> bytes \<Rightarrow> bytes \<Rightarrow> world \<Rightarrow> line list \<times> world" where
  "cmd_chain_entry lib xof event prev_hex w =
     (let prev = (if prev_hex = [] then None else parse_hex_root prev_hex)
      in apfst (report print_verdict) (attest_chain_entry lib xof event prev w))"

section \<open>Dispatch\<close>

definition finished :: "line list \<times> world \<Rightarrow> line list outcome \<times> world" where
  "finished r = apfst Done r"

definition dispatch ::
  "libcrux \<Rightarrow> xof \<Rightarrow> filesystem \<Rightarrow> bytes list \<Rightarrow> world \<Rightarrow> line list outcome \<times> world" where
  "dispatch lib xof fs args w =
     (let cmd = args ! 1; a = arg args in
      if cmd = ascii ''sign'' then finished (apfst (report print_verdict) (attest_text lib xof (a 2) w))
      else if cmd = ascii ''sign-file'' then finished (cmd_sign_file fs (attest_file lib xof fs) (a 2) w)
      else if cmd = ascii ''sign-stream'' then finished (cmd_sign_file fs (attest_file_streaming lib xof fs) (a 2) w)
      else if cmd = ascii ''chain'' then finished (cmd_chain lib xof (drop 2 args) w)
      else if cmd = ascii ''chain-root'' then (Done (cmd_chain_root xof (drop 2 args)), w)
      else if cmd = ascii ''verify'' then (Done (cmd_verify xof (a 2) (drop 3 args)), w)
      else if cmd = ascii ''prove'' then run_prove lib xof (a 2) (drop 3 args) w
      else if cmd = ascii ''batch-sign'' then finished (cmd_batch_sign lib xof (drop 2 args) w)
      else if cmd = ascii ''blind-sign'' then finished (cmd_blind_sign lib xof (a 2) w)
      else if cmd = ascii ''threshold'' then cmd_threshold lib xof (a 2) (a 3) (a 4) w
      else if cmd = ascii ''hybrid-sign'' then
        finished (apfst (report print_verdict) (hybrid_attest lib xof (claim_new (a 2)) w))
      else if cmd = ascii ''vm-execute'' then finished (cmd_vm_execute xof (a 2) w)
      else if cmd = ascii ''chain-entry'' then finished (cmd_chain_entry lib xof (a 2) (a 3) w)
      else (Done print_help, w))"

definition main :: "libcrux \<Rightarrow> xof \<Rightarrow> filesystem \<Rightarrow> bytes list \<Rightarrow> world \<Rightarrow> line list \<times> world" where
  "main lib xof fs args w =
     (if length args < 2 then (print_help, w)
      else case dispatch lib xof fs args w of
        (Done lines, w) \<Rightarrow> (lines, w)
      | (Panic, w) \<Rightarrow> ([Stderr (ascii ''valid=0 transcript=-'')], w))"

section \<open>Codecs\<close>

lemma hex_nibble_HEX: "n < 16 \<Longrightarrow> hex_nibble (HEX ! n) = Some (of_nat n)"
proof -
  assume "n < 16"
  moreover have "map hex_nibble HEX = map (\<lambda>n. Some (of_nat n)) [0..<16]"
    by (simp add: HEX_def ascii_def hex_nibble_def upt_rec)
  moreover have "length HEX = 16" by (simp add: HEX_def)
  ultimately show ?thesis using nth_map [of n HEX hex_nibble] by simp
qed

lemma nibble_bounds: "unat (drop_bit 4 (b :: byte)) < 16" "unat (b AND 0x0f) < 16"
proof -
  show "unat (drop_bit 4 b) < 16"
    using unat_byte_less [of b] by (simp add: drop_bit_eq_div unat_div_distrib less_mult_imp_div_less)
  have "b AND 0x0f \<le> 0x0f" by (rule word_and_le1)
  then show "unat (b AND 0x0f) < 16" by (simp add: word_le_nat_alt)
qed

lemma nibbles_join: "push_bit 4 (drop_bit 4 b) OR (b AND 0x0f) = (b :: byte)"
proof -
  have "b AND 0x0f = take_bit 4 b" by (simp add: take_bit_eq_mask mask_eq_exp_minus_1)
  then show ?thesis by (simp add: bit_eq_iff) (auto simp: bit_simps)
qed

lemma hex_pairs_hex: "hex_pairs (hex bs) = Some bs"
proof (induction bs)
  case (Cons b bs)
  then have "hex_pairs (HEX ! unat (drop_bit 4 b) # HEX ! unat (b AND 0x0f) # hex bs) = Some (b # bs)"
    by (simp add: hex_nibble_HEX nibble_bounds nibbles_join)
  then show ?case by (simp add: hex_def)
qed (simp add: hex_def)

lemma length_hex [simp]: "length (hex bs) = 2 * length bs"
  by (induction bs) (simp_all add: hex_def)

lemma length_hex_pairs: "hex_pairs s = Some bs \<Longrightarrow> length bs = length s div 2"
  by (induction s arbitrary: bs rule: hex_pairs.induct) (auto split: option.splits)

lemma parse_hex_hex: "length bs = 32 \<Longrightarrow> parse_hex_root (hex bs) = Some bs"
  by (simp add: parse_hex_root_def hex_pairs_hex)

lemma parse_digits_append:
  "parse_digits acc (xs @ [c]) =
     Option.bind (parse_digits acc xs) (\<lambda>acc. parse_digits acc [c])"
  by (induction acc xs rule: parse_digits.induct) (simp_all add: Let_def)

lemma digit_byte:
  assumes "d < 10"
  shows "48 \<le> (of_nat d + 48 :: byte) \<and> of_nat d + 48 \<le> (57 :: byte) \<and> unat (of_nat d + 48 - 48 :: byte) = d"
proof -
  have u: "unat (of_nat d + 48 :: byte) = d + 48" using assms by (simp add: unat_word_ariths unat_of_nat)
  show ?thesis using assms u by (simp add: word_le_nat_alt unat_of_nat)
qed

lemma parse_show: "n < 2 ^ 64 \<Longrightarrow> parse_digits 0 (show_nat n) = Some n"
proof (induction n rule: show_nat.induct)
  case (1 n)
  show ?case
  proof (cases "n < 10")
    case True
    with digit_byte [of n] show ?thesis by (simp add: show_nat.simps [of n])
  next
    case False
    with 1 have "parse_digits 0 (show_nat (n div 10)) = Some (n div 10)" by simp
    moreover have "n div 10 * 10 + n mod 10 = n" by simp
    ultimately show ?thesis
      using False 1(2) digit_byte [of "n mod 10"]
      by (simp add: show_nat.simps [of n] parse_digits_append Let_def)
  qed
qed

lemma show_nat_first: "\<exists>c cs. show_nat n = c # cs \<and> 48 \<le> c"
proof (induction n rule: show_nat.induct)
  case (1 n)
  then show ?case using digit_byte [of n] by (cases "n < 10") (auto simp: show_nat.simps [of n])
qed

section \<open>Every command prints one line\<close>

lemma one_line_simps [simp]:
  "length refused = 1" "length (print_verdict v) = 1"
  by (simp_all add: refused_def print_verdict_def)

lemma report_one_line [simp]: "(\<And>v. length (pr v) = 1) \<Longrightarrow> length (report pr r) = 1"
  by (simp add: report_def split: sum.split)

text \<open>A run that prints one line, or the help text, or panics.\<close>

definition tidy :: "line list outcome \<times> world \<Rightarrow> bool" where
  "tidy r = (case fst r of Panic \<Rightarrow> True | Done ls \<Rightarrow> length ls = 1 \<or> ls = print_help)"

lemma tidy_simps [simp]:
  "tidy (Done ls, w) \<longleftrightarrow> length ls = 1 \<or> ls = print_help"
  "tidy (Panic, w)"
  "tidy (finished r) \<longleftrightarrow> length (fst r) = 1 \<or> fst r = print_help"
  by (simp_all add: tidy_def finished_def)

lemma tidy_report [simp]:
  "(\<And>v. length (pr v) = 1) \<Longrightarrow> tidy (apfst (map_outcome (report pr)) r)"
  by (cases "fst r") (simp_all add: tidy_def map_outcome_def)

lemma one_line_commands [simp]:
  "length (fst (cmd_sign_file fs att p w)) = 1"
  "length (fst (cmd_chain lib xof evs w)) = 1"
  "length (cmd_chain_root xof evs) = 1"
  "length (cmd_verify xof h evs) = 1"
  "length (fst (cmd_batch_sign lib xof ts w)) = 1"
  "length (fst (cmd_blind_sign lib xof t w)) = 1"
  "length (fst (cmd_vm_execute xof h w)) = 1"
  "length (fst (cmd_chain_entry lib xof e p w)) = 1"
  "length (prove_merkle_root xof rest) = 1"
  by (simp_all add: cmd_sign_file_def cmd_chain_def cmd_chain_root_def cmd_verify_def cmd_batch_sign_def
      cmd_blind_sign_def cmd_vm_execute_def cmd_chain_entry_def prove_merkle_root_def Let_def
      split: sum.split option.split prod.split)

lemma tidy_threshold [simp]: "tidy (cmd_threshold lib xof n m t w)"
  by (simp add: cmd_threshold_def Let_def)

lemma tidy_prove [simp]: "tidy (run_prove lib xof rel rest w)"
  by (simp add: run_prove_def prove_merkle_include_def Let_def split: option.split)

lemma tidy_dispatch: "tidy (dispatch lib xof fs args w)"
  by (simp add: dispatch_def Let_def)

section \<open>Properties\<close>

text \<open>C33. The command line prints nothing but its result: for any arguments, files and machine, a run
  prints exactly one line, or the help text; a panic anywhere below prints the one line of
  the hook.\<close>

theorem cli_prints_one_line:
  "length (fst (main lib xof fs args w)) = 1 \<or> fst (main lib xof fs args w) = print_help"
  using tidy_dispatch [of lib xof fs args w]
  by (auto simp: main_def tidy_def split: prod.split outcome.split)

text \<open>Hexadecimal and decimal arguments round-trip: what the tool prints it reads back.\<close>

theorem cli_codecs_roundtrip:
  "hex_decode (hex bs) = Some bs \<and> (parse_hex_root (hex bs) = Some bs \<longleftrightarrow> length bs = 32) \<and>
   (parse_uint (show_nat n) = Some n \<longleftrightarrow> n < 2 ^ 64)"
proof -
  obtain c cs where c: "show_nat n = c # cs" "48 \<le> c" using show_nat_first by blast
  then have "take 1 (show_nat n) \<noteq> ascii ''+''" by (auto simp: ascii_def)
  then have "parse_uint (show_nat n) = parse_digits 0 (show_nat n)"
    using c by (simp add: parse_uint_def)
  moreover have "k < 2 ^ 64" if "parse_digits acc ds = Some k" "acc < 2 ^ 64" for acc ds k
    using that by (induction acc ds rule: parse_digits.induct) (auto simp: Let_def split: if_splits)
  then have "n < 2 ^ 64" if "parse_digits 0 (show_nat n) = Some n" using that by force
  ultimately show ?thesis
    using parse_show [of n] by (auto simp: hex_decode_def parse_hex_root_def hex_pairs_hex)
qed

text \<open>C34. Auditing a log from the command line: \<open>verify\<close> answers \<open>valid=1\<close> exactly when the argument is
  the 64-digit encoding of the root of a nonempty list of events, and the root that
  \<open>chain-root\<close> prints for the events is accepted. Neither touches the machine.\<close>

theorem cli_verify_exact:
  "(main lib xof fs ([prog, ascii ''verify'', h] @ events) w = ([Stdout (ascii ''valid=1 transcript='' @ h)], w) \<longleftrightarrow>
      events \<noteq> [] \<and> parse_hex_root h = Some (shake256_ema xof 32 (chain_message events))) \<and>
   (events \<noteq> [] \<longleftrightarrow>
      main lib xof fs ([prog, ascii ''chain-root''] @ events) w =
        ([Stdout (ascii ''root='' @ hex (shake256_ema xof 32 (chain_message events)))], w)) \<and>
   parse_hex_root (hex (shake256_ema xof 32 (chain_message events))) = Some (shake256_ema xof 32 (chain_message events))"
  by (simp add: main_def dispatch_def arg_def cmd_verify_def cmd_chain_root_def chain_verify_def chain_root_eq
      refused_def ct_eq_def choice_of_def ascii_def parse_hex_hex split: option.split)

text \<open>The path guard: a path that starts with \<open>/proc\<close> or \<open>/dev\<close> is refused before any file is
  looked at, whatever the file system holds. The guard compares prefixes of the text only:
  \<open>//dev/zero\<close>, which names the same file as \<open>/dev/zero\<close>, passes it.\<close>

theorem cli_blocks_device_paths:
  assumes "cmd = ascii ''sign-file'' \<or> cmd = ascii ''sign-stream''"
    and "take 5 path = ascii ''/proc'' \<or> take 4 path = ascii ''/dev''"
  shows "main lib xof fs [prog, cmd, path] w = (refused, w) \<and> \<not> is_blocked_path (ascii ''//dev/zero'')"
proof -
  have "is_blocked_path path" using assms(2) by (auto simp: is_blocked_path_def BLOCKED_PREFIXES_def eval_nat_numeral)
  then show ?thesis
    using assms(1)
    by (auto simp: main_def dispatch_def arg_def cmd_sign_file_def finished_def is_blocked_path_def
        BLOCKED_PREFIXES_def ascii_def)
qed

theorem cli_blocks_device_paths_witness:
  "\<exists>fs. fst (main demo_libcrux (\<lambda>m i. 7) fs [[], ascii ''sign-file'', ascii ''/dev/zero''] quiet_world) = refused"
  using cli_blocks_device_paths [of "ascii ''sign-file''" "ascii ''/dev/zero''" demo_libcrux "\<lambda>m i. 7" _ "[]" quiet_world]
  by (auto simp: ascii_def)

lemma show_bit_True: "show_bit True = ascii ''1''"
  by (simp add: show_bit_def show_nat.simps [of "Suc 0"] ascii_def)

text \<open>C16. Signing from the command line always answers: when the system's generator and the
  signature library do not fail, \<open>sign\<close> prints one line that reports a valid verdict and the
  hash of the commitment to the text under the keys of the seed it harvested, and
  \<open>batch-sign\<close> reports a valid verdict for any positive number of texts, and their number.\<close>

theorem cli_sign_live:
  assumes "libcrux_correct lib" and "\<forall>seed b. iteration_sig lib xof seed b \<noteq> None"
    and "\<forall>k. os_random w k 48 \<noteq> None"
  shows "(\<exists>seed w'. harvest xof (cl_personalization (claim_new txt)) w = (Inr seed, w') \<and>
      main lib xof fs [prog, ascii ''sign'', txt] w =
        ([Stdout (ascii ''valid=1 transcript='' @ hex (shake256_ema xof 32
            (TRANSCRIPT @ shake256_ema xof 32 (commit_message (keys_of lib xof seed) txt))))], w')) \<and>
    (\<exists>t w'. main lib xof fs ([prog, ascii ''batch-sign''] @ txt # txts) w =
        ([Stdout (ascii ''valid=1 transcript='' @ hex t @ ascii '' count='' @ show_nat (Suc (length txts)))], w'))"
proof
  obtain seed where "harvest xof (cl_personalization (claim_new txt)) w = (Inr seed, w\<lparr>calls := calls w + 12\<rparr>)"
    and "verify_once lib xof (claim_new txt) w =
      (Inr (verdict_new xof (choice_of True) (commit xof (keys_of lib xof seed) txt)), w\<lparr>calls := calls w + 12\<rparr>)"
    using verify_once_live [OF assms, of "claim_new txt"] by (auto simp: claim_new_def)
  then show "\<exists>seed w'. harvest xof (cl_personalization (claim_new txt)) w = (Inr seed, w') \<and>
      main lib xof fs [prog, ascii ''sign'', txt] w =
        ([Stdout (ascii ''valid=1 transcript='' @ hex (shake256_ema xof 32
            (TRANSCRIPT @ shake256_ema xof 32 (commit_message (keys_of lib xof seed) txt))))], w')"
    by (simp add: main_def dispatch_def arg_def finished_def attest_text_def attest_bytes_def report_def print_verdict_def
        show_bit_True verdict_new_def squeeze_eq commit_eq ascii_def is_valid_bool_def choice_of_def)
  obtain v w' where "verify_batch lib xof (map claim_new (txt # txts)) w = (Inr v, w')" and "is_valid_bool v"
    using batch_live [OF assms, of "map claim_new (txt # txts)"] by auto
  then show "\<exists>t w'. main lib xof fs ([prog, ascii ''batch-sign''] @ txt # txts) w =
        ([Stdout (ascii ''valid=1 transcript='' @ hex t @ ascii '' count='' @ show_nat (Suc (length txts)))], w')"
    by (simp add: main_def dispatch_def arg_def finished_def cmd_batch_sign_def report_def show_bit_True ascii_def) blast
qed

theorem cli_sign_live_witness:
  "\<exists>fs seed w'. main demo_libcrux (\<lambda>m i. 7) fs [[], ascii ''sign'', [1]] quiet_world =
     ([Stdout (ascii ''valid=1 transcript='' @ hex (shake256_ema (\<lambda>m i. 7) 32 seed))], w')"
  using cli_sign_live [OF demo_libcrux_correct, of "\<lambda>m i. 7" quiet_world "[1]" _ "[]" "[]"] demo_signs [of "\<lambda>m i. 7"]
  by (fastforce simp: quiet_world_def)

end
