(* ===== verification/Merkle_Tree.thy ===== *)
theory Merkle_Tree
  imports Merkle
begin

text \<open>
  The trees behind the levels of \<^verbatim>\<open>src/src/relations/merkle.rs\<close>: pairing up a level and promoting
  a lone node builds a binary tree whose leaves, from left to right, are the input. The
  root is the hash of that tree, and as leaves and inner nodes are hashed under different
  tags it determines the tree.
\<close>

datatype htree = Lf bytes | Nd htree htree

primrec tree_hash :: "xof \<Rightarrow> htree \<Rightarrow> bytes" where
  "tree_hash xof (Lf d) = leaf_hash xof d"
| "tree_hash xof (Nd l r) = node_hash xof (tree_hash xof l) (tree_hash xof r)"

primrec leaves_of :: "htree \<Rightarrow> bytes list" where
  "leaves_of (Lf d) = [d]"
| "leaves_of (Nd l r) = leaves_of l @ leaves_of r"

primrec hashed_strings :: "xof \<Rightarrow> htree \<Rightarrow> bytes set" where
  "hashed_strings xof (Lf d) = {leaf_message d}"
| "hashed_strings xof (Nd l r) =
     insert (node_message (tree_hash xof l) (tree_hash xof r)) (hashed_strings xof l \<union> hashed_strings xof r)"

text \<open>The levels, on trees.\<close>

fun pair_up :: "htree list \<Rightarrow> htree list" where
  "pair_up (a # b # rest) = Nd a b # pair_up rest"
| "pair_up ts = ts"

lemma length_pair_up [simp]: "length (pair_up ts) = (length ts + 1) div 2"
  by (induction ts rule: pair_up.induct) simp_all

function grow :: "htree list \<Rightarrow> htree" where
  "grow ts = (if 1 < length ts then grow (pair_up ts) else hd ts)"
  by pat_completeness auto
termination by (relation "measure length") auto

declare grow.simps [simp del]

section \<open>Levels and trees\<close>

lemma length_tree_hash [simp]: "length (tree_hash xof t) = 32"
  by (cases t) (simp_all add: leaf_hash_eq)

lemma pair_up_hashes: "map (tree_hash xof) (pair_up ts) = next_level xof (map (tree_hash xof) ts)"
  by (induction ts rule: pair_up.induct) simp_all

lemma pair_up_leaves: "concat (map leaves_of (pair_up ts)) = concat (map leaves_of ts)"
  by (induction ts rule: pair_up.induct) simp_all

lemma pair_up_strings:
  "\<Union> (hashed_strings xof ` set (pair_up ts)) =
     \<Union> (hashed_strings xof ` set ts) \<union> set (pair_msgs (map (tree_hash xof) ts))"
  by (induction ts rule: pair_up.induct) auto

text \<open>Induction along the levels of a non-empty list.\<close>

lemma levels_induct [consumes 1, case_names one level]:
  assumes "ts \<noteq> []" and "\<And>t. P [t]" and "\<And>ts. 1 < length ts \<Longrightarrow> P (pair_up ts) \<Longrightarrow> P ts"
  shows "P ts"
  using assms(1)
proof (induction ts rule: grow.induct)
  case (1 ts)
  show ?case
  proof (cases "1 < length ts")
    case True
    then have "pair_up ts \<noteq> []" by (cases ts rule: pair_up.cases) simp_all
    with True show ?thesis by (intro assms(3) [OF True] "1.IH")
  next
    case False
    with 1(2) obtain t where "ts = [t]" by (cases ts) auto
    then show ?thesis by (simp add: assms(2))
  qed
qed

lemma grow_simps [simp]:
  "grow [t] = t"
  "1 < length ts \<Longrightarrow> grow ts = grow (pair_up ts)"
  by (subst grow.simps, simp)+

lemma grow_hash:
  "ts \<noteq> [] \<Longrightarrow> fst (root_and_path xof (map (tree_hash xof) ts) i) = tree_hash xof (grow ts)"
proof (induction ts arbitrary: i rule: levels_induct)
  case (one t)
  show ?case by (simp add: root_and_path.simps)
next
  case (level ts)
  then show ?case by (simp add: root_up flip: pair_up_hashes)
qed

lemma grow_leaves: "ts \<noteq> [] \<Longrightarrow> leaves_of (grow ts) = concat (map leaves_of ts)"
  by (induction ts rule: levels_induct) (simp_all add: pair_up_leaves)

lemma grow_strings:
  "ts \<noteq> [] \<Longrightarrow> hashed_strings xof (grow ts) \<subseteq>
     \<Union> (hashed_strings xof ` set ts) \<union> set (tree_msgs xof (map (tree_hash xof) ts))"
proof (induction ts rule: levels_induct)
  case (level ts)
  then show ?case
    by (auto simp: pair_up_strings pair_up_hashes tree_msgs.simps [of xof "map (tree_hash xof) ts"])
qed simp

text \<open>Equal hashes, equal trees.\<close>

lemma tree_hash_inj:
  assumes "collision_free xof 32 (hashed_strings xof t \<union> hashed_strings xof u)" and "tree_hash xof t = tree_hash xof u"
  shows "t = u"
  using assms
proof (induction t arbitrary: u)
  case (Lf d)
  then show ?case by (cases u) (auto simp: leaf_hash_eq node_hash_eq collision_freeD)
next
  case (Nd l r)
  then show ?case
  proof (cases u)
    case (Nd l' r')
    with Nd.prems have "node_message (tree_hash xof l) (tree_hash xof r) = node_message (tree_hash xof l') (tree_hash xof r')"
      by (auto simp: node_hash_eq collision_freeD)
    then have "tree_hash xof l = tree_hash xof l'" "tree_hash xof r = tree_hash xof r'"
      by (simp_all add: node_message_inj)
    moreover have "collision_free xof 32 (hashed_strings xof l \<union> hashed_strings xof l')"
      "collision_free xof 32 (hashed_strings xof r \<union> hashed_strings xof r')"
      by (rule collision_free_mono [OF Nd.prems(1)], use Nd in auto)+
    ultimately show ?thesis using Nd.IH Nd by simp
  qed (auto simp: leaf_hash_eq node_hash_eq collision_freeD)
qed

lemma the_root_tree: "leaves \<noteq> [] \<Longrightarrow> the_root xof leaves = tree_hash xof (grow (map Lf leaves))"
  using grow_hash [of "map Lf leaves" xof 0] by (simp add: the_root_def base_level_def comp_def)

lemma merkle_root_the_root: "leaves \<noteq> [] \<Longrightarrow> merkle_root xof leaves = Inr (the_root xof leaves)"
  by (simp add: merkle_root_def the_root_def base_level_def)

lemma hashed_strings_leaves: "leaves \<noteq> [] \<Longrightarrow> hashed_strings xof (grow (map Lf leaves)) \<subseteq> merkle_messages xof leaves"
  using grow_strings [of "map Lf leaves" xof] by (auto simp: merkle_messages_def base_level_def comp_def)

lemma the_root_inj:
  assumes "leaves \<noteq> []" and "leaves' \<noteq> []" and "the_root xof leaves = the_root xof leaves'"
    and "collision_free xof 32 (merkle_messages xof leaves \<union> merkle_messages xof leaves')"
  shows "leaves = leaves'"
proof -
  have "grow (map Lf leaves) = grow (map Lf leaves')"
  proof (rule tree_hash_inj)
    show "collision_free xof 32 (hashed_strings xof (grow (map Lf leaves)) \<union> hashed_strings xof (grow (map Lf leaves')))"
      by (rule collision_free_mono [OF assms(4)]) (use hashed_strings_leaves assms(1,2) in blast)
  qed (use assms in \<open>simp add: the_root_tree\<close>)
  then have "concat (map leaves_of (map Lf leaves)) = concat (map leaves_of (map Lf leaves'))"
    using assms(1,2) by (metis grow_leaves map_is_Nil_conv)
  then show ?thesis by (simp add: comp_def)
qed

section \<open>Properties\<close>

text \<open>C4. A Merkle root commits to the whole list: two lists of leaves with the same root are equal in
  number, order and content, whatever their lengths (no collision among the strings
  hashed for the two trees). The promotion of lone nodes loses nothing.\<close>

theorem merkle_root_binds_leaves:
  assumes "merkle_root xof leaves = Inr root" and "merkle_root xof leaves' = Inr root"
    and "collision_free xof 32 (merkle_messages xof leaves \<union> merkle_messages xof leaves')"
  shows "leaves = leaves'"
proof -
  have ne: "leaves \<noteq> []" "leaves' \<noteq> []" using assms(1,2) by (auto simp: merkle_root_def)
  with assms(1,2) have "the_root xof leaves = the_root xof leaves'" by (simp add: merkle_root_the_root)
  from the_root_inj [OF ne this assms(3)] show ?thesis .
qed

theorem merkle_root_binds_leaves_witness:
  "merkle_root toy_xof [[1], [2, 2]] \<noteq> merkle_root toy_xof [[1]]"
proof
  assume eq: "merkle_root toy_xof [[1], [2, 2]] = merkle_root toy_xof [[1]]"
  have "collision_free toy_xof 32 (merkle_messages toy_xof [[1], [2, 2]] \<union> merkle_messages toy_xof [[1]])"
    by (rule collision_freeI)
       (simp_all add: merkle_messages_def tree_msgs.simps base_level_def leaf_hash_eq shake256_ema_def toy_xof_def
         leaf_message_def node_message_def last_map MERKLE_LEAF_def MERKLE_NODE_def,
        auto simp: toy_xof_def last_map)
  from merkle_root_binds_leaves [OF _ _ this, of "the_root toy_xof [[1]]"] eq show False
    by (simp add: merkle_root_the_root)
qed

end
