(* ===== verification/Harnesses.thy ===== *)
theory Harnesses
  imports Shamir Chain Merkle Hash_Preimage Pedersen Blind Commit_Reveal Seed_Memory
begin

text \<open>
  The bounded model-checking harnesses of \<^verbatim>\<open>src/proofs/kani_proofs.rs\<close> that state an assertion
  and agree with the parameters of the functions they call. A harness is a function of
  its symbolic inputs, of the libraries and of the machine; \<open>kani::assume\<close> ends it
  with success. Here the assertions are proved for inputs of every length.
\<close>

datatype check = Success | Assertion_Failed | Panicked

definition assert_then :: "bool \<Rightarrow> check \<Rightarrow> check" where
  "assert_then b k = (if b then k else Assertion_Failed)"

definition unwrap_then :: "'a result \<Rightarrow> ('a \<Rightarrow> check) \<Rightarrow> check" where
  "unwrap_then r k = (case r of Inr x \<Rightarrow> k x | Inl _ \<Rightarrow> Panicked)"

definition outcome_then :: "'a outcome \<Rightarrow> ('a \<Rightarrow> check) \<Rightarrow> check" where
  "outcome_then r k = (case r of Done x \<Rightarrow> k x | Panic \<Rightarrow> Panicked)"

lemmas harness_monad = assert_then_def unwrap_then_def outcome_then_def Let_def

section \<open>The harnesses\<close>

definition prove_zeroize_bytes_zeros_all :: "nat \<Rightarrow> check" where
  "prove_zeroize_bytes_zeros_all len =
     (if \<not> len \<le> 4 then Success
      else let buf = zeroize_bytes (replicate len 0xFF) in assert_then (list_all (\<lambda>b. b = 0) buf) Success)"

definition prove_shamir_split_valid_params :: "(nat \<Rightarrow> byte) option \<Rightarrow> check" where
  "prove_shamir_split_valid_params rng =
     outcome_then (split rng (replicate 64 0x42) 3 2) (\<lambda>result.
       assert_then (result \<noteq> None)
         (case result of Some shares \<Rightarrow> assert_then (length shares = 3) Success | None \<Rightarrow> Success))"

definition prove_shamir_split_rejects_invalid :: "(nat \<Rightarrow> byte) option \<Rightarrow> check" where
  "prove_shamir_split_rejects_invalid rng =
     outcome_then (split rng (replicate 64 0x42) 2 3) (\<lambda>result. assert_then (result = None)
       (outcome_then (split rng (replicate 64 0x42) 3 1) (\<lambda>result2. assert_then (result2 = None) Success)))"

definition prove_kem_roundtrip_matches :: "libcrux \<Rightarrow> bytes \<Rightarrow> bytes \<Rightarrow> check" where
  "prove_kem_roundtrip_matches lib seed coins =
     (let kp = kem_keygen lib seed;
          pk = kem_pk_from_bytes (kem_pk_bytes kp);
          sk = kem_sk_from_bytes (kem_sk_bytes kp);
          (ct, ss_enc) = kem_encapsulate lib pk coins;
          ss_dec = kem_decapsulate lib sk ct
      in assert_then (ss_enc = ss_dec) Success)"

definition prove_chain_root_non_empty :: "xof \<Rightarrow> bytes \<Rightarrow> check" where
  "prove_chain_root_non_empty xof event =
     (let result = chain_root xof [event]
      in assert_then (is_ok result) (unwrap_then result (\<lambda>root. assert_then (root \<noteq> zeros 32) Success)))"

definition prove_chain_verify_accepts_valid :: "xof \<Rightarrow> bytes \<Rightarrow> bytes \<Rightarrow> check" where
  "prove_chain_verify_accepts_valid xof event1 event2 =
     unwrap_then (chain_root xof [event1, event2]) (\<lambda>root.
       let valid = chain_verify xof [event1, event2] root in assert_then (unwrap_u8 valid = 1) Success)"

definition prove_merkle_root_non_empty :: "xof \<Rightarrow> bytes \<Rightarrow> bytes \<Rightarrow> check" where
  "prove_merkle_root_non_empty xof leaf1 leaf2 =
     (let result = merkle_root xof [leaf1, leaf2]
      in assert_then (is_ok result) (unwrap_then result (\<lambda>root. assert_then (root \<noteq> zeros 32) Success)))"

definition prove_commitment_different_claims_different_outputs :: "libcrux \<Rightarrow> xof \<Rightarrow> check" where
  "prove_commitment_different_claims_different_outputs lib xof =
     (let seed = replicate 64 0x42 in
      unwrap_then (derive_keys lib xof seed) (\<lambda>keys.
        let commit1 = commit xof keys (ascii ''claim1''); commit2 = commit xof keys (ascii ''claim2'')
        in assert_then (commit1 \<noteq> commit2) Success))"

definition prove_verification_valid_proof_succeeds :: "libcrux \<Rightarrow> xof \<Rightarrow> check" where
  "prove_verification_valid_proof_succeeds lib xof =
     (let seed = replicate 64 0x42 in
      unwrap_then (derive_keys lib xof seed) (\<lambda>keys.
        let claim = ascii ''test claim''; c = commit xof keys claim
        in unwrap_then (mldsa_prover lib xof keys c) (\<lambda>pf.
           unwrap_then (mldsa_verifier lib xof keys claim pf) (\<lambda>valid.
           assert_then (unwrap_u8 valid = 1) Success))))"

definition prove_verification_invalid_proof_fails :: "libcrux \<Rightarrow> xof \<Rightarrow> check" where
  "prove_verification_invalid_proof_fails lib xof =
     (let seed = replicate 64 0x42 in
      unwrap_then (derive_keys lib xof seed) (\<lambda>keys.
        let claim = ascii ''test claim''; c = commit xof keys claim
        in unwrap_then (mldsa_prover lib xof keys c) (\<lambda>pf.
           unwrap_then (mldsa_verifier lib xof keys (ascii ''wrong claim'') pf) (\<lambda>valid.
           assert_then (unwrap_u8 valid = 0) Success))))"

definition prove_locked_fill_from_rejects_oversized :: "kernel \<Rightarrow> bool \<Rightarrow> nat \<Rightarrow> process \<Rightarrow> check" where
  "prove_locked_fill_from_rejects_oversized K ok addr st =
     (let (i, st) = locked_new K ok addr 32 st;
          (result, st) = fill_from i (replicate 64 0xAA) st
      in assert_then (\<not> result) Success)"

definition prove_blind_claim_involution :: "xof \<Rightarrow> bytes \<Rightarrow> check" where
  "prove_blind_claim_involution xof cl =
     (let factor = from_nonce xof (replicate 32 0x42);
          blinded = blind_claim cl factor;
          recovered = blind_claim blinded factor
      in assert_then (recovered = cl) Success)"

definition prove_commit_reveal_binding :: "libcrux \<Rightarrow> xof \<Rightarrow> bytes \<Rightarrow> world \<Rightarrow> check" where
  "prove_commit_reveal_binding lib xof cl w =
     (case commit_phase xof cl w of (r, w) \<Rightarrow>
        unwrap_then r (\<lambda>(token, nonce).
          let result = fst (reveal_phase lib xof token nonce cl w) in assert_then (is_ok result) Success))"

definition prove_oram_rmw_correctness :: "xof \<Rightarrow> check" where
  "prove_oram_rmw_correctness xof =
     (let r = fst (oram_write xof oram_new 0 (replicate 64 0xAA));
          result = fst (read_modify_write xof r 0 (map (\<lambda>b. b + 1)))
      in assert_then (result ! 0 = 0xAB) Success)"

definition prove_hash_preimage_verify_deterministic :: "xof \<Rightarrow> check" where
  "prove_hash_preimage_verify_deterministic xof =
     unwrap_then (lamport_prove xof \<lparr>lw_seed = replicate 32 0x42\<rparr> []) (\<lambda>(stmt, pf).
       outcome_then (lamport_verify xof stmt pf) (\<lambda>r. unwrap_then r (\<lambda>r1.
       outcome_then (lamport_verify xof stmt pf) (\<lambda>r. unwrap_then r (\<lambda>r2.
       assert_then (unwrap_u8 r1 = unwrap_u8 r2) Success)))))"

definition prove_merkle_verify_deterministic :: "xof \<Rightarrow> check" where
  "prove_merkle_verify_deterministic xof =
     unwrap_then (merkle_prove xof \<lparr>mw_leaves = replicate 2 (replicate 32 0x42), mw_index = 0\<rparr> []) (\<lambda>(stmt, pf).
       outcome_then (merkle_verify xof stmt pf) (\<lambda>r. unwrap_then r (\<lambda>r1.
       outcome_then (merkle_verify xof stmt pf) (\<lambda>r. unwrap_then r (\<lambda>r2.
       assert_then (unwrap_u8 r1 = unwrap_u8 r2) Success)))))"

definition prove_pedersen_verify_deterministic :: "xof \<Rightarrow> check" where
  "prove_pedersen_verify_deterministic xof =
     unwrap_then (pedersen_prove xof \<lparr>pw_value = replicate 32 0x42, pw_blinding = replicate 32 0x43\<rparr> (replicate 32 0x44))
       (\<lambda>(stmt, pf).
       outcome_then (pedersen_verify xof stmt pf) (\<lambda>r. unwrap_then r (\<lambda>r1.
       outcome_then (pedersen_verify xof stmt pf) (\<lambda>r. unwrap_then r (\<lambda>r2.
       assert_then (unwrap_u8 r1 = unwrap_u8 r2) Success)))))"

definition prove_choice_bitwise_and_no_panic :: "byte \<Rightarrow> byte \<Rightarrow> check" where
  "prove_choice_bitwise_and_no_panic a b =
     (if \<not> a \<le> 1 \<or> \<not> b \<le> 1 then Success
      else let combined = choice_and (Choice a) (Choice b) in assert_then (unwrap_u8 combined = a AND b) Success)"

section \<open>The relations\<close>

text \<open>Two runs of a verifier on an honest proof, for every relation that keeps the contract.\<close>

context relation_scheme
begin

lemma verify_twice:
  assumes "holds w"
  shows "unwrap_then (prove R w e) (\<lambda>(stmt, pf).
       outcome_then (verify R stmt pf) (\<lambda>r. unwrap_then r (\<lambda>r1.
       outcome_then (verify R stmt pf) (\<lambda>r. unwrap_then r (\<lambda>r2.
       assert_then (unwrap_u8 r1 = unwrap_u8 r2) Success))))) = Success"
proof -
  obtain p where "\<And>e. prove R w e = Inr (statement_from_witness R w, p)"
      and "verify R (statement_from_witness R w) p = Done (Inr (choice_of True))"
    using honest_run [OF assms] by blast
  then show ?thesis by (simp add: harness_monad)
qed

end

lemma relation_harnesses:
  shows "prove_hash_preimage_verify_deterministic xof = Success"
    and "prove_merkle_verify_deterministic xof = Success"
    and "prove_pedersen_verify_deterministic xof = Success"
  using lamport.verify_twice [where xof = xof and w = "\<lparr>lw_seed = replicate 32 0x42\<rparr>" and e = "[]"]
    merkle.verify_twice [where xof = xof and e = "[]" and w = "\<lparr>mw_leaves = replicate 2 (replicate 32 0x42), mw_index = 0\<rparr>"]
    pedersen.verify_twice [where xof = xof and e = "replicate 32 0x44"
        and w = "\<lparr>pw_value = replicate 32 0x42, pw_blinding = replicate 32 0x43\<rparr>"]
  by (simp_all add: prove_hash_preimage_verify_deterministic_def prove_merkle_verify_deterministic_def
      prove_pedersen_verify_deterministic_def lamport_relation_def merkle_relation_def pedersen_relation_def merkle_holds_def)

section \<open>The engine\<close>

lemma commit_reveal_harness:
  assumes "libcrux_correct lib" and "\<forall>seed b. iteration_sig lib xof seed b \<noteq> None" and "\<forall>k n. os_random w k n \<noteq> None"
  shows "prove_commit_reveal_binding lib xof cl w = Success"
proof -
  obtain nonce where n: "commit_phase xof cl w = (Inr (\<lparr>ct_digest = cr_digest xof nonce cl\<rparr>, nonce), w\<lparr>calls := Suc (calls w)\<rparr>)"
    using assms(3) [rule_format, of "calls w" 32] by (auto simp: commit_phase_def getrandom_def)
  have "\<forall>k. os_random (w\<lparr>calls := Suc (calls w)\<rparr>) k 48 \<noteq> None" using assms(3) by simp
  then obtain v w' where "verify_once lib xof (claim_new cl) (w\<lparr>calls := Suc (calls w)\<rparr>) = (Inr v, w')"
    by (rule verify_once_live [OF assms(1,2)]) blast
  then show ?thesis
    by (simp add: prove_commit_reveal_binding_def n reveal_phase_eq cr_digest_eq harness_monad is_ok_def)
qed

lemma verification_harness:
  assumes "libcrux_correct lib" and "\<forall>seed b. iteration_sig lib xof seed b \<noteq> None"
  shows "prove_verification_valid_proof_succeeds lib xof = Success"
proof -
  obtain sig where "iteration_sig lib xof (replicate 64 0x42) (ascii ''test claim'') = Some sig"
    using assms(2) by fast
  from prove_then_verify [OF assms(1) this] show ?thesis
    by (simp add: prove_verification_valid_proof_succeeds_def harness_monad derive_keys_correct [OF assms(1)] choice_of_def)
qed

text \<open>The assertion that a proof fails for another claim is one about the signature library: it
  holds exactly when the library refuses the signature on the other commitment.\<close>

lemma wrong_claim_harness:
  assumes "libcrux_correct lib" and "iteration_sig lib xof (replicate 64 0x42) (ascii ''test claim'') = Some sig"
  shows "prove_verification_invalid_proof_fails lib xof = Success \<longleftrightarrow>
    \<not> verify_sig lib (dsa_vk (keys_of lib xof (replicate 64 0x42)))
        (commitment_bytes (commit xof (keys_of lib xof (replicate 64 0x42)) (ascii ''wrong claim''))) SIG_CTX sig"
  using prove_then_verify(1) [OF assms]
  by (simp add: prove_verification_invalid_proof_fails_def harness_monad derive_keys_correct [OF assms(1)]
      verifier_decides [OF assms(1)] choice_of_def)

lemma commitment_harness:
  assumes "libcrux_correct lib"
    and "collision_free xof 32 {commit_message (keys_of lib xof (replicate 64 0x42)) (ascii ''claim1''),
           commit_message (keys_of lib xof (replicate 64 0x42)) (ascii ''claim2'')}"
  shows "prove_commitment_different_claims_different_outputs lib xof = Success"
proof -
  let ?m = "commit_message (keys_of lib xof (replicate 64 0x42))"
  have "ascii ''claim1'' \<noteq> ascii ''claim2''" by (simp add: ascii_def)
  then have "?m (ascii ''claim1'') \<noteq> ?m (ascii ''claim2'')" by (simp add: commit_message_def)
  then have "shake256_ema xof 32 (?m (ascii ''claim1'')) \<noteq> shake256_ema xof 32 (?m (ascii ''claim2''))"
    using collision_freeD [OF assms(2)] by blast
  then have "commit xof (keys_of lib xof (replicate 64 0x42)) (ascii ''claim1'') \<noteq>
      commit xof (keys_of lib xof (replicate 64 0x42)) (ascii ''claim2'')"
    using commit_eq by metis
  then show ?thesis
    by (simp add: prove_commitment_different_claims_different_outputs_def harness_monad derive_keys_correct [OF assms(1)])
qed

section \<open>Memory, sharing and chains\<close>

lemma memory_harnesses:
  shows "prove_zeroize_bytes_zeros_all len = Success"
    and "prove_locked_fill_from_rejects_oversized K ok addr st = Success"
proof -
  show "prove_zeroize_bytes_zeros_all len = Success"
    by (simp add: prove_zeroize_bytes_zeros_all_def harness_monad list_all_iff)
  obtain st' where new: "locked_new K ok addr 32 st = (length (buffers st), st')"
    using locked_new_fst [of K ok addr 32 st] by (metis prod.collapse)
  then have "lb_buf (buffers st' ! length (buffers st)) = zeros 32"
    using locked_new_buffers [of K ok addr 32 st] by auto
  then show "prove_locked_fill_from_rejects_oversized K ok addr st = Success"
    by (simp add: prove_locked_fill_from_rejects_oversized_def new harness_monad fill_from_def)
qed

lemma sharing_harnesses:
  shows "rng \<noteq> None \<Longrightarrow> prove_shamir_split_valid_params rng = Success"
    and "prove_shamir_split_rejects_invalid rng = Success"
  by (auto simp: prove_shamir_split_valid_params_def prove_shamir_split_rejects_invalid_def split_alt split_shares_def
        harness_monad)

lemma chain_harnesses:
  shows "shake256_ema xof 32 (chain_message [e]) \<noteq> zeros 32 \<Longrightarrow> prove_chain_root_non_empty xof e = Success"
    and "prove_chain_verify_accepts_valid xof e e' = Success"
  by (simp_all add: prove_chain_root_non_empty_def prove_chain_verify_accepts_valid_def chain_verify_def chain_root_eq
      is_ok_def harness_monad ct_eq_def choice_of_def)

lemma choice_harness: "prove_choice_bitwise_and_no_panic a b = Success"
  by (simp add: prove_choice_bitwise_and_no_panic_def harness_monad choice_and_def)

lemma blind_harness: "prove_blind_claim_involution xof cl = Success"
  by (simp add: prove_blind_claim_involution_def harness_monad blind_claim_invol)

lemma kem_harness: "kem_correct lib \<Longrightarrow> prove_kem_roundtrip_matches lib seed coins = Success"
  by (auto simp: prove_kem_roundtrip_matches_def harness_monad kem_correct_def kem_keygen_def kem_encapsulate_def
        kem_decapsulate_def kem_pk_from_bytes_def kem_sk_from_bytes_def kem_pk_bytes_def kem_sk_bytes_def split: prod.split)
      (metis fst_conv snd_conv)

lemma merkle_harness:
  "node_hash xof (leaf_hash xof a) (leaf_hash xof b) \<noteq> zeros 32 \<Longrightarrow> prove_merkle_root_non_empty xof a b = Success"
  by (simp add: prove_merkle_root_non_empty_def merkle_root_def root_and_path.simps harness_monad is_ok_def)

text \<open>The harnesses hold for inputs of every length: with correct libraries that do not fail, a
  system generator that answers, and a hash that does not send the given chain and tree to
  zero or collide on the two commitments, no assertion of the modelled harnesses fails and no
  \<open>unwrap\<close> panics. (Those on a wrong claim and on \<open>read_modify_write\<close> are stated exactly, above and below.)\<close>

theorem harnesses_pass:
  assumes "libcrux_correct lib" and "\<forall>seed b. iteration_sig lib xof seed b \<noteq> None"
    and "\<forall>k n. os_random w k n \<noteq> None" and "rng \<noteq> None"
    and "shake256_ema xof 32 (chain_message [e]) \<noteq> zeros 32"
    and "node_hash xof (leaf_hash xof e) (leaf_hash xof e') \<noteq> zeros 32"
    and "collision_free xof 32 {commit_message (keys_of lib xof (replicate 64 0x42)) (ascii ''claim1''),
           commit_message (keys_of lib xof (replicate 64 0x42)) (ascii ''claim2'')}"
  shows "prove_zeroize_bytes_zeros_all len = Success \<and> prove_locked_fill_from_rejects_oversized K ok addr st = Success \<and>
    prove_shamir_split_valid_params rng = Success \<and> prove_shamir_split_rejects_invalid rng = Success \<and>
    prove_kem_roundtrip_matches lib seed coins = Success \<and>
    prove_chain_root_non_empty xof e = Success \<and> prove_chain_verify_accepts_valid xof e e' = Success \<and>
    prove_merkle_root_non_empty xof e e' = Success \<and>
    prove_commitment_different_claims_different_outputs lib xof = Success \<and>
    prove_verification_valid_proof_succeeds lib xof = Success \<and>
    prove_choice_bitwise_and_no_panic a b = Success \<and>
    prove_blind_claim_involution xof e = Success \<and> prove_commit_reveal_binding lib xof e w = Success \<and>
    prove_hash_preimage_verify_deterministic xof = Success \<and> prove_merkle_verify_deterministic xof = Success \<and>
    prove_pedersen_verify_deterministic xof = Success"
  using commitment_harness [OF assms(1,7)] assms(1)
  by (simp add: memory_harnesses sharing_harnesses chain_harnesses merkle_harness blind_harness kem_harness choice_harness
      relation_harnesses verification_harness commit_reveal_harness assms libcrux_correct_def)

text \<open>A hash that tells the messages of the harnesses apart, for the witness.\<close>

definition tail_xof :: xof where
  "tail_xof m i = (if last m = 109 then rev m ! 6 else last m)"

theorem harnesses_pass_witness:
  "prove_shamir_split_valid_params (Some (\<lambda>i. 3)) = Success \<and>
   prove_chain_root_non_empty tail_xof [1] = Success \<and> prove_merkle_root_non_empty tail_xof [1] [2] = Success \<and>
   prove_commitment_different_claims_different_outputs demo_libcrux tail_xof = Success \<and>
   prove_commit_reveal_binding demo_libcrux tail_xof [1] quiet_world = Success"
proof -
  have e: "shake256_ema tail_xof 32 m = replicate 32 (tail_xof m 0)" for m
    by (rule replicate_eqI) (auto simp: shake256_ema_def tail_xof_def)
  have z: "replicate 32 b \<noteq> zeros 32" if "b \<noteq> 0" for b :: byte
    using that by simp
  have "shake256_ema tail_xof 32 (chain_message [[1]]) \<noteq> zeros 32"
    and "node_hash tail_xof (leaf_hash tail_xof [1]) (leaf_hash tail_xof [2]) \<noteq> zeros 32"
    by (simp_all add: e z tail_xof_def chain_message_def node_hash_eq leaf_hash_eq node_message_def leaf_message_def)
  moreover have "collision_free tail_xof 32 {commit_message k (ascii ''claim1''), commit_message k (ascii ''claim2'')}"
 for k
    by (rule collision_free_pairI [of 0]) (simp_all add: commit_message_def ascii_def tail_xof_def)
  moreover have "\<forall>seed b. iteration_sig demo_libcrux tail_xof seed b \<noteq> None" using demo_signs by fastforce
  moreover have "\<forall>k n. os_random quiet_world k n \<noteq> None" by (simp add: quiet_world_def)
  ultimately show ?thesis
    using harnesses_pass [OF demo_libcrux_correct, of tail_xof quiet_world "Some (\<lambda>i. 3)" "[1]" "[2]"]
    by simp
qed

text \<open>The assertion on \<open>read_modify_write\<close> is not one about the code: a read returns the hash of
  what was written, so the harness holds exactly when that hash of 64 bytes \<open>0xAA\<close> happens
  to start with \<open>0xAA\<close>.\<close>

theorem oram_harness_exact:
  "prove_oram_rmw_correctness xof = Success \<longleftrightarrow> oram_hash xof (replicate 64 0xAA) ! 0 = 0xAA"
proof -
  let ?r = "fst (oram_write xof oram_new 0 (replicate 64 0xAA))"
  have wf: "oram_wf ?r" and "slots ?r = (slots oram_new)[0 := oram_hash xof (replicate 64 0xAA)]"
    using oram_write_refines [OF oram_wf_new, of xof 0 "replicate 64 0xAA"] by simp_all
  then have "fst (oram_read ?r 0) = oram_hash xof (replicate 64 0xAA)"
    using oram_wf_new by (simp add: oram_read_eq slots_def oram_wf_def)
  then have "fst (read_modify_write xof ?r 0 (map (\<lambda>b. b + 1))) = map (\<lambda>b. b + 1) (oram_hash xof (replicate 64 0xAA))"
    by (simp add: oram_rmw_eq [OF wf])
  moreover have "length (oram_hash xof (replicate 64 0xAA)) = 64"
    by (simp add: oram_hash_def Let_def)
  moreover have "x + 1 = 0xAB \<longleftrightarrow> x = 0xAA" for x :: byte
    by (metis add_right_cancel numeral_plus_one semiring_norm(5))
  ultimately show ?thesis
    by (simp add: prove_oram_rmw_correctness_def harness_monad)
qed

end
