(* ===== verification/Drop_Harnesses.thy ===== *)
theory Drop_Harnesses
  imports Harnesses Keccak_Ct Range_Proof Threshold_Relation Ml_Dsa_Relation Entropy_Sources
begin

text \<open>
  Destructors. The contract of the types that implement \<open>Drop\<close> is a locale, interpreted here on
  each of them. The harnesses of \<^verbatim>\<open>src/proofs/kani_proofs.rs\<close> named after destructors build a
  value and let it go out of scope. Rust cannot look at the memory afterwards, so they
  assert nothing; in the model the released value is their result, and \<open>Panic\<close> is an
  \<open>unwrap\<close> that fails on the way. The lemmas say what a destructor writes to its own value;
  copies the compiler makes of a value are not modelled.
\<close>

section \<open>The contract\<close>

text \<open>\<open>release\<close> is the destructor with those of the fields, \<open>memory\<close> the bytes that hold secrets.\<close>

locale wiped_on_drop =
  fixes release :: "'a \<Rightarrow> 'a" and memory :: "'a \<Rightarrow> bytes" and live :: "'a \<Rightarrow> bool"
  assumes release_wipes: "live x \<Longrightarrow> memory (release x) = zeros (length (memory x))"
begin

lemma release_forgets:
  "live x \<Longrightarrow> live y \<Longrightarrow> length (memory x) = length (memory y) \<Longrightarrow> memory (release x) = memory (release y)"
  by (simp add: release_wipes)

lemma release_all:
  "list_all live xs \<Longrightarrow> concat (map (memory \<circ> release) xs) = zeros (length (concat (map memory xs)))"
  by (induction xs) (simp_all add: release_wipes replicate_add)

end

section \<open>Memory\<close>

lemma concat_zeros: "concat (map (\<lambda>x. zeros (f x)) xs) = zeros (sum_list (map f xs))"
  by (induction xs) (simp_all add: replicate_add)

lemma u64_le_0 [simp]: "u64_le 0 = zeros 8"
  by (simp add: to_le_bytes_def map_replicate_const)

definition blind_memory :: "blind_factor \<Rightarrow> bytes" where
  "blind_memory f = bf_nonce f @ bf_mask f"

definition keys_memory :: "ephemeral_keys \<Rightarrow> bytes" where
  "keys_memory k = kem_sk k @ dsa_sk k"

definition ct_memory :: "ct_shake256 \<Rightarrow> bytes" where
  "ct_memory h = ct_mask h @ buf (ct_inner h)"

definition oram_memory :: "oram \<Rightarrow> bytes" where
  "oram_memory r = concat (map (\<lambda>s. content s @ pad s) (oram_data r))"

definition vm_memory :: "micro_vm \<Rightarrow> bytes" where
  "vm_memory vm = concat (map u64_le (stack vm)) @ u64_le (canary vm)"

definition pedersen_witness_memory :: "pedersen_witness \<Rightarrow> bytes" where
  "pedersen_witness_memory w = pw_value w @ pw_blinding w"

definition pedersen_proof_memory :: "pedersen_proof \<Rightarrow> bytes" where
  "pedersen_proof_memory p = pp_value p @ pp_blinding p"

definition range_witness_memory :: "range_witness \<Rightarrow> bytes" where
  "range_witness_memory w = u64_le (rw_value w) @ u64_le (rw_min w) @ u64_le (rw_max w)"

definition range_proof_memory :: "range_proof \<Rightarrow> bytes" where
  "range_proof_memory p = rp_bits p @ concat (rp_nonces p)"

definition threshold_proof_memory :: "threshold_proof \<Rightarrow> bytes" where
  "threshold_proof_memory p = tp_index_commitment p @ concat (tp_share_hashes p)"

text \<open>After the destructor of \<open>CtShake256\<close> runs that of its hasher.\<close>

definition ct_release :: "ct_shake256 \<Rightarrow> ct_shake256" where
  "ct_release h = (let h = ct_drop h in h\<lparr>ct_inner := shake256_drop (ct_inner h)\<rparr>)"

section \<open>The destructors keep the contract\<close>

interpretation blind_factor: wiped_on_drop blind_factor_drop blind_memory "\<lambda>_. True"
  by unfold_locales (simp add: blind_factor_drop_def blind_memory_def replicate_add)

interpretation token: wiped_on_drop token_drop ct_digest "\<lambda>_. True"
  by unfold_locales (simp add: token_drop_def)

interpretation nonce: wiped_on_drop nonce_drop "\<lambda>bs. bs" "\<lambda>_. True"
  by unfold_locales (simp add: nonce_drop_def)

interpretation source: wiped_on_drop source_drop es_raw "\<lambda>_. True"
  by unfold_locales (simp add: source_drop_def)

interpretation hasher: wiped_on_drop shake256_drop buf "\<lambda>_. True"
  by unfold_locales (simp add: shake256_drop_def)

interpretation reader: wiped_on_drop reader_drop rd_out "\<lambda>_. True"
  by unfold_locales (simp add: reader_drop_def)

interpretation masked: wiped_on_drop ct_release ct_memory "\<lambda>_. True"
  by unfold_locales (simp add: ct_release_def ct_memory_def ct_drop_def shake256_drop_def replicate_add Let_def)

interpretation oram_slots: wiped_on_drop oram_drop oram_memory "\<lambda>_. True"
  by unfold_locales
     (simp add: oram_drop_def oram_memory_def comp_def length_concat concat_zeros flip: replicate_add)

interpretation share: wiped_on_drop share_drop share_data "\<lambda>_. True"
  by unfold_locales (simp add: share_drop_def)

interpretation vm: wiped_on_drop vm_drop vm_memory "\<lambda>_. True"
  by unfold_locales
     (simp add: vm_drop_def wipe_state_def vm_memory_def comp_def length_concat concat_zeros flip: replicate_add)

interpretation sig_proof: wiped_on_drop sig_proof_drop pr_sig "\<lambda>_. True"
  by unfold_locales (simp add: sig_proof_drop_def)

interpretation keys: wiped_on_drop ephemeral_keys_drop keys_memory "\<lambda>_. True"
  by unfold_locales (simp add: ephemeral_keys_drop_def keys_memory_def replicate_add)

interpretation zeroizing: wiped_on_drop zeroizing_drop zeroizing_as_bytes "\<lambda>_. True"
  by unfold_locales (simp add: zeroizing_drop_def zeroizing_as_bytes_def)

interpretation locked: wiped_on_drop "locked_drop K i" "as_bytes i" "\<lambda>st. i < length (buffers st)" for K i
  by unfold_locales (auto simp: locked_drop_def as_bytes_def is_locked_def step_defs)

interpretation lamport_witness: wiped_on_drop lamport_witness_drop lw_seed "\<lambda>_. True"
  by unfold_locales (simp add: lamport_witness_drop_def)

interpretation lamport_proof: wiped_on_drop lamport_proof_drop "concat \<circ> lp_openings" "\<lambda>_. True"
  by unfold_locales (simp add: lamport_proof_drop_def concat_zeros length_concat)

interpretation mldsa_witness: wiped_on_drop mldsa_witness_drop mdw_seed "\<lambda>_. True"
  by unfold_locales (simp add: mldsa_witness_drop_def)

interpretation mldsa_proof: wiped_on_drop mldsa_proof_drop mdp_sig "\<lambda>_. True"
  by unfold_locales (simp add: mldsa_proof_drop_def)

interpretation merkle_witness: wiped_on_drop merkle_witness_drop "concat \<circ> mw_leaves" "\<lambda>_. True"
  by unfold_locales (simp add: merkle_witness_drop_def concat_zeros length_concat)

interpretation merkle_proof: wiped_on_drop merkle_proof_drop "concat \<circ> mp_siblings" "\<lambda>_. True"
  by unfold_locales (simp add: merkle_proof_drop_def concat_zeros length_concat)

interpretation pedersen_witness: wiped_on_drop pedersen_witness_drop pedersen_witness_memory "\<lambda>_. True"
  by unfold_locales (simp add: pedersen_witness_drop_def pedersen_witness_memory_def replicate_add)

interpretation pedersen_proof: wiped_on_drop pedersen_proof_drop pedersen_proof_memory "\<lambda>_. True"
  by unfold_locales (simp add: pedersen_proof_drop_def pedersen_proof_memory_def replicate_add)

interpretation range_witness: wiped_on_drop range_witness_drop range_witness_memory "\<lambda>_. True"
  by unfold_locales (simp add: range_witness_drop_def range_witness_memory_def flip: replicate_add)

interpretation range_proof: wiped_on_drop range_proof_drop range_proof_memory "\<lambda>_. True"
  by unfold_locales
     (simp add: range_proof_drop_def range_proof_memory_def concat_zeros length_concat map_replicate_const replicate_add)

interpretation threshold_witness: wiped_on_drop threshold_witness_drop "concat \<circ> tw_shares" "\<lambda>_. True"
  by unfold_locales (simp add: threshold_witness_drop_def concat_zeros length_concat)

interpretation threshold_proof: wiped_on_drop threshold_proof_drop threshold_proof_memory "\<lambda>_. True"
  by unfold_locales
     (simp add: threshold_proof_drop_def threshold_proof_memory_def concat_zeros length_concat replicate_add)

section \<open>The harnesses\<close>

definition prove_ephemeral_keys_zeroizes_on_drop :: "libcrux \<Rightarrow> xof \<Rightarrow> bytes outcome" where
  "prove_ephemeral_keys_zeroizes_on_drop lib xof =
     (case derive_keys lib xof (replicate 64 0x42) of
        Inl _ \<Rightarrow> Panic | Inr keys \<Rightarrow> Done (keys_memory (ephemeral_keys_drop keys)))"

definition prove_seed_zeroizes_on_drop :: "kernel \<Rightarrow> bool \<Rightarrow> nat \<Rightarrow> process \<Rightarrow> bytes outcome" where
  "prove_seed_zeroizes_on_drop K ok addr st =
     (let (seed, st) = seed_from_bytes K ok addr (replicate 64 0x42) st
      in Done (seed_as_bytes seed (locked_drop K seed st)))"

definition prove_blind_factor_zeroizes_on_drop :: "xof \<Rightarrow> bytes outcome" where
  "prove_blind_factor_zeroizes_on_drop xof = Done (blind_memory (blind_factor_drop (from_nonce xof (replicate 32 0x42))))"

definition prove_commitment_token_zeroizes_on_drop :: "bytes outcome" where
  "prove_commitment_token_zeroizes_on_drop = Done (ct_digest (token_drop (token_from_bytes (replicate 32 0x42))))"

definition prove_entropy_source_zeroizes_on_drop :: "bytes outcome" where
  "prove_entropy_source_zeroizes_on_drop =
     Done (es_raw (source_drop (from_raw ''test'' (ascii ''veil7:test'') (replicate 64 0x42))))"

definition prove_shake256_zeroizes_on_drop :: "bytes outcome" where
  "prove_shake256_zeroizes_on_drop = Done (buf (shake256_drop shake_new))"

definition prove_shake256_reader_zeroizes_on_drop :: "xof \<Rightarrow> bytes outcome" where
  "prove_shake256_reader_zeroizes_on_drop xof =
     Done (rd_out (reader_drop (finalize_xof xof (update shake_new (ascii ''test'')))))"

definition prove_ct_shake256_zeroizes_on_drop :: "bytes outcome" where
  "prove_ct_shake256_zeroizes_on_drop = Done (ct_memory (ct_release (with_mask (replicate 32 0xAA))))"

definition prove_oblivious_ram_zeroizes_on_drop :: "xof \<Rightarrow> bytes outcome" where
  "prove_oblivious_ram_zeroizes_on_drop xof =
     (let r = fst (oram_write xof oram_new 0 (replicate 64 0xAA)) in Done (oram_memory (oram_drop r)))"

definition prove_share_zeroizes_on_drop :: "(nat \<Rightarrow> byte) option \<Rightarrow> bytes outcome" where
  "prove_share_zeroizes_on_drop rng =
     (case split rng (replicate 64 0x42) 3 2 of
        Panic \<Rightarrow> Panic
      | Done None \<Rightarrow> Done []
      | Done (Some shares) \<Rightarrow> Done (concat (map (share_data \<circ> share_drop) shares)))"

definition prove_microvm_zeroizes_on_drop :: "xof \<Rightarrow> bytes option \<Rightarrow> bytes outcome" where
  "prove_microvm_zeroizes_on_drop xof rnd =
     (let vm = snd (execute xof (vm_new rnd) (replicate 16 0x42)) in Done (vm_memory (vm_drop vm)))"

definition prove_l4_proof_zeroizes_on_drop :: "libcrux \<Rightarrow> xof \<Rightarrow> bytes outcome" where
  "prove_l4_proof_zeroizes_on_drop lib xof =
     (case derive_keys lib xof (replicate 64 0x42) of
        Inl _ \<Rightarrow> Panic
      | Inr keys \<Rightarrow>
          (case mldsa_prover lib xof keys (commit xof keys (ascii ''test'')) of
             Inl _ \<Rightarrow> Panic | Inr pf \<Rightarrow> Done (pr_sig (sig_proof_drop pf))))"

definition prove_locked_zeroizes_on_drop :: "kernel \<Rightarrow> bool \<Rightarrow> nat \<Rightarrow> process \<Rightarrow> bytes outcome" where
  "prove_locked_zeroizes_on_drop K ok addr st =
     (let (i, st) = locked_new K ok addr 32 st; (_, st) = fill_from i (replicate 32 0x42) st
      in Done (as_bytes i (locked_drop K i st)))"

definition prove_zeroizing_zeroizes_on_drop :: "bytes outcome" where
  "prove_zeroizing_zeroizes_on_drop =
     Done (zeroizing_as_bytes (zeroizing_drop (zeroizing_new (replicate 32 0x42))))"

definition prove_hash_preimage_witness_zeroizes_on_drop :: "bytes outcome" where
  "prove_hash_preimage_witness_zeroizes_on_drop = Done (lw_seed (lamport_witness_drop \<lparr>lw_seed = replicate 32 0x42\<rparr>))"

definition prove_hash_preimage_proof_zeroizes_on_drop :: "bytes outcome" where
  "prove_hash_preimage_proof_zeroizes_on_drop =
     Done ((concat \<circ> lp_openings) (lamport_proof_drop \<lparr>lp_openings = [replicate 32 0x42]\<rparr>))"

definition prove_ml_dsa_witness_zeroizes_on_drop :: "bytes outcome" where
  "prove_ml_dsa_witness_zeroizes_on_drop = Done (mdw_seed (mldsa_witness_drop \<lparr>mdw_seed = replicate 32 0x42\<rparr>))"

definition prove_ml_dsa_proof_zeroizes_on_drop :: "libcrux \<Rightarrow> xof \<Rightarrow> bytes outcome" where
  "prove_ml_dsa_proof_zeroizes_on_drop lib xof =
     (case mldsa_prove lib xof \<lparr>mdw_seed = replicate 32 0x42\<rparr> [] of
        Inl _ \<Rightarrow> Panic | Inr (stmt, pf) \<Rightarrow> Done (mdp_sig (mldsa_proof_drop pf)))"

definition prove_merkle_witness_zeroizes_on_drop :: "bytes outcome" where
  "prove_merkle_witness_zeroizes_on_drop =
     Done ((concat \<circ> mw_leaves) (merkle_witness_drop \<lparr>mw_leaves = [replicate 32 0x42], mw_index = 0\<rparr>))"

definition prove_merkle_proof_zeroizes_on_drop :: "bytes outcome" where
  "prove_merkle_proof_zeroizes_on_drop =
     Done ((concat \<circ> mp_siblings)
       (merkle_proof_drop \<lparr>mp_siblings = [replicate 32 0x42], mp_index = 0, mp_leaf_count = 1\<rparr>))"

definition prove_pedersen_witness_zeroizes_on_drop :: "bytes outcome" where
  "prove_pedersen_witness_zeroizes_on_drop =
     Done (pedersen_witness_memory
       (pedersen_witness_drop \<lparr>pw_value = replicate 32 0x42, pw_blinding = replicate 32 0x43\<rparr>))"

definition prove_pedersen_proof_zeroizes_on_drop :: "bytes outcome" where
  "prove_pedersen_proof_zeroizes_on_drop =
     Done (pedersen_proof_memory
       (pedersen_proof_drop \<lparr>pp_value = replicate 32 0x42, pp_blinding = replicate 32 0x43\<rparr>))"

definition prove_range_proof_witness_zeroizes_on_drop :: "bytes outcome" where
  "prove_range_proof_witness_zeroizes_on_drop =
     Done (range_witness_memory (range_witness_drop \<lparr>rw_value = 42, rw_min = 0, rw_max = 100\<rparr>))"

definition prove_range_proof_proof_zeroizes_on_drop :: "bytes outcome" where
  "prove_range_proof_proof_zeroizes_on_drop =
     Done (range_proof_memory (range_proof_drop \<lparr>rp_bits = [0x42], rp_nonces = [replicate 32 0x42]\<rparr>))"

definition prove_threshold_witness_zeroizes_on_drop :: "bytes outcome" where
  "prove_threshold_witness_zeroizes_on_drop =
     Done ((concat \<circ> tw_shares) (threshold_witness_drop \<lparr>tw_shares = [replicate 32 0x42], tw_indices = [0]\<rparr>))"

definition prove_threshold_proof_zeroizes_on_drop :: "bytes outcome" where
  "prove_threshold_proof_zeroizes_on_drop =
     Done (threshold_proof_memory
       (threshold_proof_drop \<lparr>tp_index_commitment = replicate 32 0x42, tp_share_hashes = [replicate 32 0x42]\<rparr>))"

section \<open>What they leave\<close>

lemmas drop_harness_defs = prove_blind_factor_zeroizes_on_drop_def prove_commitment_token_zeroizes_on_drop_def
  prove_entropy_source_zeroizes_on_drop_def prove_shake256_zeroizes_on_drop_def prove_shake256_reader_zeroizes_on_drop_def
  prove_ct_shake256_zeroizes_on_drop_def prove_zeroizing_zeroizes_on_drop_def
  prove_hash_preimage_witness_zeroizes_on_drop_def prove_hash_preimage_proof_zeroizes_on_drop_def
  prove_ml_dsa_witness_zeroizes_on_drop_def prove_merkle_witness_zeroizes_on_drop_def
  prove_merkle_proof_zeroizes_on_drop_def prove_pedersen_witness_zeroizes_on_drop_def
  prove_pedersen_proof_zeroizes_on_drop_def prove_range_proof_witness_zeroizes_on_drop_def
  prove_range_proof_proof_zeroizes_on_drop_def prove_threshold_witness_zeroizes_on_drop_def
  prove_threshold_proof_zeroizes_on_drop_def

lemmas release_wipes = blind_factor.release_wipes token.release_wipes source.release_wipes hasher.release_wipes
  reader.release_wipes masked.release_wipes oram_slots.release_wipes share.release_all vm.release_wipes
  sig_proof.release_wipes keys.release_wipes zeroizing.release_wipes lamport_witness.release_wipes
  lamport_proof.release_wipes mldsa_witness.release_wipes mldsa_proof.release_wipes merkle_witness.release_wipes
  merkle_proof.release_wipes pedersen_witness.release_wipes pedersen_proof.release_wipes range_witness.release_wipes
  range_proof.release_wipes threshold_witness.release_wipes threshold_proof.release_wipes

lemma simple_drops:
  "[prove_blind_factor_zeroizes_on_drop xof, prove_commitment_token_zeroizes_on_drop,
    prove_entropy_source_zeroizes_on_drop, prove_shake256_zeroizes_on_drop, prove_shake256_reader_zeroizes_on_drop xof,
    prove_ct_shake256_zeroizes_on_drop, prove_zeroizing_zeroizes_on_drop,
    prove_hash_preimage_witness_zeroizes_on_drop, prove_hash_preimage_proof_zeroizes_on_drop,
    prove_ml_dsa_witness_zeroizes_on_drop, prove_merkle_witness_zeroizes_on_drop, prove_merkle_proof_zeroizes_on_drop,
    prove_pedersen_witness_zeroizes_on_drop, prove_pedersen_proof_zeroizes_on_drop,
    prove_range_proof_witness_zeroizes_on_drop, prove_range_proof_proof_zeroizes_on_drop,
    prove_threshold_witness_zeroizes_on_drop, prove_threshold_proof_zeroizes_on_drop] =
   map (Done \<circ> zeros) [64, 32, 64, 0, 256, 32, 32, 32, 32, 32, 32, 32, 64, 64, 24, 33, 32, 64]"
  by (simp only: drop_harness_defs release_wipes)
     (simp add: blind_memory_def from_nonce_def token_from_bytes_def from_raw_def finalize_xof_def ct_memory_def
       with_mask_def zeroizing_as_bytes_def zeroizing_new_def pedersen_witness_memory_def pedersen_proof_memory_def
       range_witness_memory_def range_proof_memory_def threshold_proof_memory_def)

lemma oram_drop_harness: "prove_oblivious_ram_zeroizes_on_drop xof = Done (zeros (256 * 128))"
proof -
  let ?r = "fst (oram_write xof oram_new 0 (replicate 64 0xAA))"
  have "oram_wf ?r" using oram_write_refines [OF oram_wf_new] by blast
  then have "length (oram_memory ?r) = 256 * 128"
    by (simp add: oram_memory_def length_concat oram_wf_def list_all_iff line_wf_def comp_def sum_list_triv cong: map_cong)
  then show ?thesis by (simp add: prove_oblivious_ram_zeroizes_on_drop_def release_wipes)
qed

lemma share_drop_harness:
  "prove_share_zeroizes_on_drop rng = Done (zeros (if rng = None then 0 else 192))"
proof -
  have "length (concat (map share_data (split_shares r secret 3 2))) = 192" for r secret
    by (simp add: split_shares_def length_concat comp_def sum_list_triv del: upt_Suc)
  then have "concat (map (share_data \<circ> share_drop) (split_shares r secret 3 2)) = zeros 192" for r secret
    by (simp only: share.release_all list.pred_True)
  then show ?thesis by (simp add: prove_share_zeroizes_on_drop_def split_alt split: option.split)
qed

lemma vm_drop_harness: "prove_microvm_zeroizes_on_drop xof rnd = Done (zeros (8 * STACK_DEPTH + 8))"
proof -
  have "snd (execute xof (vm_new rnd) (replicate 16 0x42)) = vm_new rnd"
    by (simp add: execute_def from_u8_def)
  moreover have "length (vm_memory (vm_new rnd)) = 8 * STACK_DEPTH + 8"
    by (simp add: vm_memory_def vm_new_def with_canary_def length_concat comp_def sum_list_replicate)
  ultimately show ?thesis by (simp add: prove_microvm_zeroizes_on_drop_def vm.release_wipes)
qed

text \<open>A fresh buffer, filled and dropped.\<close>

lemma filled_then_dropped:
  assumes "locked_new K ok addr n st = (i, st1)" and "fill_from i bs st1 = (r, st2)"
  shows "as_bytes i (locked_drop K i st2) = zeros n"
proof -
  have i: "i = length (buffers st)" using locked_new_fst [of K ok addr n st] assms(1) by simp
  obtain l where "buffers st1 = buffers st @ [\<lparr>lb_base = addr, lb_buf = zeros n, lb_phase = Live l\<rparr>]"
    using locked_new_buffers [of K ok addr n st] assms(1) by auto
  then have "i < length (buffers st2) \<and> length (as_bytes i st2) = n"
    using assms(2) i by (auto simp: fill_from_def set_buffer_def as_bytes_def Let_def split: if_splits)
  then show ?thesis using locked.release_wipes [of i st2 K] by simp
qed

lemma pinned_drop_harnesses:
  shows "prove_locked_zeroizes_on_drop K ok addr st = Done (zeros 32)"
    and "prove_seed_zeroizes_on_drop K ok addr st = Done (zeros 64)"
  using filled_then_dropped
  by (auto simp: prove_locked_zeroizes_on_drop_def prove_seed_zeroizes_on_drop_def seed_from_bytes_def seed_as_bytes_def
      SEED_LEN_def split: prod.split)

lemma library_drop_harnesses:
  assumes "libcrux_correct lib" and "\<forall>seed b. iteration_sig lib xof seed b \<noteq> None"
    and "mldsa_holds lib xof \<lparr>mdw_seed = replicate 32 0x42\<rparr>"
  shows "prove_ephemeral_keys_zeroizes_on_drop lib xof =
      Done (zeros (length (keys_memory (keys_of lib xof (replicate 64 0x42)))))"
    and "prove_l4_proof_zeroizes_on_drop lib xof = Done (zeros 3309)"
    and "prove_ml_dsa_proof_zeroizes_on_drop lib xof = Done (zeros 3309)"
proof -
  show "prove_ephemeral_keys_zeroizes_on_drop lib xof =
      Done (zeros (length (keys_memory (keys_of lib xof (replicate 64 0x42)))))"
    by (simp add: prove_ephemeral_keys_zeroizes_on_drop_def derive_keys_correct [OF assms(1)] keys.release_wipes)
  obtain sig where sig: "iteration_sig lib xof (replicate 64 0x42) (ascii ''test'') = Some sig" using assms(2) by fast
  then have "length sig = 3309"
    using assms(1) by (auto simp: iteration_sig_def libcrux_correct_def dsa_correct_def keys_of_sel DSA_SIG_SIZE_def Let_def)
  then show "prove_l4_proof_zeroizes_on_drop lib xof = Done (zeros 3309)"
    using prove_then_verify(1) [OF assms(1) sig]
    by (simp add: prove_l4_proof_zeroizes_on_drop_def derive_keys_correct [OF assms(1)] sig_proof.release_wipes)
  show "prove_ml_dsa_proof_zeroizes_on_drop lib xof = Done (zeros 3309)"
    using assms(1,3)
    by (auto simp: prove_ml_dsa_proof_zeroizes_on_drop_def mldsa_holds_def mldsa_prove_cases is_ok_def mldsa_proof.release_wipes
        libcrux_correct_def dsa_correct_def DSA_SIG_SIZE_def Let_def split: option.splits sum.splits)
qed

end
