(* ===== verification/Fuzz_Targets.thy ===== *)
theory Fuzz_Targets
  imports Harnesses Interface Keccak_Ct Merkle_Tree
begin

text \<open>
  The fuzz targets of \<^verbatim>\<open>src/fuzz/fuzz_targets\<close>: how each one cuts the fuzzer's bytes into the
  inputs of an operation, and what it asserts of the result. Indexing, slicing, fixed-size
  copies, chunking and checked arithmetic panic as in Rust, so a theorem that a target
  succeeds on every input says that the cutting never goes out of bounds and that the
  operation behind it never panics on what it is given. The five targets that only hand
  their bytes to one total operation are left out.
\<close>

section \<open>Cutting the input\<close>

text \<open>\<open>data[i]\<close>, \<open>data[a..b]\<close>, \<open>data[a..]\<close>, and a copy into or a conversion to an array of \<open>n\<close> bytes.\<close>

definition at_then :: "'a list \<Rightarrow> nat \<Rightarrow> ('a \<Rightarrow> check) \<Rightarrow> check" where
  "at_then xs i k = (if i < length xs then k (xs ! i) else Panicked)"

definition slice_then :: "'a list \<Rightarrow> nat \<Rightarrow> nat \<Rightarrow> ('a list \<Rightarrow> check) \<Rightarrow> check" where
  "slice_then xs a b k = (if a \<le> b \<and> b \<le> length xs then k (take (b - a) (drop a xs)) else Panicked)"

definition from_then :: "'a list \<Rightarrow> nat \<Rightarrow> ('a list \<Rightarrow> check) \<Rightarrow> check" where
  "from_then xs a k = slice_then xs a (length xs) k"

definition array_then :: "nat \<Rightarrow> bytes \<Rightarrow> (bytes \<Rightarrow> check) \<Rightarrow> check" where
  "array_then n src k = (if length src = n then k src else Panicked)"

definition array_at :: "bytes \<Rightarrow> nat \<Rightarrow> nat \<Rightarrow> (bytes \<Rightarrow> check) \<Rightarrow> check" where
  "array_at xs a b k = slice_then xs a b (\<lambda>src. array_then (b - a) src k)"

text \<open>\<open>slice::chunks\<close>.\<close>

function chunks :: "nat \<Rightarrow> 'a list \<Rightarrow> 'a list list" where
  "chunks n xs = (if n = 0 \<or> xs = [] then [] else take n xs # chunks n (drop n xs))"
  by pat_completeness auto
termination by (relation "measure (\<lambda>(n, xs). length xs)") auto

declare chunks.simps [simp del]

definition chunks_then :: "nat \<Rightarrow> 'a list \<Rightarrow> ('a list list \<Rightarrow> check) \<Rightarrow> check" where
  "chunks_then n xs k = (if n = 0 then Panicked else k (chunks n xs))"

text \<open>Division and remainder, and an addition of bytes that must not overflow.\<close>

definition div_then :: "nat \<Rightarrow> nat \<Rightarrow> (nat \<Rightarrow> check) \<Rightarrow> check" where
  "div_then a b k = (if b = 0 then Panicked else k (a div b))"

definition rem_then :: "nat \<Rightarrow> nat \<Rightarrow> (nat \<Rightarrow> check) \<Rightarrow> check" where
  "rem_then a b k = (if b = 0 then Panicked else k (a mod b))"

definition add_u8_then :: "byte \<Rightarrow> byte \<Rightarrow> (byte \<Rightarrow> check) \<Rightarrow> check" where
  "add_u8_then a b k = (if unat a + unat b < 256 then k (a + b) else Panicked)"

text \<open>\<open>let _ = r;\<close>, for a call that returns and for one that may panic.\<close>

definition ran :: "'a \<Rightarrow> check" where "ran r = Success"

definition ran_outcome :: "'a outcome \<Rightarrow> check" where
  "ran_outcome r = outcome_then r (\<lambda>_. Success)"

text \<open>One part of a target after another.\<close>

definition after :: "check \<Rightarrow> check \<Rightarrow> check" where
  "after c k = (if c = Success then k else c)"

lemmas cutting = after_def at_then_def slice_then_def from_then_def array_then_def array_at_def chunks_then_def div_then_def
  rem_then_def add_u8_then_def ran_def ran_outcome_def harness_monad

section \<open>The targets\<close>

definition fuzz_batch_verify :: "libcrux \<Rightarrow> xof \<Rightarrow> world \<Rightarrow> bytes \<Rightarrow> check" where
  "fuzz_batch_verify lib xof w data =
     (if length data < 4 then Success
      else at_then data 0 (\<lambda>b0. let num_claims = unat b0 mod 5 + 1 in
        from_then data 1 (\<lambda>payload.
        div_then (length payload) num_claims (\<lambda>q. let chunk_size = max q 1 in
        chunks_then chunk_size payload (\<lambda>cs. let claims = map claim_new (take num_claims cs) in
        if claims = [] then Success else ran (verify_batch lib xof claims w))))))"

definition fuzz_blind_attest :: "libcrux \<Rightarrow> xof \<Rightarrow> world \<Rightarrow> bytes \<Rightarrow> check" where
  "fuzz_blind_attest lib xof w data =
     (if length data < 32 \<or> 4096 < length data then Success
      else array_at data 0 32 (\<lambda>nonce. let factor = from_nonce xof nonce in
        from_then data 32 (\<lambda>cl. let blinded = blind_claim cl factor in
        assert_then (length blinded = length cl) (assert_then (blinded \<noteq> cl) (
        let recovered = blind_claim blinded factor in
        assert_then (recovered = cl) (ran (blind_attest lib xof data w)))))))"

definition fuzz_builder_step :: "bytes \<Rightarrow> byte \<Rightarrow> bytecode_builder \<Rightarrow> bytecode_builder" where
  "fuzz_builder_step data b builder =
     (let m = unat b mod 19 in
      if m = 1 then
        (let val_bytes = fold (\<lambda>(i, b) bs. bs[i := b]) (enumerate 0 (take 8 (drop 2 data))) (zeros 8)
         in bb_push builder (from_le_bytes val_bytes))
      else if m \<in> {2..15} then
        bb_plain ([OpAdd, OpXor, OpMul, OpPop, OpDup, OpSwap, OpAnd, OpOr, OpNot, OpShl, OpShr, OpRot, OpEq, OpLt] ! (m - 2))
          builder
      else bb_plain OpNop builder)"

definition fuzz_bytecode_builder :: "xof \<Rightarrow> world \<Rightarrow> bytes \<Rightarrow> check" where
  "fuzz_bytecode_builder xof w data =
     (if data = [] \<or> 4096 < length data then Success
      else at_then data 0 (\<lambda>b0.
        let run = (\<lambda>code. ran (execute xof (vm_new (fst (getrandom 8 w))) code)) in
        if unat b0 mod 3 = 0 then from_then data 1 (\<lambda>rest. run (map (\<lambda>b. b mod 20) rest))
        else if unat b0 mod 3 = 1 then run (bb_build (fold (\<lambda>b builder. bb_op builder b) (drop 1 data) bb_new))
        else run (bb_build (fold (fuzz_builder_step data) (drop 1 data) bb_new))))"

definition fuzz_chain_builder :: "xof \<Rightarrow> bytes \<Rightarrow> check" where
  "fuzz_chain_builder xof data =
     (if data = [] \<or> 8192 < length data then Success
      else at_then data 0 (\<lambda>b0. let num_chunks = unat b0 mod 8 + 1 in
        from_then data 1 (\<lambda>rest.
        div_then (length data) num_chunks (\<lambda>q.
        chunks_then (max q 1) rest (\<lambda>cs.
        ran (chain_finalize xof (fold (\<lambda>c s. chain_absorb s c) cs chain_new)))))))"

definition fuzz_chain_root :: "xof \<Rightarrow> bytes \<Rightarrow> check" where
  "fuzz_chain_root xof data =
     (if length data < 4 then Success
      else let chunk_size = max (length data div 4) 1 in
        chunks_then chunk_size data (\<lambda>events.
        if events = [] then Success else ran (chain_root xof events)))"

definition fuzz_chain_verify :: "xof \<Rightarrow> bytes \<Rightarrow> check" where
  "fuzz_chain_verify xof data =
     (if length data < 36 then Success
      else array_at data 0 32 (\<lambda>root.
        from_then data 32 (\<lambda>event_data.
        chunks_then 16 event_data (\<lambda>events.
        if events = [] then Success
        else after
          (case chain_root xof events of
             Inr actual_root \<Rightarrow>
               (let result = chain_verify xof events actual_root in assert_then (unwrap_u8 result = 1) Success)
           | Inl _ \<Rightarrow> Success)
          (ran (chain_verify xof events root))))))"

definition fuzz_commit_reveal :: "libcrux \<Rightarrow> xof \<Rightarrow> world \<Rightarrow> bytes \<Rightarrow> check" where
  "fuzz_commit_reveal lib xof w data =
     (if length data < 1 \<or> 4096 < length data then Success
      else case commit_phase xof data w of
        (Inr (token, nonce), w) \<Rightarrow>
          (case fst (reveal_phase lib xof token nonce data w) of
             Inr v \<Rightarrow> assert_then (is_valid_bool v) Success
           | Inl _ \<Rightarrow> Success)
      | (Inl _, w) \<Rightarrow> Success)"

definition fuzz_dsa_sign_verify :: "libcrux \<Rightarrow> bytes \<Rightarrow> check" where
  "fuzz_dsa_sign_verify lib data =
     (if length data < 32 then Success
      else array_at data 0 32 (\<lambda>seed.
        let kp = dsa_keygen lib seed;
            sign_with = (\<lambda>message randomness.
              case dsa_sign lib (dsa_sk_bytes kp) message (ascii ''veil7:fuzz'') randomness of
                Inl _ \<Rightarrow> Success
              | Inr sig \<Rightarrow>
                  (let result = dsa_verify lib (dsa_vk_bytes kp) message (ascii ''veil7:fuzz'') sig
                   in assert_then (is_ok result) Success));
            with_message = (\<lambda>message.
              if 64 \<le> length data then array_at data 32 64 (sign_with message) else sign_with message (zeros 32))
        in if 32 < length data then from_then data 32 with_message else with_message (ascii ''test'')))"

definition fuzz_hash_preimage :: "xof \<Rightarrow> bytes \<Rightarrow> check" where
  "fuzz_hash_preimage xof data =
     (if length data < 32 then Success
      else array_at data 0 32 (\<lambda>seed.
        case lamport_prove xof \<lparr>lw_seed = seed\<rparr> [] of
          Inl _ \<Rightarrow> Success
        | Inr (stmt, pf) \<Rightarrow>
            outcome_then (lamport_verify xof stmt pf) (\<lambda>result.
              case result of Inr ok \<Rightarrow> assert_then (unwrap_u8 ok = 1) Success | Inl _ \<Rightarrow> Success)))"

definition fuzz_keccak_ct :: "xof \<Rightarrow> world \<Rightarrow> bytes \<Rightarrow> check" where
  "fuzz_keccak_ct xof w data =
     (if length data < 3 then Success
      else at_then data 0 (\<lambda>b0. let out_len = unat b0 mod 64 + 1 in
        from_then data 1 (\<lambda>rest.
        let (one_shot, w) = ct_shake256 xof rest out_len w; (hasher1, w) = ct_new w; (hasher2, w) = ct_new w in
        after (ran one_shot)
       (after (case hasher1 of
                 Inl _ \<Rightarrow> Success
               | Inr h \<Rightarrow>
                   at_then data 1 (\<lambda>b1. let num_chunks = unat b1 mod 8 + 1 in
                   from_then data 2 (\<lambda>tl.
                   div_then (length data) num_chunks (\<lambda>q.
                   chunks_then (max q 1) tl (\<lambda>cs.
                   ran (ct_finalize xof (fold (\<lambda>c h. ct_update xof h c) cs h) 32))))))
       (after (if 35 \<le> length data then
                 array_at data 1 33 (\<lambda>mask. from_then data 33 (\<lambda>tl.
                 ran (ct_finalize xof (ct_update xof (with_mask mask) tl) 64)))
               else Success)
              (case hasher2 of
                 Inl _ \<Rightarrow> Success
               | Inr h \<Rightarrow> ran (ct_finalize xof (update_public h data) 32)))))))"

definition fuzz_kem_roundtrip :: "libcrux \<Rightarrow> bytes \<Rightarrow> check" where
  "fuzz_kem_roundtrip lib data =
     (if length data < 64 then Success
      else array_at data 0 64 (\<lambda>seed.
        let kp = kem_keygen lib seed;
            with_coins = (\<lambda>coins.
              let pk = kem_pk_from_bytes (kem_pk_bytes kp);
                  (ct, ss_enc) = kem_encapsulate lib pk coins;
                  sk = kem_sk_from_bytes (kem_sk_bytes kp);
                  ss_dec = kem_decapsulate lib sk ct
              in assert_then (ss_enc = ss_dec) Success)
        in if 96 \<le> length data then array_at data 64 96 with_coins else with_coins (zeros 32)))"

definition fuzz_merkle :: "xof \<Rightarrow> bytes \<Rightarrow> check" where
  "fuzz_merkle xof data =
     (if length data < 16 then Success
      else chunks_then 8 data (\<lambda>leaves.
        if length leaves < 2 then Success
        else after (ran (merkle_root xof leaves))
       (after (case (merkle_root xof leaves, merkle_root xof leaves) of
                 (Inr r1, Inr r2) \<Rightarrow> assert_then (r1 = r2) Success
               | _ \<Rightarrow> Success)
              (if 2 \<le> length leaves then
                 (let tampered_leaves = leaves[0 := replicate 8 0xFF]
                  in case (merkle_root xof leaves, merkle_root xof tampered_leaves) of
                       (Inr r1, Inr r2) \<Rightarrow> assert_then (r1 \<noteq> r2) Success
                     | _ \<Rightarrow> Success)
               else Success))))"

text \<open>The siblings both Merkle targets read: the full chunks of 32 bytes.\<close>

definition fuzz_siblings :: "bytes \<Rightarrow> bytes list" where
  "fuzz_siblings data = filter (\<lambda>c. length c = 32) (chunks 32 data)"

definition fuzz_merkle_verify :: "xof \<Rightarrow> bytes \<Rightarrow> check" where
  "fuzz_merkle_verify xof data =
     (if length data < 96 then Success
      else array_at data 0 32 (\<lambda>leaf. array_at data 32 64 (\<lambda>root. array_at data 64 72 (\<lambda>ix.
        at_then data 72 (\<lambda>b.
        let index = unat (from_le_bytes ix :: u64) mod 256; leaf_count = unat b mod 32 + 1 in
        rem_then index leaf_count (\<lambda>index.
        from_then data 73 (\<lambda>rest.
        ran (merkle_verify_path xof leaf root index (fuzz_siblings rest) leaf_count))))))))"

definition fuzz_pedersen :: "xof \<Rightarrow> bytes \<Rightarrow> check" where
  "fuzz_pedersen xof data =
     (if length data < 64 then Success
      else array_at data 0 32 (\<lambda>val. array_at data 32 64 (\<lambda>blinding.
        case pedersen_prove xof \<lparr>pw_value = val, pw_blinding = blinding\<rparr> [] of
          Inl _ \<Rightarrow> Success
        | Inr (stmt, pf) \<Rightarrow>
            outcome_then (pedersen_verify xof stmt pf) (\<lambda>result.
              case result of Inr ok \<Rightarrow> assert_then (unwrap_u8 ok = 1) Success | Inl _ \<Rightarrow> Success))))"

definition fuzz_range_proof :: "xof \<Rightarrow> bytes \<Rightarrow> check" where
  "fuzz_range_proof xof data =
     (if length data < 24 then Success
      else array_at data 0 8 (\<lambda>v. array_at data 8 16 (\<lambda>lo. array_at data 16 24 (\<lambda>hi.
        let val = from_le_bytes v; mn = from_le_bytes lo; mx = from_le_bytes hi;
            (mn, mx) = (if mn \<le> mx then (mn, mx) else (mx, mn))
        in if mn = mx then Success
           else ran (range_prove xof \<lparr>rw_value = val, rw_min = mn, rw_max = mx\<rparr> [])))))"

definition fuzz_shake256 :: "xof \<Rightarrow> bytes \<Rightarrow> check" where
  "fuzz_shake256 xof data =
     (if length data < 2 then Success
      else at_then data 0 (\<lambda>b0. let num_chunks = unat b0 mod 8 + 1 in
        from_then data 1 (\<lambda>payload.
        div_then (length payload) num_chunks (\<lambda>q.
        chunks_then (max q 1) payload (\<lambda>cs.
        let out1 = squeeze xof (fold (\<lambda>c h. update h c) cs shake_new) 32;
            out2 = shake256_array xof 32 payload
        in assert_then (out1 = out2) (
        let out3 = squeeze xof (update shake_new payload) 64
        in assert_then (out3 \<noteq> zeros 64) Success))))))"

definition fuzz_shamir :: "(nat \<Rightarrow> byte) option \<Rightarrow> bytes \<Rightarrow> check" where
  "fuzz_shamir rng data =
     (if length data < 66 then Success
      else array_at data 0 64 (\<lambda>secret. at_then data 64 (\<lambda>b64. at_then data 65 (\<lambda>b65.
        add_u8_then (b64 mod 10) 2 (\<lambda>n.
        if n = 0 then Panicked else add_u8_then (b65 mod n) 1 (\<lambda>t.
        let t = max t 2 in
        outcome_then (split rng secret n t) (\<lambda>result.
          case result of
            None \<Rightarrow> Success
          | Some shares \<Rightarrow>
              (let subset = map (\<lambda>s. \<lparr>share_index = share_index s, share_data = share_data s\<rparr>) (take (unat t) shares)
               in case reconstruct subset of
                    Some recovered \<Rightarrow> assert_then (recovered = secret) Success
                  | None \<Rightarrow> Success))))))))"

definition fuzz_threshold :: "libcrux \<Rightarrow> xof \<Rightarrow> world \<Rightarrow> bytes \<Rightarrow> check" where
  "fuzz_threshold lib xof w data =
     (if length data < 17 then Success
      else let cl = claim_new data in
        at_then data 0 (\<lambda>b0. let n = unat b0 mod 8 + 2 in
        at_then data 1 (\<lambda>b1. rem_then (unat b1) n (\<lambda>r. let m = r + 1 in
        ran_outcome (fst (threshold_verify lib xof cl n m w))))))"

text \<open>The loop of the oblivious-memory target, from position \<open>pos\<close>. The guard keeps the two reads
  in bounds; the subtraction \<open>end - pos\<close> panics when it would be negative.\<close>

function fuzz_oram_loop :: "xof \<Rightarrow> bytes \<Rightarrow> nat \<Rightarrow> oram \<Rightarrow> oram outcome" where
  "fuzz_oram_loop xof data pos r =
     (if pos + 65 < length data then
        (let op = unat (data ! pos) mod 5; addr = unat (data ! (pos + 1)); pos = pos + 2 in
         if op = 0 then (case oram_read r addr of _ \<Rightarrow> fuzz_oram_loop xof data pos r)
         else if op = 1 then
           (let end = min (pos + 64) (length data) in
            if end < pos then Panic
            else let len = end - pos;
                     val = take len (drop pos data) @ drop len (zeros 64)
                 in fuzz_oram_loop xof data (pos + 64) (fst (oram_write xof r addr val)))
         else if op = 2 then
           fuzz_oram_loop xof data pos (fst (snd (read_modify_write xof r addr (map (\<lambda>b. b XOR 0xFF)))))
         else if op = 3 then
           (let addr2 = (if pos < length data then unat (data ! pos) else 0)
            in fuzz_oram_loop xof data (pos + 1) (fst (oram_swap r addr addr2)))
         else (case oram_read r addr of _ \<Rightarrow> fuzz_oram_loop xof data pos r))
      else Done r)"
  by pat_completeness auto
termination by (relation "measure (\<lambda>(x, data, pos, r). length data - pos)") (auto simp: Let_def)

declare fuzz_oram_loop.simps [simp del]

definition fuzz_oram :: "xof \<Rightarrow> bytes \<Rightarrow> check" where
  "fuzz_oram xof data =
     (if length data < 3 then Success
      else outcome_then (fuzz_oram_loop xof data 0 oram_new) (\<lambda>r. ran (oram_drop r)))"

definition fuzz_interface_facade :: "libcrux \<Rightarrow> xof \<Rightarrow> world \<Rightarrow> bytes \<Rightarrow> check" where
  "fuzz_interface_facade lib xof w data =
     (if data = [] then Success
      else at_then data 0 (\<lambda>b0. let sel = unat b0 mod 9 in
        if sel = 0 then ran (attest_bytes lib xof data w)
        else if sel = 1 then
          (if 32 \<le> length data
           then array_at data 0 32 (\<lambda>seed. ran_outcome (fst (prove_hash_preimage xof seed w))) else Success)
        else if sel = 2 then
          (if 64 \<le> length data
           then array_at data 0 32 (\<lambda>val. array_at data 32 64 (\<lambda>blinding.
             ran_outcome (fst (prove_pedersen xof val blinding w)))) else Success)
        else if sel = 3 then
          (if 8 < length data
           then slice_then data 1 8 (\<lambda>part. chunks_then 1 part (\<lambda>leaves.
             if leaves \<noteq> []
             then rem_then (unat b0) (length leaves) (\<lambda>index. ran_outcome (fst (prove_merkle xof leaves index w)))
             else Success)) else Success)
        else if sel = 4 then
          (if 24 \<le> length data
           then array_at data 0 8 (\<lambda>v. array_at data 8 16 (\<lambda>lo. array_at data 16 24 (\<lambda>hi.
             let val = from_le_bytes v; mn = from_le_bytes lo; mx = from_le_bytes hi;
                 (lo, hi) = (if mn \<le> mx then (mn, mx) else (mx, mn))
             in ran_outcome (fst (prove_range xof val lo hi w))))) else Success)
        else if sel = 5 then ran (check_chain xof [data] (zeros 32))
        else if sel = 6 then
          (if 96 \<le> length data
           then array_at data 0 32 (\<lambda>leaf. array_at data 32 64 (\<lambda>root. array_at data 64 72 (\<lambda>ix.
             at_then data 72 (\<lambda>b.
             let index = unat (from_le_bytes ix :: u64) mod 8; leaf_count = unat b mod 4 + 1 in
             rem_then index leaf_count (\<lambda>index.
             from_then data 73 (\<lambda>rest.
             ran (check_merkle xof leaf root index (fuzz_siblings rest) leaf_count))))))) else Success)
        else if sel = 7 then ran (interface_blind_claim xof data w)
        else if data \<noteq> [] then ran (verify_once lib xof (claim_new data) w) else Success))"

section \<open>Bounds\<close>

lemma chunks_Nil [simp]: "chunks n [] = []"
  by (simp add: chunks.simps)

lemma chunks_eq_Nil_iff [simp]: "chunks n xs = [] \<longleftrightarrow> n = 0 \<or> xs = []"
  by (subst chunks.simps) simp

lemma concat_chunks: "0 < n \<Longrightarrow> concat (chunks n xs) = xs"
  by (induction n xs rule: chunks.induct) (subst chunks.simps, simp)

lemma array_at_eq [simp]: "a \<le> b \<Longrightarrow> b \<le> length xs \<Longrightarrow> array_at xs a b k = k (take (b - a) (drop a xs))"
  by (simp add: array_at_def slice_then_def array_then_def)

lemma after_Success [simp]: "after Success k = k"
  by (simp add: after_def)

lemma ran_Success [simp]: "ran r = Success"
  by (simp add: ran_def)

lemma ran_outcome_iff [simp]: "ran_outcome r = Success \<longleftrightarrow> r \<noteq> Panic"
  by (cases r) (simp_all add: ran_outcome_def outcome_then_def)

section \<open>Targets that only have to stay in bounds\<close>

lemma fuzz_bounds:
  shows "fuzz_batch_verify lib xof w data = Success"
    and "fuzz_bytecode_builder xof w data = Success"
    and "fuzz_chain_builder xof data = Success"
    and "fuzz_chain_root xof data = Success"
    and "fuzz_keccak_ct xof w data = Success"
    and "fuzz_merkle_verify xof data = Success"
    and "fuzz_range_proof xof data = Success"
  by (simp_all add: fuzz_batch_verify_def fuzz_bytecode_builder_def fuzz_chain_builder_def fuzz_chain_root_def
      fuzz_keccak_ct_def fuzz_merkle_verify_def fuzz_range_proof_def at_then_def from_then_def slice_then_def
      chunks_then_def div_then_def rem_then_def Let_def Suc_le_eq split: prod.split sum.split)
    (simp add: div_eq_0_iff)

lemma oram_loop_wf: "oram_wf r \<Longrightarrow> \<exists>r'. fuzz_oram_loop xof data pos r = Done r' \<and> oram_wf r'"
proof (induction xof data pos r rule: fuzz_oram_loop.induct)
  case (1 xof data pos r)
  have "oram_wf (fst (snd (read_modify_write xof r a f)))" for a f
    using 1(6) by (simp add: oram_rmw_eq oram_write_refines)
  with 1 show ?case
    by (subst fuzz_oram_loop.simps) (auto simp: Let_def oram_write_refines oram_swap_refines)
qed

lemma fuzz_oram_passes: "fuzz_oram xof data = Success"
  using oram_loop_wf [OF oram_wf_new, of xof data 0] by (auto simp: fuzz_oram_def outcome_then_def)

section \<open>Targets over operations that may panic\<close>

lemma pipeline_no_panic:
  assumes "\<And>e s p. prove R wit e = Inr (s, p) \<Longrightarrow> verify R s p \<noteq> Panic"
  shows "fst (prove_and_verify xof R wit pers w) \<noteq> Panic"
proof -
  have "prove_and_verify_with_entropy xof R wit e \<noteq> Panic" for e
    using assms [of e] by (auto simp: prove_and_verify_with_entropy_def Let_def split: sum.split outcome.split)
  then show ?thesis by (simp add: prove_and_verify_def split: prod.split sum.split)
qed

lemma range_no_panic: "range_prove xof w e = Inr (s, p) \<Longrightarrow> range_verify xof s p \<noteq> Panic"
  using range_num_bits_bounds [of w]
  by (auto simp: range_prove_eq range_statement_from_witness_def range_verify_iff [where n = "range_num_bits w"])

lemma facade_no_panic:
  shows "fst (prove_hash_preimage xof seed w) \<noteq> Panic" and "fst (prove_pedersen xof val blinding w) \<noteq> Panic"
    and "fst (prove_merkle xof leaves index w) \<noteq> Panic" and "fst (prove_range xof v lo hi w) \<noteq> Panic"
  using lamport.complete [where xof = xof, OF TrueI] pedersen.complete [where xof = xof, OF TrueI] range_no_panic [of xof]
  by (auto simp: prove_hash_preimage_def prove_pedersen_def prove_merkle_def prove_range_def merkle_relation_def
      merkle_verify_iff range_relation_def intro!: pipeline_no_panic)

lemma fuzz_facade_passes: "fuzz_interface_facade lib xof w data = Success"
  by (simp add: fuzz_interface_facade_def at_then_def from_then_def slice_then_def chunks_then_def rem_then_def
      facade_no_panic Let_def)

lemma fuzz_relations_pass:
  shows "fuzz_hash_preimage xof data = Success" and "fuzz_pedersen xof data = Success"
proof -
  show "fuzz_hash_preimage xof data = Success"
    using lamport.complete [where xof = xof, OF TrueI]
    by (auto simp: fuzz_hash_preimage_def lamport_relation_def outcome_then_def assert_then_def choice_of_def split: sum.split)
  show "fuzz_pedersen xof data = Success"
    using pedersen.complete [where xof = xof, OF TrueI]
    by (auto simp: fuzz_pedersen_def pedersen_relation_def outcome_then_def assert_then_def choice_of_def split: sum.split)
qed

lemma threshold_no_panic:
  assumes "m < 2 ^ 32"
  shows "fst (threshold_verify lib xof cl n m w) \<noteq> Panic"
proof -
  have cap: "\<not> capacity_overflows m" using assms by (simp add: capacity_overflows_def)
  obtain r w' where r: "verify_all lib xof (replicate m cl) w = (r, w')" by (metis prod.exhaust)
  show ?thesis
  proof (cases r)
    case (Inr vs)
    with verify_all_wf r have "list_all verdict_wf vs" and "length vs = m" by force+
    with count_choices_eq [of vs 0] assms r Inr show ?thesis
      by (simp add: threshold_verify_def cap threshold_loop_eq Let_def)
  qed (simp add: threshold_verify_def cap threshold_loop_eq r Let_def)
qed

lemma fuzz_threshold_passes: "fuzz_threshold lib xof w data = Success"
proof -
  have "unat (data ! 1) mod (unat (data ! 0) mod 8 + 2) \<le> unat (data ! 1)" by simp
  also have "unat (data ! 1) < 256" by (rule unat_byte_less)
  finally have "unat (data ! 1) mod (unat (data ! 0) mod 8 + 2) + 1 < 2 ^ 32" by simp
  from threshold_no_panic [OF this] show ?thesis
    by (simp add: fuzz_threshold_def at_then_def rem_then_def Let_def)
qed

lemma fuzz_chain_verify_passes: "fuzz_chain_verify xof data = Success"
  by (simp add: fuzz_chain_verify_def from_then_def slice_then_def chunks_then_def assert_then_def chain_verify_def
      ct_eq_def choice_of_def Let_def split: sum.split)

section \<open>Targets with cryptography behind them\<close>

lemma verify_once_valid:
  "libcrux_correct lib \<Longrightarrow> verify_once lib xof cl w = (Inr v, w') \<Longrightarrow> is_valid_bool v"
  by (auto simp: verify_once_def verify_default_eq split: prod.splits sum.splits option.splits)

lemma fuzz_crypto_passes:
  assumes "libcrux_correct lib"
  shows "fuzz_commit_reveal lib xof w data = Success"
    and "fuzz_dsa_sign_verify lib data = Success"
    and "fuzz_kem_roundtrip lib data = Success"
proof -
  show "fuzz_commit_reveal lib xof w data = Success"
    by (auto simp: fuzz_commit_reveal_def reveal_phase_eq assert_then_def split: prod.split sum.split)
      (metis verify_once_valid [OF assms] prod.collapse)
  show "fuzz_dsa_sign_verify lib data = Success"
    using assms
    by (simp add: fuzz_dsa_sign_verify_def from_then_def slice_then_def assert_then_def dsa_sign_def dsa_keygen_def
        dsa_sk_bytes_def dsa_vk_bytes_def libcrux_correct_def dsa_correct_def Let_def split: option.split)
  have "prove_kem_roundtrip_matches lib seed coins = Success" for seed coins
    using assms kem_harness by (simp add: libcrux_correct_def)
  then show "fuzz_kem_roundtrip lib data = Success"
    by (simp add: fuzz_kem_roundtrip_def prove_kem_roundtrip_matches_def Let_def)
qed

lemma shamir_n:
  fixes b :: byte
  shows "unat (b mod 10) + 2 < 256" and "2 \<le> unat (b mod 10 + 2)" and "unat (b mod 10 + 2) \<le> 11"
proof -
  have b: "unat (b mod 10) < 10" by (simp add: unat_mod_distrib)
  then show "unat (b mod 10) + 2 < 256" by simp
  then have "unat (b mod 10 + 2) = unat (b mod 10) + 2" by (simp add: unat_word_ariths)
  with b show "2 \<le> unat (b mod 10 + 2)" and "unat (b mod 10 + 2) \<le> 11" by simp_all
qed

lemma shamir_t:
  fixes c n :: byte
  assumes "2 \<le> unat n" and "unat n \<le> 11"
  shows "unat (c mod n) + 1 < 256" and "unat (c mod n + 1) \<le> unat n"
proof -
  have c: "unat (c mod n) < unat n" using assms(1) by (simp add: unat_mod_distrib)
  with assms(2) show "unat (c mod n) + 1 < 256" by simp
  with c show "unat (c mod n + 1) \<le> unat n" by (simp add: unat_word_ariths)
qed

lemma first_shares: "t \<le> length shares \<Longrightarrow> take t shares = shares_of shares [0..<t]"
  by (rule nth_equalityI) (simp_all add: shares_of_def)

lemma copy_shares [simp]: "map (\<lambda>s. \<lparr>share_index = share_index s, share_data = share_data s\<rparr>) shares = shares"
  by (rule map_idI) simp

lemma fuzz_shamir_passes: "fuzz_shamir rng data = Success"
proof (cases "length data < 66")
  case False
  let ?n = "data ! 64 mod 10 + 2" and ?t = "max (data ! 65 mod (data ! 64 mod 10 + 2) + 1) 2"
  note n = shamir_n [of "data ! 64"] and t = shamir_t [OF shamir_n(2,3), of "data ! 65" "data ! 64"]
  have n0: "?n \<noteq> 0" using n(2) by auto
  have t2: "2 \<le> unat ?t" "unat ?t \<le> unat ?n"
    using n(2) t(2) by (auto simp: max_def word_le_nat_alt)
  have "reconstruct (take (unat ?t) (split_shares r (take 64 data) (unat ?n) (unat ?t))) = Some (take 64 data)" for r
    using reconstruct_split_shares [of "take 64 data" "unat ?t" "unat ?n" "[0..<unat ?t]" r] False t2 n(3)
    by (subst first_shares) (auto simp: atLeast0LessThan)
  with False n t n0 t2 show ?thesis
    by (auto simp: fuzz_shamir_def at_then_def add_u8_then_def outcome_then_def assert_then_def split_alt Let_def
        split: option.split)
qed (simp add: fuzz_shamir_def)

section \<open>Properties\<close>

text \<open>C17. Ten fuzz targets, for all input bytes, hash functions and machines and with correct
  libraries. Those that assert something of a result, on chains (\<open>chain_verify\<close>), commit and
  reveal, signatures, preimage proofs, encapsulation, openings and sharings, never fail an
  assertion and never panic: what was made honestly is accepted. The targets of the facade
  and of the threshold verdict, which call operations that can panic, never do, and the
  loop of the oblivious-memory target reads its input to the end and leaves a well-formed
  store. The targets on blinding, Merkle trees and SHAKE256 assert more than holds and are
  characterised below.\<close>

theorem fuzz_targets_pass:
  assumes "libcrux_correct lib"
  shows "fuzz_chain_verify xof data = Success \<and> fuzz_commit_reveal lib xof w data = Success \<and>
    fuzz_dsa_sign_verify lib data = Success \<and> fuzz_hash_preimage xof data = Success \<and>
    fuzz_kem_roundtrip lib data = Success \<and> fuzz_pedersen xof data = Success \<and> fuzz_shamir rng data = Success \<and>
    fuzz_interface_facade lib xof w data \<noteq> Panicked \<and> fuzz_threshold lib xof w data \<noteq> Panicked \<and>
    (\<exists>r. fuzz_oram_loop xof data 0 oram_new = Done r \<and> oram_wf r)"
  using assms oram_loop_wf [OF oram_wf_new]
  by (simp add: fuzz_chain_verify_passes fuzz_crypto_passes fuzz_relations_pass fuzz_facade_passes
      fuzz_shamir_passes fuzz_threshold_passes)

theorem fuzz_targets_pass_witness:
  "fuzz_shamir (Some (\<lambda>i. 7)) (replicate 66 5) = Success \<and>
   (\<exists>r. fuzz_oram_loop (\<lambda>m i. 7) (replicate 200 3) 0 oram_new = Done r \<and> oram_wf r) \<and>
   fuzz_commit_reveal demo_libcrux (\<lambda>m i. 7) quiet_world [1, 2] = Success"
  by (simp only: fuzz_targets_pass [OF demo_libcrux_correct] simp_thms)

text \<open>Three targets assert more than the code can give. The blinding target fails exactly
  when the mask is zero on the claim, in particular always on 32 bytes, where the claim
  is empty.\<close>

lemma blind_fixes_iff: "blind_claim cl f = cl \<longleftrightarrow> (\<forall>i<length cl. bf_mask f ! (i mod 32) = 0)"
proof -
  have "b XOR m = b \<longleftrightarrow> m = 0" for b m :: byte using xor_left_cancel [of b m 0] by simp
  then show ?thesis by (simp add: list_eq_iff_nth_eq nth_blind_claim)
qed

theorem fuzz_blind_exact:
  "fuzz_blind_attest lib xof w data = Success \<longleftrightarrow>
     length data < 32 \<or> 4096 < length data \<or>
     (\<exists>i<length data - 32. bf_mask (from_nonce xof (take 32 data)) ! (i mod 32) \<noteq> 0)"
  by (auto simp: fuzz_blind_attest_def from_then_def slice_then_def assert_then_def blind_claim_invol blind_fixes_iff Let_def)

text \<open>The Merkle target fails on an input that starts with eight bytes \<open>0xFF\<close>, for there the tampered
  tree is the tree itself, and on no other input unless the hash collides.\<close>

lemma chunks_Cons: "0 < n \<Longrightarrow> xs \<noteq> [] \<Longrightarrow> chunks n xs = take n xs # chunks n (drop n xs)"
  by (simp add: chunks.simps)

theorem fuzz_merkle_exact:
  assumes "16 \<le> length data" and "leaves = chunks 8 data"
    and "collision_free xof 32 (merkle_messages xof leaves \<union> merkle_messages xof (leaves[0 := replicate 8 0xFF]))"
  shows "fuzz_merkle xof data = (if take 8 data = replicate 8 0xFF then Assertion_Failed else Success)"
proof -
  let ?leaves' = "leaves[0 := replicate 8 0xFF]"
  have "drop 8 data \<noteq> []" using assms(1) by simp
  moreover have "data \<noteq> []" using assms(1) by auto
  ultimately have l: "leaves = take 8 data # take 8 (drop 8 data) # chunks 8 (drop 8 (drop 8 data))"
    unfolding assms(2) by (simp only: chunks_Cons zero_less_numeral simp_thms)
  then have ne: "leaves \<noteq> []" "?leaves' \<noteq> []" by simp_all
  have "the_root xof leaves = the_root xof ?leaves' \<longleftrightarrow> leaves = ?leaves'"
    using the_root_inj [OF ne _ assms(3)] by auto
  also have "\<dots> \<longleftrightarrow> take 8 data = replicate 8 0xFF" by (simp only: l list_update_code) simp
  finally have eq: "the_root xof leaves = the_root xof ?leaves' \<longleftrightarrow> take 8 data = replicate 8 0xFF" .
  have "2 \<le> length leaves" by (simp add: l)
  with assms(1) eq ne show ?thesis
    by (simp add: fuzz_merkle_def chunks_then_def merkle_root_the_root assert_then_def Let_def flip: assms(2))
qed

text \<open>The hash target passes exactly when the first 64 bytes of output are not all zero: absorbing
  in chunks always agrees with the one-shot function.\<close>

theorem fuzz_shake256_exact:
  "fuzz_shake256 xof data = Success \<longleftrightarrow> length data < 2 \<or> shake256_ema xof 64 (drop 1 data) \<noteq> zeros 64"
proof -
  have "squeeze xof (fold (\<lambda>c h. update h c) cs shake_new) 32 = shake256_array xof 32 (concat cs)" for cs
    by (simp add: squeeze_eq shake256_array_def flip: updates_def)
  then show ?thesis
    by (auto simp: fuzz_shake256_def at_then_def from_then_def slice_then_def div_then_def chunks_then_def
        assert_then_def concat_chunks squeeze_eq Let_def)
qed

end
