(* ===== verification/Spec2Isabelle.thy ===== *)
theory Spec2Isabelle
  imports Shamir Chain Merkle Hash_Preimage Pedersen Threshold_Relation Range_Proof Pipeline
    Ml_Dsa_Relation Keccak_Ct Entropy_Health Entropy_Sources Seed_Memory Sys_Probes Pq_Backends Commit_Reveal
    Audit_Api Cli Merkle_Tree Drop_Harnesses Fuzz_Targets
begin

text \<open>
  Verification of the veil7 engine, a Rust library and command-line tool that attests
  claims with ephemeral post-quantum keys. All paths below are under \<^verbatim>\<open>src/src/\<close>.

  \<^bold>\<open>The program.\<close> A claim goes through seven layers: L1 harvests a seed, L2 derives an ML-KEM
  and an ML-DSA key pair from it, L3 commits to the public keys and the claim, L4 signs the
  commitment, L5 verifies the signature and a KEM round trip, L6 wipes every secret, L7 emits
  a verdict (a validity bit and a transcript). L0 keeps secrets in pinned, self-wiping
  buffers. The pipeline composes the layers, once, in batches, on a stack machine, over an
  oblivious memory, or generically over a relation with a prover and a verifier. Around it
  stand an event chain, secret sharing, blinding, commit-reveal, threshold and hybrid
  attestation, an audit module, health tests for entropy, a facade that reads files, and
  the command line.

  \<^bold>\<open>The theories and the code they model.\<close>

  \<^item> \<open>Prelude\<close>: bytes, little-endian codecs, XOR of buffers, \<open>Choice\<close>, errors and outcomes;
    the collections \<open>tag_defs\<close>, \<open>len_simps\<close> and \<open>hash_simps\<close>. \<open>Domain\<close>: every tag of
    \<^verbatim>\<open>common/domain.rs\<close>; no tag is a prefix of another.
  \<^item> \<open>Shake\<close> (\<^verbatim>\<open>shake256.rs\<close>): hasher and reader. The Keccak sponge itself is third-party code,
    the parameter \<open>xof\<close> (the infinite output stream of a message); collision resistance is a
    hypothesis \<open>collision_free\<close> on the finitely many messages a statement is about.
    \<open>Keccak_Ct\<close> (\<^verbatim>\<open>keccak_ct.rs\<close>): the masked sponge; which bytes it masks.
  \<^item> \<open>Gf256\<close>, \<open>Lagrange\<close>, \<open>Shamir\<close> (\<^verbatim>\<open>shamir.rs\<close>): GF(256) arithmetic proved to be a field,
    interpolation, splitting and reconstruction: correctness, secrecy, every error, and the panic of indexing
    the coefficient array.
  \<^item> \<open>Micro_VM\<close> (\<^verbatim>\<open>execution/vm.rs\<close>): opcodes, interpreter, trace hash, builder. A refinement of
    an abstract machine on decoded instructions, a stack invariant over the reachable states,
    a linear bound on the iterations, and binding of the root to the code.
  \<^item> \<open>Transcript\<close> (\<^verbatim>\<open>common/transcript.rs\<close>), \<open>Chain\<close> (\<^verbatim>\<open>chain.rs\<close>): framing, binding of challenges
    to histories, one-shot and incremental roots, tamper evidence and where it ends.
  \<^item> \<open>Oram\<close> (\<^verbatim>\<open>storage/oram.rs\<close>): each operation is a program of loads and stores of slot bytes; running
    it gives the result, the slots and the accesses it made. The scans refine an array of
    slots, and the recorded accesses do not depend on addresses or data.
  \<^item> \<open>Relations\<close> (\<^verbatim>\<open>relations/mod.rs\<close>): the trait as a record, its contract as the locale
    \<open>relation_scheme\<close>, interpreted in \<open>Merkle\<close>, \<open>Hash_Preimage\<close>, \<open>Pedersen\<close>, \<open>Range_Proof\<close>,
    \<open>Threshold_Relation\<close> and \<open>Ml_Dsa_Relation\<close> for the six relations of that directory, each with its
    completeness and what acceptance means. \<open>Merkle_Tree\<close>: the trees behind the levels, and that a
    root determines the list of leaves.
  \<^item> \<open>Memlock\<close> (\<^verbatim>\<open>layers/l0_memlock.rs\<close>): wiping, canaries, the lock budget, and \<open>Locked\<close> buffers
    as an interleaving of atomic steps of any number of threads; the counter is exact, for
    any allocator the pages of a buffer stay pinned until a buffer on the same page is dropped,
    and the budget is overrun by at most what is between check and count. \<open>Sys_Probes\<close> (same file): the resource
    limit, the hardware random instructions and the reader of the kernel's status file, over
    what the system returned. \<open>Seed_Memory\<close>: the harvests of \<^verbatim>\<open>layers/l1_entropy.rs\<close> that fill
    pinned buffers; they refine the harvests on byte strings the other theories use.
  \<^item> \<open>Entropy\<close> and \<open>Entropy_Sources\<close> (\<^verbatim>\<open>layers/l1_entropy.rs\<close>, \<^verbatim>\<open>entropy_sources.rs\<close>): the
    harvests and the sources, and that a difference in any one source reaches the seed;
    \<open>Entropy_Health\<close> (\<^verbatim>\<open>entropy_health.rs\<close>), \<open>Backend\<close> (\<^verbatim>\<open>pq_backends/libcrux_backend.rs\<close>),
    \<open>Pq_Backends\<close> (\<^verbatim>\<open>pq_backends/slh_dsa.rs\<close>, \<^verbatim>\<open>pq_backends/fn_dsa.rs\<close>), \<open>Keygen\<close>
    (\<^verbatim>\<open>layers/l2_keygen.rs\<close>), \<open>Attestation\<close> (\<^verbatim>\<open>layers/l3_commit.rs\<close> to \<^verbatim>\<open>layers/l7_emit.rs\<close>).
  \<^item> \<open>Pipeline\<close> (\<^verbatim>\<open>pipeline.rs\<close>): every entry point; outcomes, batches, what a proof and a
    verdict bind, as reductions to a collision or a forgery; the locale \<open>relation_pipeline\<close> extends \<open>relation_scheme\<close> and is interpreted below.
  \<^item> \<open>Blind\<close>, \<open>Commit_Reveal\<close>, \<open>Threshold_Verify\<close>, \<open>Hybrid\<close>, \<open>Audit_Api\<close> (\<^verbatim>\<open>blind.rs\<close>,
    \<^verbatim>\<open>commit_reveal.rs\<close>, \<^verbatim>\<open>threshold.rs\<close>, \<^verbatim>\<open>hybrid.rs\<close>, \<^verbatim>\<open>audit.rs\<close>), \<open>Interface\<close> (\<^verbatim>\<open>interface.rs\<close>),
    \<open>Cli\<close> (\<^verbatim>\<open>main.rs\<close>): these protocols, the facade and the tool, down to the printed lines.
  \<^item> \<open>Harnesses\<close> and \<open>Drop_Harnesses\<close> (\<^verbatim>\<open>../proofs/kani_proofs.rs\<close>): the bounded harnesses kept with the
    code, with their assertions proved for inputs of every length (one of them fails, and the one on
    a wrong claim holds exactly short of a collision or a forgery); the contract of destructors as
    the locale \<open>wiped_on_drop\<close>, interpreted on the types that have one.
    \<open>Fuzz_Targets\<close> (\<^verbatim>\<open>../fuzz/fuzz_targets\<close>): how each target cuts its input, with every bound
    checked; the targets whose assertions or operations can fail and that pass on all inputs, the
    three that fail, with the exact condition, and the rest, which only have to stay in bounds.

  \<^bold>\<open>Conventions.\<close> Bytes are 8-bit words and fixed-width integers words of their width; \<open>usize\<close> is
  a natural number where it indexes memory, reduced where the code casts it. A fallible
  function returns \<open>veil_error + 'a\<close>; code that can panic (an index, a shift, a checked sum,
  release builds keep overflow checks) returns an \<open>outcome\<close>. Effects are explicit: \<open>world\<close>
  holds the answers of \<open>getrandom\<close>, clocks and addresses, and counts the calls; \<open>kernel\<close> is
  \<open>mlock\<close> and \<open>munlock\<close>; \<open>filesystem\<close> is what files and directories hold; \<open>readings\<close> is what
  the ambient entropy sources measure. Third-party cryptography is a parameter (\<open>libcrux\<close>,
  \<open>hkdf\<close>, \<open>slh_library\<close>) whose documented behaviour is a named predicate. What is assumed of
  \<open>libcrux\<close> is correctness only: it verifies its own signatures and opens its own ciphertexts.
  \<open>Drop\<close> implementations are functions to the value they leave; volatile writes and fences have no
  other meaning here. 64-bit floats are read as reals in the health tests and rounded
  exactly in the budget threshold. Every loop is a total function with its measure; the only
  fuel is in the statement that bounds the interpreter, where the number of code bytes
  left is shown to suffice.

  \<^bold>\<open>Not modelled.\<close> The instructions and system calls themselves (their results are arguments);
  secrecy of timing beyond the access sequences of the oblivious memory; accessors that return
  a field (a record selector here), trait declarations and marker types; module re-exports and
  tests; harnesses and fuzz targets that only call one operation that is total in the model,
  compare two equal calls, or do not match the functions they call.
\<close>

section \<open>The relations in the pipeline\<close>

interpretation merkle_run: relation_pipeline "merkle_relation xof" merkle_holds for xof
  by (rule relation_pipeline.intro [OF merkle.relation_scheme_axioms])

interpretation range_run: relation_pipeline "range_relation xof" in_range for xof
  by (rule relation_pipeline.intro [OF range.relation_scheme_axioms])

interpretation threshold_run: relation_pipeline "threshold_relation xof" "threshold_holds xof" for xof
  by (rule relation_pipeline.intro [OF threshold.relation_scheme_axioms])

interpretation lamport_run: relation_pipeline "lamport_relation xof" "\<lambda>w. True" for xof
  by (rule relation_pipeline.intro [OF lamport.relation_scheme_axioms])

interpretation pedersen_run: relation_pipeline "pedersen_relation xof" "\<lambda>w. True" for xof
  by (rule relation_pipeline.intro [OF pedersen.relation_scheme_axioms])

interpretation mldsa_run: relation_pipeline "mldsa_relation lib xof" "mldsa_holds lib xof" for lib xof
  by (rule relation_pipeline.intro [OF mldsa.relation_scheme_axioms])

section \<open>Properties that span components\<close>

text \<open>C6. Completeness of the whole pipeline: on a machine whose random source answers, an honest
  run of the generic pipeline (harvest, prove, verify, emit) on any of the six
  relations returns a valid verdict, for every hash function: no Merkle witness with an
  index inside the tree, no Lamport seed, no commitment opening, no value inside its range,
  no set of shares with nonzero hashes and no signing seed (with a correct signature
  library that does not fail on it) is ever rejected, and none panics.\<close>

theorem relations_complete:
  assumes "\<forall>k. os_random w k 48 \<noteq> None"
    and "merkle_holds mw" and "in_range rw" and "threshold_holds xof tw" and "mldsa_holds lib xof dw"
  shows "(\<exists>v w'. prove_and_verify xof (merkle_relation xof) mw p w = (Done (Inr v), w') \<and> is_valid_bool v) \<and>
    (\<exists>v w'. prove_and_verify xof (range_relation xof) rw p w = (Done (Inr v), w') \<and> is_valid_bool v) \<and>
    (\<exists>v w'. prove_and_verify xof (threshold_relation xof) tw p w = (Done (Inr v), w') \<and> is_valid_bool v) \<and>
    (\<exists>v w'. prove_and_verify xof (lamport_relation xof) lw p w = (Done (Inr v), w') \<and> is_valid_bool v) \<and>
    (\<exists>v w'. prove_and_verify xof (pedersen_relation xof) pw p w = (Done (Inr v), w') \<and> is_valid_bool v) \<and>
    (\<exists>v w'. prove_and_verify xof (mldsa_relation lib xof) dw p w = (Done (Inr v), w') \<and> is_valid_bool v)"
  using merkle_run.pipeline_harvested [OF assms(2,1)] range_run.pipeline_harvested [OF assms(3,1)]
    threshold_run.pipeline_harvested [OF assms(4,1)] lamport_run.pipeline_harvested [OF TrueI assms(1)]
    pedersen_run.pipeline_harvested [OF TrueI assms(1)] mldsa_run.pipeline_harvested [OF assms(5,1)]
  by blast

theorem relations_complete_witness:
  "(\<exists>v w'. prove_and_verify (\<lambda>m i. 7) (merkle_relation (\<lambda>m i. 7)) \<lparr>mw_leaves = [[1], [2]], mw_index = 1\<rparr> [] quiet_world
     = (Done (Inr v), w') \<and> is_valid_bool v) \<and>
   (\<exists>v w'. prove_and_verify (\<lambda>m i. 7) (mldsa_relation demo_libcrux (\<lambda>m i. 7)) \<lparr>mdw_seed = zeros 32\<rparr> [] quiet_world
     = (Done (Inr v), w') \<and> is_valid_bool v)"
proof -
  have "threshold_holds (\<lambda>m i. 7) \<lparr>tw_shares = [[1]], tw_indices = [1]\<rparr>"
    by (simp add: threshold_holds_def share_hash_def squeeze_eq shake256_ema_def list_ex_iff upt_rec)
  moreover have "mldsa_holds demo_libcrux (\<lambda>m i. 7) \<lparr>mdw_seed = zeros 32\<rparr>"
    using demo_libcrux_correct
    by (simp add: mldsa_holds_def mldsa_prove_cases Let_def libcrux_correct_def demo_libcrux_def is_ok_def)
  ultimately show ?thesis
    using relations_complete [of quiet_world "\<lparr>mw_leaves = [[1], [2]], mw_index = 1\<rparr>"
        "\<lparr>rw_value = 5, rw_min = 1, rw_max = 9\<rparr>" "\<lambda>m i. 7"]
    by (simp add: quiet_world_def merkle_holds_def in_range_def)
qed

end
